(* ===== verification/Prelude.thy ===== *)
theory Prelude
  imports Main "HOL-Library.Word" "HOL-Library.Multiset"
begin

text \<open>
  Generic material shared by every component: the machine types, C's byte-wise copies into
  fixed arrays (\<open>memcpy\<close> with its bounds), the little-endian layout of a 64-bit object, the
  removal idiom \<open>a[i] = a[--n]\<close>, and outcomes of host operations.
  Undefined behaviour of C (a copy that leaves its array) is a value of the model: \<open>None\<close>.
\<close>

type_synonym byte = "8 word"
type_synonym u64 = "64 word"
type_synonym u32 = "32 word"

named_theorems blit_simps \<open>reading back what a bounded copy wrote\<close>
named_theorems bytes_simps \<open>lengths and round trips of the little-endian layout\<close>

section \<open>Bounded copies\<close>

text \<open>\<open>bytes_at b off n\<close> is the \<open>n\<close> bytes at \<open>b + off\<close>; \<open>blit b off src\<close> overwrites them.\<close>

definition bytes_at :: "'a list \<Rightarrow> nat \<Rightarrow> nat \<Rightarrow> 'a list" where
  "bytes_at b off n = take n (drop off b)"

definition blit :: "'a list \<Rightarrow> nat \<Rightarrow> 'a list \<Rightarrow> 'a list" where
  "blit b off src = take off b @ src @ drop (off + length src) b"

text \<open>\<open>memcpy(&dst[off], src, n)\<close>: both the source and the destination must hold \<open>n\<close> bytes.\<close>

definition memcpy_to :: "'a list \<Rightarrow> nat \<Rightarrow> 'a list \<Rightarrow> nat \<Rightarrow> 'a list option" where
  "memcpy_to b off src n =
     (if off + n \<le> length b \<and> n \<le> length src then Some (blit b off (take n src)) else None)"

text \<open>\<open>a[i] = v\<close> on an array of \<open>length a\<close> elements.\<close>

definition store_at :: "'a list \<Rightarrow> nat \<Rightarrow> 'a \<Rightarrow> 'a list option" where
  "store_at a i v = (if i < length a then Some (a[i := v]) else None)"

lemma length_blit [simp]: "off + length src \<le> length b \<Longrightarrow> length (blit b off src) = length b"
  by (simp add: blit_def)

lemma length_bytes_at [simp]: "off + n \<le> length b \<Longrightarrow> length (bytes_at b off n) = n"
  by (simp add: bytes_at_def)

lemma bytes_at_blit_same [blit_simps]:
  "off + length src \<le> length b \<Longrightarrow> n = length src \<Longrightarrow> bytes_at (blit b off src) off n = src"
  by (simp add: bytes_at_def blit_def)

lemma bytes_at_blit_before [blit_simps]:
  "o1 + n \<le> o2 \<Longrightarrow> o2 + length src \<le> length b \<Longrightarrow> bytes_at (blit b o2 src) o1 n = bytes_at b o1 n"
  by (rule nth_equalityI) (auto simp: bytes_at_def blit_def nth_append)

lemma nth_blit_inside:
  "off + length src \<le> length b \<Longrightarrow> off \<le> i \<Longrightarrow> i < off + length src \<Longrightarrow> blit b off src ! i = src ! (i - off)"
  by (auto simp: blit_def nth_append)

lemma nth_blit_outside:
  "off + length src \<le> length b \<Longrightarrow> i < off \<or> off + length src \<le> i \<Longrightarrow> blit b off src ! i = b ! i"
  by (auto simp: blit_def nth_append)

lemma memcpy_to_Some:
  "memcpy_to b off src n = Some b' \<longleftrightarrow>
     off + n \<le> length b \<and> n \<le> length src \<and> b' = blit b off (take n src)"
  by (auto simp: memcpy_to_def)

lemma store_at_Some: "store_at a i v = Some a' \<longleftrightarrow> i < length a \<and> a' = a[i := v]"
  by (auto simp: store_at_def)

lemma bytes_at_append_left [simp]: "off + n \<le> length a \<Longrightarrow> bytes_at (a @ b) off n = bytes_at a off n"
  by (simp add: bytes_at_def)

section \<open>The 8 bytes of a 64-bit object, little endian\<close>

primrec nat_le :: "nat \<Rightarrow> nat \<Rightarrow> byte list" where
  "nat_le 0 x = []"
| "nat_le (Suc n) x = word_of_nat x # nat_le n (x div 256)"

primrec le_nat :: "byte list \<Rightarrow> nat" where
  "le_nat [] = 0"
| "le_nat (b # bs) = unat b + 256 * le_nat bs"

lemma length_nat_le [simp, bytes_simps]: "length (nat_le n x) = n"
  by (induction n arbitrary: x) auto

lemma le_nat_bound: "le_nat bs < 256 ^ length bs"
proof (induction bs)
  case Nil
  then show ?case by simp
next
  case (Cons b bs)
  have "unat b < 256" using unsigned_less [of b, where ?'a = nat] by simp
  with Cons.IH show ?case by simp
qed

lemma le_nat_nat_le [bytes_simps]: "le_nat (nat_le n x) = x mod 256 ^ n"
proof (induction n arbitrary: x)
  case 0
  then show ?case by simp
next
  case (Suc n)
  have "unat (word_of_nat x :: byte) = x mod 256" by (simp add: unat_of_nat)
  then show ?case using Suc.IH by (simp add: mod_mult2_eq)
qed

lemma nat_le_le_nat [bytes_simps]: "nat_le (length bs) (le_nat bs) = bs"
proof (induction bs)
  case Nil
  then show ?case by simp
next
  case (Cons b bs)
  have b: "unat b < 256" using unsigned_less [of b, where ?'a = nat] by simp
  have "word_of_nat (unat b + 256 * le_nat bs) = b"
  proof -
    have "unat (word_of_nat (unat b + 256 * le_nat bs) :: byte) = unat b"
      using b by (simp only: unat_of_nat) simp
    then show ?thesis by (simp add: word_unat_eq_iff)
  qed
  moreover have "(unat b + 256 * le_nat bs) div 256 = le_nat bs" using b by simp
  ultimately show ?case using Cons.IH by simp
qed

definition to_bytes :: "u64 \<Rightarrow> byte list" where
  "to_bytes w = nat_le 8 (unat w)"

definition of_bytes :: "byte list \<Rightarrow> u64" where
  "of_bytes bs = word_of_nat (le_nat bs)"

lemma length_to_bytes [simp, bytes_simps]: "length (to_bytes w) = 8"
  by (simp add: to_bytes_def)

lemma of_bytes_to_bytes [simp, bytes_simps]: "of_bytes (to_bytes w) = w"
proof -
  have "unat w < 256 ^ 8" using unsigned_less [of w, where ?'a = nat] by simp
  then show ?thesis by (simp add: of_bytes_def to_bytes_def le_nat_nat_le)
qed

lemma to_bytes_of_bytes [simp, bytes_simps]: "length bs = 8 \<Longrightarrow> to_bytes (of_bytes bs) = bs"
proof -
  assume l: "length bs = 8"
  then have "le_nat bs < 2 ^ 64" using le_nat_bound [of bs] by simp
  then have "unat (of_bytes bs) = le_nat bs"
    by (simp add: of_bytes_def unat_of_nat)
  with l show ?thesis using nat_le_le_nat [of bs] by (simp add: to_bytes_def)
qed

text \<open>
  \<open>memcpy(&x, p, n)\<close> and \<open>memcpy(p, &x, n)\<close> on a \<open>uint64_t x\<close>: the first overwrites the low
  \<open>n\<close> bytes and keeps the rest, the second reads the low \<open>n\<close> bytes.
\<close>

definition poke64 :: "u64 \<Rightarrow> byte list \<Rightarrow> u64" where
  "poke64 w bs = of_bytes (blit (to_bytes w) 0 bs)"

definition peek64 :: "u64 \<Rightarrow> nat \<Rightarrow> byte list" where
  "peek64 w n = take n (to_bytes w)"

lemma length_peek64 [simp, bytes_simps]: "n \<le> 8 \<Longrightarrow> length (peek64 w n) = n"
  by (simp add: peek64_def)

lemma peek64_poke64 [simp, bytes_simps]:
  "length bs \<le> 8 \<Longrightarrow> n = length bs \<Longrightarrow> peek64 (poke64 w bs) n = bs"
  by (simp add: peek64_def poke64_def) (simp add: blit_def)

lemma poke64_full [simp, bytes_simps]: "length bs = 8 \<Longrightarrow> poke64 w bs = of_bytes bs"
  by (simp add: poke64_def blit_def)

lemma of_bytes_peek64 [simp, bytes_simps]: "of_bytes (peek64 w 8) = w"
  by (simp add: peek64_def)

section \<open>Rounding\<close>

unbundle bit_operations_syntax

text \<open>\<open>x & ~(2^n - 1)\<close> clears the low \<open>n\<close> bits.\<close>

lemma unat_take_bit64: "unat (take_bit n (x :: u64)) = unat x mod 2 ^ n"
  by (metis take_bit_eq_mod unsigned_take_bit_eq)

lemma and_not_mask64: "(x :: u64) AND NOT (mask n) = x - take_bit n x"
proof -
  have "take_bit n x + (x AND NOT (mask n)) = take_bit n x OR (x AND NOT (mask n))"
    by (rule disjunctive_add_eq_or) (auto simp: bit_eq_iff bit_simps)
  also have "\<dots> = x" by (auto simp: bit_eq_iff bit_simps)
  finally show ?thesis by (simp add: algebra_simps)
qed

lemma unat_and_not_mask64: "unat ((x :: u64) AND NOT (mask n)) = unat x - unat x mod 2 ^ n"
proof -
  have "take_bit n x \<le> x" by (simp add: word_le_nat_alt unat_take_bit64)
  then show ?thesis by (simp add: and_not_mask64 unat_sub unat_take_bit64)
qed

lemma unat_add64: "unat x + unat (y :: u64) < 2 ^ 64 \<Longrightarrow> unat (x + y) = unat x + unat y"
  by (simp add: unat_word_ariths)

text \<open>\<open>round_up a x\<close> is the next multiple of \<open>a\<close>, on \<open>nat\<close>.\<close>

definition round_up :: "nat \<Rightarrow> nat \<Rightarrow> nat" where
  "round_up a x = (x + (a - 1)) div a * a"

lemma round_up_ge: "0 < a \<Longrightarrow> x \<le> round_up a x"
  using div_mult_mod_eq [of "x + (a - 1)" a] mod_less_divisor [of a "x + (a - 1)"]
  unfolding round_up_def by linarith

lemma round_up_less: "0 < a \<Longrightarrow> round_up a x < x + a"
  using div_mult_mod_eq [of "x + (a - 1)" a] unfolding round_up_def by linarith

lemma round_up_dvd [simp]: "a dvd round_up a x"
  by (simp add: round_up_def)

lemma round_up_id: "0 < a \<Longrightarrow> a dvd x \<Longrightarrow> round_up a x = x"
proof -
  assume a: "0 < a" and "a dvd x"
  then obtain k where k: "x = a * k" by (elim dvdE)
  have "(a * k + (a - 1)) div a = k + (a - 1) div a" using a by (intro div_mult_self4) simp
  also have "\<dots> = k" using a by simp
  finally show ?thesis by (simp only: round_up_def k mult.commute)
qed

lemma unat_round_up64:
  assumes "unat x + (2 ^ n - 1) < 2 ^ 64" "n \<le> 32"
  shows "unat ((x + (2 ^ n - 1)) AND NOT (2 ^ n - 1 :: u64)) = round_up (2 ^ n) (unat x)"
proof -
  have e: "(2 ^ n - 1 :: u64) = mask n" by (simp add: mask_eq_exp_minus_1)
  have m: "unat (2 ^ n - 1 :: u64) = 2 ^ n - 1"
  proof -
    have "(2 :: nat) ^ n \<le> 2 ^ 32" using assms(2) by (intro power_increasing) simp_all
    then have "unat (word_of_nat (2 ^ n) :: u64) = 2 ^ n" by (subst unat_of_nat) simp
    then have p: "unat (2 ^ n :: u64) = 2 ^ n" by simp
    then have "1 \<le> (2 ^ n :: u64)" by (simp add: word_le_nat_alt)
    then show ?thesis by (simp add: unat_sub p)
  qed
  have "unat (x + (2 ^ n - 1)) = unat x + (2 ^ n - 1)"
    using assms(1) m by (subst unat_add64) simp_all
  then show ?thesis
    by (simp add: e unat_and_not_mask64 round_up_def minus_mod_eq_div_mult)
qed

section \<open>The removal idiom\<close>

text \<open>\<open>a[i] = a[--n]\<close>: the last element takes the place of the removed one.\<close>

definition swap_remove :: "'a list \<Rightarrow> nat \<Rightarrow> 'a list" where
  "swap_remove xs i = take (length xs - 1) (xs[i := xs ! (length xs - 1)])"

lemma length_swap_remove [simp]: "length (swap_remove xs i) = length xs - 1"
  by (simp add: swap_remove_def)

lemma mset_swap_remove:
  assumes "i < length xs"
  shows "mset (swap_remove xs i) = mset xs - {#xs ! i#}"
proof -
  from assms have ne: "xs \<noteq> []" by auto
  define ys where "ys = xs[i := last xs]"
  have l: "last ys = last xs"
    using assms ne by (simp add: ys_def last_conv_nth nth_list_update)
  have "mset ys = add_mset (last xs) (mset xs - {#xs ! i#})"
    using assms by (simp add: ys_def mset_update)
  moreover have "ys = butlast ys @ [last ys]"
    using ne by (simp add: ys_def)
  then have "mset ys = add_mset (last xs) (mset (butlast ys))"
    using l by (metis add_mset_add_single mset_append mset_single_iff mset.simps(1,2))
  moreover have "swap_remove xs i = butlast ys"
    using ne by (simp add: swap_remove_def ys_def last_conv_nth butlast_conv_take)
  ultimately show ?thesis by simp
qed

lemma distinct_swap_remove: "i < length xs \<Longrightarrow> distinct xs \<Longrightarrow> distinct (swap_remove xs i)"
  using mset_swap_remove [of i xs]
  by (metis distinct_remove1 mset_eq_imp_distinct_iff mset_remove1)

lemma set_swap_remove:
  "i < length xs \<Longrightarrow> distinct xs \<Longrightarrow> set (swap_remove xs i) = set xs - {xs ! i}"
  using mset_swap_remove [of i xs]
  by (metis mset_eq_setD mset_remove1 set_remove1_eq)

lemma map_swap_remove: "map f (swap_remove xs i) = swap_remove (map f xs) i"
proof (cases "xs = []")
  case False
  then have "f (xs ! (length xs - 1)) = map f xs ! (length xs - 1)" by simp
  then show ?thesis by (simp add: swap_remove_def take_map [symmetric] map_update)
qed (simp add: swap_remove_def)

section \<open>First position of a match\<close>

text \<open>The scan \<open>for (i = 0; i < n; i++) if (P(a[i])) ...\<close>.\<close>

primrec scan_from :: "('a \<Rightarrow> bool) \<Rightarrow> nat \<Rightarrow> 'a list \<Rightarrow> nat option" where
  "scan_from P i [] = None"
| "scan_from P i (x # xs) = (if P x then Some i else scan_from P (Suc i) xs)"

lemma scan_from_None: "scan_from P i xs = None \<longleftrightarrow> (\<forall>x\<in>set xs. \<not> P x)"
  by (induction xs arbitrary: i) auto

lemma scan_from_Some:
  "scan_from P k xs = Some i \<Longrightarrow>
     k \<le> i \<and> i - k < length xs \<and> P (xs ! (i - k)) \<and> (\<forall>j < i - k. \<not> P (xs ! j))"
proof (induction xs arbitrary: k)
  case Nil
  then show ?case by simp
next
  case (Cons x xs)
  show ?case
  proof (cases "P x")
    case True
    with Cons.prems show ?thesis by simp
  next
    case False
    with Cons.prems have "scan_from P (Suc k) xs = Some i" by simp
    then have ih: "Suc k \<le> i \<and> i - Suc k < length xs \<and> P (xs ! (i - Suc k)) \<and>
        (\<forall>j < i - Suc k. \<not> P (xs ! j))" by (rule Cons.IH)
    then have e: "i - k = Suc (i - Suc k)" by arith
    with ih False show ?thesis by (auto simp: less_Suc_eq_0_disj)
  qed
qed

lemma scan_0_Some:
  "scan_from P 0 xs = Some i \<Longrightarrow> i < length xs \<and> P (xs ! i) \<and> (\<forall>j < i. \<not> P (xs ! j))"
  using scan_from_Some [of P 0 xs i] by simp

section \<open>Outcomes of host operations\<close>

text \<open>
  A host operation returns, aborts the process (a failed \<open>assert\<close> or \<open>abort()\<close>; the build does
  not define \<open>NDEBUG\<close>, so asserts are live; also undefined behaviour and a fatal signal), or blocks for ever on a wait that nothing ends.
\<close>

datatype 'a outcome = Returns 'a | Aborts | Blocks

primrec and_then :: "'a outcome \<Rightarrow> ('a \<Rightarrow> 'b outcome) \<Rightarrow> 'b outcome" where
  "and_then (Returns x) f = f x"
| "and_then Aborts f = Aborts"
| "and_then Blocks f = Blocks"

lemma and_then_Returns [simp]: "and_then m f = Returns y \<longleftrightarrow> (\<exists>x. m = Returns x \<and> f x = Returns y)"
  by (cases m) auto

lemma and_then_cong [fundef_cong]:
  "m = m' \<Longrightarrow> (\<And>x. m' = Returns x \<Longrightarrow> f x = g x) \<Longrightarrow> and_then m f = and_then m' g"
  by (cases m') auto

text \<open>A \<open>None\<close> (a failed bounds check of an \<open>assert\<close>) stops the process.\<close>

definition checked :: "'a option \<Rightarrow> 'a outcome" where
  "checked m = (case m of None \<Rightarrow> Aborts | Some x \<Rightarrow> Returns x)"

lemma checked_simps [simp]: "checked (Some x) = Returns x" "checked None = Aborts"
  by (simp_all add: checked_def)

end
