(* ===== verification/FfiTypes.thy ===== *)
theory FfiTypes
  imports Prelude
begin

text \<open>
  The two type-code enumerations that describe a foreign call: \<open>PBoxType\<close> of the host
  (\<open>src/pbox/pbox.h\<close>) and \<open>DyfnType\<close> of the sandbox (\<open>src/dyfn/dyfn.h\<close>), their size tables
  (\<open>pbox_type_size\<close> in \<open>pbox.c\<close>, \<open>dyfn_type_size\<close> in \<open>dyfn.c\<close>) and the register class of a type.
  Type codes cross the process boundary as plain \<open>int\<close>s and are cast back, so both enumerations
  have a constructor for the values outside the enumerators, which take the \<open>default\<close> branches.
  Sizes are those of LP64 (\<open>sizeof(void*) = 8\<close>), the data model of both supported targets.
\<close>

datatype PBoxType =
    PBOX_TYPE_VOID | PBOX_TYPE_UINT8 | PBOX_TYPE_SINT8 | PBOX_TYPE_UINT16 | PBOX_TYPE_SINT16
  | PBOX_TYPE_UINT32 | PBOX_TYPE_SINT32 | PBOX_TYPE_UINT64 | PBOX_TYPE_SINT64
  | PBOX_TYPE_FLOAT | PBOX_TYPE_DOUBLE | PBOX_TYPE_POINTER
  | PBOX_TYPE_OTHER int

datatype DyfnType =
    DYFN_TYPE_VOID | DYFN_TYPE_UINT8 | DYFN_TYPE_SINT8 | DYFN_TYPE_UINT16 | DYFN_TYPE_SINT16
  | DYFN_TYPE_UINT32 | DYFN_TYPE_SINT32 | DYFN_TYPE_UINT64 | DYFN_TYPE_SINT64
  | DYFN_TYPE_FLOAT | DYFN_TYPE_DOUBLE | DYFN_TYPE_POINTER
  | DYFN_TYPE_OTHER int

datatype DyfnClass = DYFN_CLASS_INT | DYFN_CLASS_FLOAT | DYFN_CLASS_DOUBLE | DYFN_CLASS_VOID

text \<open>The enumerators' values, as the channel stores them.\<close>

fun pbox_type_code :: "PBoxType \<Rightarrow> int" where
  "pbox_type_code PBOX_TYPE_VOID = 0"
| "pbox_type_code PBOX_TYPE_UINT8 = 1"
| "pbox_type_code PBOX_TYPE_SINT8 = 2"
| "pbox_type_code PBOX_TYPE_UINT16 = 3"
| "pbox_type_code PBOX_TYPE_SINT16 = 4"
| "pbox_type_code PBOX_TYPE_UINT32 = 5"
| "pbox_type_code PBOX_TYPE_SINT32 = 6"
| "pbox_type_code PBOX_TYPE_UINT64 = 7"
| "pbox_type_code PBOX_TYPE_SINT64 = 8"
| "pbox_type_code PBOX_TYPE_FLOAT = 9"
| "pbox_type_code PBOX_TYPE_DOUBLE = 10"
| "pbox_type_code PBOX_TYPE_POINTER = 11"
| "pbox_type_code (PBOX_TYPE_OTHER k) = k"

text \<open>The cast \<open>(enum DyfnType) code\<close>.\<close>

definition dyfn_of_code :: "int \<Rightarrow> DyfnType" where
  "dyfn_of_code c =
     (if c = 0 then DYFN_TYPE_VOID
      else if c = 1 then DYFN_TYPE_UINT8
      else if c = 2 then DYFN_TYPE_SINT8
      else if c = 3 then DYFN_TYPE_UINT16
      else if c = 4 then DYFN_TYPE_SINT16
      else if c = 5 then DYFN_TYPE_UINT32
      else if c = 6 then DYFN_TYPE_SINT32
      else if c = 7 then DYFN_TYPE_UINT64
      else if c = 8 then DYFN_TYPE_SINT64
      else if c = 9 then DYFN_TYPE_FLOAT
      else if c = 10 then DYFN_TYPE_DOUBLE
      else if c = 11 then DYFN_TYPE_POINTER
      else DYFN_TYPE_OTHER c)"

text \<open>\<open>PBOX_TYPE_OTHER\<close> stands only for values that are not an enumerator's.\<close>

fun pbox_type_wf :: "PBoxType \<Rightarrow> bool" where
  "pbox_type_wf (PBOX_TYPE_OTHER k) \<longleftrightarrow> k < 0 \<or> 11 < k"
| "pbox_type_wf _ \<longleftrightarrow> True"

fun pbox_type_size :: "PBoxType \<Rightarrow> nat" where
  "pbox_type_size PBOX_TYPE_VOID = 0"
| "pbox_type_size PBOX_TYPE_UINT8 = 1"
| "pbox_type_size PBOX_TYPE_SINT8 = 1"
| "pbox_type_size PBOX_TYPE_UINT16 = 2"
| "pbox_type_size PBOX_TYPE_SINT16 = 2"
| "pbox_type_size PBOX_TYPE_UINT32 = 4"
| "pbox_type_size PBOX_TYPE_SINT32 = 4"
| "pbox_type_size PBOX_TYPE_UINT64 = 8"
| "pbox_type_size PBOX_TYPE_SINT64 = 8"
| "pbox_type_size PBOX_TYPE_FLOAT = 4"
| "pbox_type_size PBOX_TYPE_DOUBLE = 8"
| "pbox_type_size PBOX_TYPE_POINTER = 8"
| "pbox_type_size (PBOX_TYPE_OTHER _) = 0"

fun dyfn_classify :: "DyfnType \<Rightarrow> DyfnClass" where
  "dyfn_classify DYFN_TYPE_FLOAT = DYFN_CLASS_FLOAT"
| "dyfn_classify DYFN_TYPE_DOUBLE = DYFN_CLASS_DOUBLE"
| "dyfn_classify DYFN_TYPE_VOID = DYFN_CLASS_VOID"
| "dyfn_classify _ = DYFN_CLASS_INT"

fun dyfn_type_size :: "DyfnType \<Rightarrow> nat" where
  "dyfn_type_size DYFN_TYPE_VOID = 0"
| "dyfn_type_size DYFN_TYPE_UINT8 = 1"
| "dyfn_type_size DYFN_TYPE_SINT8 = 1"
| "dyfn_type_size DYFN_TYPE_UINT16 = 2"
| "dyfn_type_size DYFN_TYPE_SINT16 = 2"
| "dyfn_type_size DYFN_TYPE_UINT32 = 4"
| "dyfn_type_size DYFN_TYPE_SINT32 = 4"
| "dyfn_type_size DYFN_TYPE_UINT64 = 8"
| "dyfn_type_size DYFN_TYPE_SINT64 = 8"
| "dyfn_type_size DYFN_TYPE_FLOAT = 4"
| "dyfn_type_size DYFN_TYPE_DOUBLE = 8"
| "dyfn_type_size DYFN_TYPE_POINTER = 8"
| "dyfn_type_size (DYFN_TYPE_OTHER _) = 0"

text \<open>The type the sandbox sees for a type the host sent.\<close>

abbreviation sent_type :: "PBoxType \<Rightarrow> DyfnType" where
  "sent_type t \<equiv> dyfn_of_code (pbox_type_code t)"

lemma pbox_type_size_le_8: "pbox_type_size t \<le> 8"
  by (cases t) auto

lemma dyfn_type_size_le_8: "dyfn_type_size t \<le> 8"
  by (cases t) auto

lemma sent_type_size [simp]: "pbox_type_wf t \<Longrightarrow> dyfn_type_size (sent_type t) = pbox_type_size t"
  by (cases t) (auto simp: dyfn_of_code_def)

lemma pbox_type_code_inj:
  "pbox_type_wf t \<Longrightarrow> pbox_type_wf u \<Longrightarrow> pbox_type_code t = pbox_type_code u \<Longrightarrow> t = u"
  by (cases t; cases u) auto

text \<open>The class table: which types travel in the floating-point register file.\<close>

definition is_float_type :: "DyfnType \<Rightarrow> bool" where
  "is_float_type t \<longleftrightarrow> dyfn_classify t = DYFN_CLASS_FLOAT \<or> dyfn_classify t = DYFN_CLASS_DOUBLE"

lemma is_float_type_iff: "is_float_type t \<longleftrightarrow> t = DYFN_TYPE_FLOAT \<or> t = DYFN_TYPE_DOUBLE"
  by (cases t) (auto simp: is_float_type_def)

lemma sum_pbox_sizes: "sum_list (map pbox_type_size ts) \<le> 8 * length ts"
  by (induction ts) (auto intro: add_mono pbox_type_size_le_8)

lemma sum_dyfn_sizes: "sum_list (map dyfn_type_size ts) \<le> 8 * length ts"
  by (induction ts) (auto intro: add_mono dyfn_type_size_le_8)

end
