(* ===== verification/Dyfn.thy ===== *)
theory Dyfn
  imports FfiTypes
begin

text \<open>
  The dynamic-call layer \<open>src/dyfn/dyfn.c\<close>: \<open>dyfn_prep_call\<close> distributes the arguments over the
  integer registers, the floating-point registers and the stack array of \<open>DyfnCallArgs\<close>,
  \<open>dyfn_store_result\<close> picks the result register, \<open>dyfn_closure_alloc\<close> and
  \<open>dyfn_closure_free_all\<close> manage the thread's closure slots. The calling convention itself is
  stated apart (\<open>abi_loc\<close>: where the \<open>i\<close>-th argument of a signature lives) and
  \<open>dyfn_prep_call\<close> is proved to implement it without ever leaving its arrays.
  An out-of-bounds array access is \<open>None\<close>. The number of integer registers is the only
  difference between the two targets, so the target is a parameter.
\<close>

section \<open>Call frames\<close>

datatype arch = X86_64 | AArch64

fun dyfn_int_arg_regs :: "arch \<Rightarrow> nat" where
  "dyfn_int_arg_regs X86_64 = 6"
| "dyfn_int_arg_regs AArch64 = 8"

abbreviation (input) DYFN_FLOAT_ARG_REGS :: nat where "DYFN_FLOAT_ARG_REGS \<equiv> 8"
abbreviation (input) DYFN_MAX_ARGS :: nat where "DYFN_MAX_ARGS \<equiv> 10"
abbreviation (input) DYFN_MAX_CLOSURES :: nat where "DYFN_MAX_CLOSURES \<equiv> 64"

record DyfnCallArgs =
  int_regs :: "u64 list"
  float_regs :: "u64 list"
  int_count :: nat
  float_count :: nat
  stack_args :: "u64 list"
  stack_count :: nat
  func :: u64
  ret_class :: DyfnClass

text \<open>\<open>float_val\<close> is a \<open>double\<close> object; only its 8 bytes matter here.\<close>

record DyfnCallResult =
  int_val :: u64
  float_val :: u64

text \<open>\<open>memcpy(&regs[k], v, size)\<close> for an array of \<open>uint64_t\<close>.\<close>

definition put_reg :: "u64 list \<Rightarrow> nat \<Rightarrow> byte list \<Rightarrow> nat \<Rightarrow> u64 list option" where
  "put_reg regs k v sz =
     (if k < length regs \<and> sz \<le> length v \<and> sz \<le> 8
      then Some (regs[k := poke64 (regs ! k) (take sz v)]) else None)"

definition dyfn_prep_arg :: "arch \<Rightarrow> DyfnType \<Rightarrow> byte list \<Rightarrow> DyfnCallArgs \<Rightarrow> DyfnCallArgs option" where
  "dyfn_prep_arg a t v call =
     (let cls = dyfn_classify t; sz = dyfn_type_size t in
      if cls = DYFN_CLASS_FLOAT \<or> cls = DYFN_CLASS_DOUBLE then
        (if float_count call < DYFN_FLOAT_ARG_REGS
         then map_option (\<lambda>r. call\<lparr>float_regs := r, float_count := float_count call + 1\<rparr>)
                (put_reg (float_regs call) (float_count call) v sz)
         else map_option (\<lambda>r. call\<lparr>stack_args := r, stack_count := stack_count call + 1\<rparr>)
                (put_reg (stack_args call) (stack_count call) v sz))
      else
        (if int_count call < dyfn_int_arg_regs a
         then map_option (\<lambda>r. call\<lparr>int_regs := r, int_count := int_count call + 1\<rparr>)
                (put_reg (int_regs call) (int_count call) v sz)
         else map_option (\<lambda>r. call\<lparr>stack_args := r, stack_count := stack_count call + 1\<rparr>)
                (put_reg (stack_args call) (stack_count call) v sz)))"

fun dyfn_prep_loop :: "arch \<Rightarrow> (DyfnType \<times> byte list) list \<Rightarrow> DyfnCallArgs \<Rightarrow> DyfnCallArgs option" where
  "dyfn_prep_loop a [] call = Some call"
| "dyfn_prep_loop a ((t, v) # xs) call =
     (case dyfn_prep_arg a t v call of None \<Rightarrow> None | Some call' \<Rightarrow> dyfn_prep_loop a xs call')"

definition zeroed_call :: DyfnCallArgs where
  "zeroed_call = \<lparr>int_regs = replicate 8 0, float_regs = replicate 8 0, int_count = 0,
     float_count = 0, stack_args = replicate 4 0, stack_count = 0, func = 0,
     ret_class = DYFN_CLASS_INT\<rparr>"

text \<open>
  \<open>arg_values ! i\<close> is what lies at the pointer \<open>arg_values[i]\<close>: the bytes from there to the end
  of the object it points into. A negative \<open>nargs\<close> runs the loop zero times.
\<close>

definition dyfn_prep_call ::
  "arch \<Rightarrow> u64 \<Rightarrow> DyfnType \<Rightarrow> int \<Rightarrow> DyfnType list \<Rightarrow> byte list list \<Rightarrow> DyfnCallArgs option" where
  "dyfn_prep_call a f ret_type nargs arg_types arg_values =
     (if nat nargs \<le> length arg_types \<and> nat nargs \<le> length arg_values
      then dyfn_prep_loop a (zip (take (nat nargs) arg_types) (take (nat nargs) arg_values))
             (zeroed_call\<lparr>func := f, ret_class := dyfn_classify ret_type\<rparr>)
      else None)"

definition dyfn_store_result :: "DyfnCallResult \<Rightarrow> DyfnType \<Rightarrow> byte list \<Rightarrow> byte list option" where
  "dyfn_store_result result ret_type out =
     (let cls = dyfn_classify ret_type; sz = dyfn_type_size ret_type in
      if cls = DYFN_CLASS_FLOAT \<or> cls = DYFN_CLASS_DOUBLE
      then memcpy_to out 0 (to_bytes (float_val result)) sz
      else if cls \<noteq> DYFN_CLASS_VOID
      then memcpy_to out 0 (to_bytes (int_val result)) sz
      else Some out)"

section \<open>The calling convention\<close>

text \<open>
  The convention of both targets: the first \<open>dyfn_int_arg_regs\<close> integer arguments and the first
  eight floating-point arguments travel in registers, every other argument takes the next 8-byte
  stack slot in declaration order.
\<close>

datatype arg_loc = IntReg nat | FloatReg nat | StackSlot nat

definition floats_before :: "DyfnType list \<Rightarrow> nat \<Rightarrow> nat" where
  "floats_before ts i = length (filter is_float_type (take i ts))"

definition ints_before :: "DyfnType list \<Rightarrow> nat \<Rightarrow> nat" where
  "ints_before ts i = length (filter (\<lambda>t. \<not> is_float_type t) (take i ts))"

definition stack_before :: "arch \<Rightarrow> DyfnType list \<Rightarrow> nat \<Rightarrow> nat" where
  "stack_before a ts i =
     (ints_before ts i - dyfn_int_arg_regs a) + (floats_before ts i - DYFN_FLOAT_ARG_REGS)"

definition abi_loc :: "arch \<Rightarrow> DyfnType list \<Rightarrow> nat \<Rightarrow> arg_loc" where
  "abi_loc a ts i =
     (if is_float_type (ts ! i)
      then if floats_before ts i < DYFN_FLOAT_ARG_REGS then FloatReg (floats_before ts i)
           else StackSlot (stack_before a ts i)
      else if ints_before ts i < dyfn_int_arg_regs a then IntReg (ints_before ts i)
           else StackSlot (stack_before a ts i))"

text \<open>What a register file and a stack array hold at a location.\<close>

fun loc_value :: "u64 list \<Rightarrow> u64 list \<Rightarrow> u64 list \<Rightarrow> arg_loc \<Rightarrow> u64" where
  "loc_value ir fr st (IntReg k) = ir ! k"
| "loc_value ir fr st (FloatReg k) = fr ! k"
| "loc_value ir fr st (StackSlot k) = st ! k"

abbreviation call_loc :: "DyfnCallArgs \<Rightarrow> arg_loc \<Rightarrow> u64" where
  "call_loc call \<equiv> loc_value (int_regs call) (float_regs call) (stack_args call)"

text \<open>The slots of a convention that are still free when \<open>i\<close> arguments have been placed.\<close>

fun loc_used :: "nat \<Rightarrow> nat \<Rightarrow> nat \<Rightarrow> arg_loc \<Rightarrow> bool" where
  "loc_used ni nf ns (IntReg k) \<longleftrightarrow> k < ni"
| "loc_used ni nf ns (FloatReg k) \<longleftrightarrow> k < nf"
| "loc_used ni nf ns (StackSlot k) \<longleftrightarrow> k < ns"

lemma before_0 [simp]: "floats_before ts 0 = 0" "ints_before ts 0 = 0" "stack_before a ts 0 = 0"
  by (simp_all add: floats_before_def ints_before_def stack_before_def)

lemma before_append [simp]:
  "i \<le> length ts \<Longrightarrow> floats_before (ts @ us) i = floats_before ts i"
  "i \<le> length ts \<Longrightarrow> ints_before (ts @ us) i = ints_before ts i"
  "i \<le> length ts \<Longrightarrow> stack_before a (ts @ us) i = stack_before a ts i"
  by (simp_all add: floats_before_def ints_before_def stack_before_def)

lemma floats_before_snoc:
  "floats_before (ts @ [t]) (Suc (length ts)) =
     floats_before ts (length ts) + (if is_float_type t then 1 else 0)"
  by (simp add: floats_before_def)

lemma ints_before_snoc:
  "ints_before (ts @ [t]) (Suc (length ts)) =
     ints_before ts (length ts) + (if is_float_type t then 0 else 1)"
  by (simp add: ints_before_def)

lemma abi_loc_append: "i < length ts \<Longrightarrow> abi_loc a (ts @ us) i = abi_loc a ts i"
  by (simp add: abi_loc_def nth_append)

lemma before_sum: "i \<le> length ts \<Longrightarrow> ints_before ts i + floats_before ts i = i"
proof -
  assume i: "i \<le> length ts"
  have "length (filter is_float_type (take i ts)) +
      length (filter (\<lambda>t. \<not> is_float_type t) (take i ts)) = length (take i ts)"
    by (rule sum_length_filter_compl)
  with i show ?thesis by (simp add: floats_before_def ints_before_def)
qed

lemma before_strict:
  assumes "i < j" "j \<le> length ts"
  shows "is_float_type (ts ! i) \<Longrightarrow> floats_before ts i < floats_before ts j"
    and "\<not> is_float_type (ts ! i) \<Longrightarrow> ints_before ts i < ints_before ts j"
    and "floats_before ts i \<le> floats_before ts j"
    and "ints_before ts i \<le> ints_before ts j"
proof -
  have "take j ts = take i ts @ ts ! i # take (j - Suc i) (drop (Suc i) ts)"
    using assms
    by (metis Cons_nth_drop_Suc add_diff_inverse_nat leD less_imp_le_nat less_le_trans
        take_Suc_Cons take_add Suc_diff_Suc)
  then show "is_float_type (ts ! i) \<Longrightarrow> floats_before ts i < floats_before ts j"
    and "\<not> is_float_type (ts ! i) \<Longrightarrow> ints_before ts i < ints_before ts j"
    and "floats_before ts i \<le> floats_before ts j"
    and "ints_before ts i \<le> ints_before ts j"
    by (simp_all add: floats_before_def ints_before_def)
qed

lemma abi_loc_used:
  assumes "i < length ts"
  shows "loc_used (min (ints_before ts (length ts)) (dyfn_int_arg_regs a))
           (min (floats_before ts (length ts)) 8) (stack_before a ts (length ts)) (abi_loc a ts i)"
proof (cases "is_float_type (ts ! i)")
  case True
  then show ?thesis
    using before_strict(1,4) [OF assms order_refl] by (auto simp: abi_loc_def stack_before_def)
next
  case False
  then show ?thesis
    using before_strict(2,3) [OF assms order_refl] by (auto simp: abi_loc_def stack_before_def)
qed

lemma stack_before_bound: "i \<le> length ts \<Longrightarrow> i \<le> DYFN_MAX_ARGS \<Longrightarrow> stack_before a ts i \<le> 4"
  using before_sum [of i ts] by (cases a) (simp_all add: stack_before_def)

section \<open>Preparing a call\<close>

lemma dyfn_prep_loop_append:
  "dyfn_prep_loop a (xs @ ys) call = Option.bind (dyfn_prep_loop a xs call) (dyfn_prep_loop a ys)"
  by (induction xs arbitrary: call) (auto split: option.splits)

text \<open>
  What has been established once the arguments \<open>xs\<close> are placed: the counters are those of the
  convention, every argument is zero-extended in its location, and everything else is still zero.
\<close>

definition prep_inv :: "arch \<Rightarrow> u64 \<Rightarrow> DyfnClass \<Rightarrow> (DyfnType \<times> byte list) list \<Rightarrow> DyfnCallArgs \<Rightarrow> bool" where
  "prep_inv a f rc xs call \<longleftrightarrow>
     (let ts = map fst xs; n = length xs in
      length (int_regs call) = 8 \<and> length (float_regs call) = 8 \<and> length (stack_args call) = 4 \<and>
      int_count call = min (ints_before ts n) (dyfn_int_arg_regs a) \<and>
      float_count call = min (floats_before ts n) 8 \<and>
      stack_count call = stack_before a ts n \<and> func call = f \<and> ret_class call = rc \<and>
      (\<forall>k<8. int_count call \<le> k \<longrightarrow> int_regs call ! k = 0) \<and>
      (\<forall>k<8. float_count call \<le> k \<longrightarrow> float_regs call ! k = 0) \<and>
      (\<forall>k<4. stack_count call \<le> k \<longrightarrow> stack_args call ! k = 0) \<and>
      (\<forall>i<n. call_loc call (abi_loc a ts i) =
         poke64 0 (take (dyfn_type_size (fst (xs ! i))) (snd (xs ! i)))))"

lemma prep_inv_value:
  "prep_inv a f rc xs call \<Longrightarrow> i < length xs \<Longrightarrow>
     call_loc call (abi_loc a (map fst xs) i) = poke64 0 (take (dyfn_type_size (fst (xs ! i))) (snd (xs ! i)))"
  by (simp add: prep_inv_def Let_def)

lemma prep_inv_init:
  "prep_inv a f rc [] (zeroed_call\<lparr>func := f, ret_class := rc\<rparr>)"
  by (simp add: prep_inv_def zeroed_call_def)

text \<open>Under the invariant, one step writes the zero-extended value at the convention's next location.\<close>

definition place :: "arg_loc \<Rightarrow> u64 \<Rightarrow> DyfnCallArgs \<Rightarrow> DyfnCallArgs" where
  "place l w call =
     (case l of
        IntReg k \<Rightarrow> call\<lparr>int_regs := (int_regs call)[k := w], int_count := int_count call + 1\<rparr>
      | FloatReg k \<Rightarrow> call\<lparr>float_regs := (float_regs call)[k := w], float_count := float_count call + 1\<rparr>
      | StackSlot k \<Rightarrow> call\<lparr>stack_args := (stack_args call)[k := w], stack_count := stack_count call + 1\<rparr>)"

lemma abi_loc_snoc:
  "abi_loc a (ts @ [t]) (length ts) =
     (if is_float_type t
      then if floats_before ts (length ts) < 8 then FloatReg (floats_before ts (length ts))
           else StackSlot (stack_before a ts (length ts))
      else if ints_before ts (length ts) < dyfn_int_arg_regs a then IntReg (ints_before ts (length ts))
           else StackSlot (stack_before a ts (length ts)))"
  by (simp add: abi_loc_def nth_append)

lemma dyfn_prep_arg_place:
  assumes inv: "prep_inv a f rc xs call" and step: "dyfn_prep_arg a t v call = Some call'"
  defines "ts \<equiv> map fst xs"
  shows "call' = place (abi_loc a (ts @ [t]) (length xs)) (poke64 0 (take (dyfn_type_size t) v)) call"
    and "stack_before a ts (length xs) < 4 \<or>
         abi_loc a (ts @ [t]) (length xs) \<noteq> StackSlot (stack_before a ts (length xs))"
proof -
  have loc: "abi_loc a (ts @ [t]) (length xs) =
     (if is_float_type t
      then if floats_before ts (length xs) < 8 then FloatReg (floats_before ts (length xs))
           else StackSlot (stack_before a ts (length xs))
      else if ints_before ts (length xs) < dyfn_int_arg_regs a then IntReg (ints_before ts (length xs))
           else StackSlot (stack_before a ts (length xs)))"
    using abi_loc_snoc [of a ts t] by (simp add: ts_def)
  have regs: "dyfn_int_arg_regs a \<le> 8" by (cases a) auto
  note defs = prep_inv_def Let_def dyfn_prep_arg_def place_def put_reg_def is_float_type_def
  from inv step regs
  show "call' = place (abi_loc a (ts @ [t]) (length xs)) (poke64 0 (take (dyfn_type_size t) v)) call"
    unfolding loc by (auto simp: defs ts_def split: if_splits)
  from inv step show "stack_before a ts (length xs) < 4 \<or>
         abi_loc a (ts @ [t]) (length xs) \<noteq> StackSlot (stack_before a ts (length xs))"
    unfolding loc by (auto simp: defs ts_def split: if_splits)
qed

lemma dyfn_prep_arg_Some:
  assumes inv: "prep_inv a f rc xs call" and len: "length xs < DYFN_MAX_ARGS"
    and v: "dyfn_type_size t \<le> length v"
  shows "\<exists>call'. dyfn_prep_arg a t v call = Some call'"
proof -
  let ?ts = "map fst xs" and ?n = "length xs"
  have b: "stack_before a (?ts @ [t]) (Suc ?n) \<le> 4"
    using stack_before_bound [of "Suc ?n" "?ts @ [t]" a] len by simp
  have regs: "dyfn_int_arg_regs a \<le> 8" by (cases a) auto
  have inv': "length (int_regs call) = 8" "length (float_regs call) = 8" "length (stack_args call) = 4"
    "int_count call = min (ints_before ?ts ?n) (dyfn_int_arg_regs a)"
    "float_count call = min (floats_before ?ts ?n) 8" "stack_count call = stack_before a ?ts ?n"
    using inv by (simp_all add: prep_inv_def Let_def)
  show ?thesis
  proof (cases "is_float_type t")
    case True
    then have "\<not> floats_before ?ts ?n < 8 \<Longrightarrow> stack_before a ?ts ?n < 4"
      using b floats_before_snoc [of ?ts t] ints_before_snoc [of ?ts t]
      by (simp add: stack_before_def)
    with True v inv' show ?thesis
      by (cases "floats_before ?ts ?n < 8")
        (auto simp: dyfn_prep_arg_def put_reg_def is_float_type_def Let_def dyfn_type_size_le_8)
  next
    case False
    then have "\<not> ints_before ?ts ?n < dyfn_int_arg_regs a \<Longrightarrow> stack_before a ?ts ?n < 4"
      using b floats_before_snoc [of ?ts t] ints_before_snoc [of ?ts t]
      by (simp add: stack_before_def)
    with False v inv' regs show ?thesis
      by (cases "ints_before ?ts ?n < dyfn_int_arg_regs a")
        (auto simp: dyfn_prep_arg_def put_reg_def is_float_type_def Let_def dyfn_type_size_le_8)
  qed
qed

lemma prep_inv_step:
  assumes inv: "prep_inv a f rc xs call" and step: "dyfn_prep_arg a t v call = Some call'"
  shows "prep_inv a f rc (xs @ [(t, v)]) call'"
proof -
  let ?ts = "map fst xs" and ?n = "length xs"
  note snoc = floats_before_snoc [of ?ts t] ints_before_snoc [of ?ts t]
  have used: "loc_used (min (ints_before ?ts ?n) (dyfn_int_arg_regs a)) (min (floats_before ?ts ?n) 8)
      (stack_before a ?ts ?n) (abi_loc a ?ts i)" if "i < ?n" for i
    using abi_loc_used [of i ?ts a] that by simp
  have old: "abi_loc a (?ts @ [t]) i = abi_loc a ?ts i" if "i < ?n" for i
    using that by (simp add: abi_loc_append)
  have regs: "dyfn_int_arg_regs a \<le> 8" by (cases a) auto
  note pl = dyfn_prep_arg_place [OF inv step]
  have loc: "abi_loc a (?ts @ [t]) (length xs) =
     (if is_float_type t
      then if floats_before ?ts ?n < 8 then FloatReg (floats_before ?ts ?n) else StackSlot (stack_before a ?ts ?n)
      else if ints_before ?ts ?n < dyfn_int_arg_regs a then IntReg (ints_before ?ts ?n)
           else StackSlot (stack_before a ?ts ?n))"
    using abi_loc_snoc [of a ?ts t] by simp
  have cnt: "int_count call = min (ints_before ?ts ?n) (dyfn_int_arg_regs a)" "float_count call = min (floats_before ?ts ?n) 8"
    "stack_count call = stack_before a ?ts ?n"
    using inv by (simp_all add: prep_inv_def Let_def)
  have keep: "call_loc (place (abi_loc a (?ts @ [t]) ?n) w call) (abi_loc a ?ts i) = call_loc call (abi_loc a ?ts i)"
    if "i < ?n" for i w
    using used [OF that] abi_loc_snoc [of a ?ts t]
    by (cases "abi_loc a ?ts i") (auto simp: place_def split: arg_loc.splits if_splits)
  have new: "call_loc (place (abi_loc a (?ts @ [t]) ?n) w call) (abi_loc a (?ts @ [t]) ?n) = w" for w
    using inv regs pl(2) abi_loc_snoc [of a ?ts t]
    by (auto simp: prep_inv_def Let_def place_def split: arg_loc.splits if_splits)
  have "\<forall>i<length (xs @ [(t, v)]). call_loc call' (abi_loc a (map fst (xs @ [(t, v)])) i) =
         poke64 0 (take (dyfn_type_size (fst ((xs @ [(t, v)]) ! i))) (snd ((xs @ [(t, v)]) ! i)))"
    using inv new keep pl(1) old
    by (auto simp: prep_inv_def Let_def less_Suc_eq nth_append)
  moreover have "length (int_regs call') = 8 \<and> length (float_regs call') = 8 \<and> length (stack_args call') = 4 \<and>
      func call' = f \<and> ret_class call' = rc"
    using inv pl(1) by (auto simp: prep_inv_def Let_def place_def split: arg_loc.splits)
  moreover have "int_count call' = min (ints_before (?ts @ [t]) (Suc ?n)) (dyfn_int_arg_regs a)"
    "float_count call' = min (floats_before (?ts @ [t]) (Suc ?n)) 8"
    "stack_count call' = stack_before a (?ts @ [t]) (Suc ?n)"
    using snoc by (auto simp: pl(1) loc place_def cnt stack_before_def)
  moreover have "\<forall>k<8. int_count call' \<le> k \<longrightarrow> int_regs call' ! k = 0"
    "\<forall>k<8. float_count call' \<le> k \<longrightarrow> float_regs call' ! k = 0"
    "\<forall>k<4. stack_count call' \<le> k \<longrightarrow> stack_args call' ! k = 0"
    using inv pl(1) abi_loc_snoc [of a ?ts t]
    by (auto simp: prep_inv_def Let_def place_def nth_list_update split: arg_loc.splits if_splits)
  ultimately show ?thesis
    by (simp add: prep_inv_def Let_def)
qed

lemma prep_loop_inv:
  assumes "dyfn_prep_loop a xs (zeroed_call\<lparr>func := f, ret_class := rc\<rparr>) = Some call"
  shows "prep_inv a f rc xs call"
  using assms
proof (induction xs arbitrary: call rule: rev_induct)
  case Nil
  then show ?case using prep_inv_init [of a f rc] by simp
next
  case (snoc x xs)
  obtain t v where x: "x = (t, v)" by (cases x)
  from snoc.prems obtain c where
    c: "dyfn_prep_loop a xs (zeroed_call\<lparr>func := f, ret_class := rc\<rparr>) = Some c"
    and st: "dyfn_prep_arg a t v c = Some call"
    by (auto simp: dyfn_prep_loop_append x bind_eq_Some_conv split: option.splits)
  from prep_inv_step [OF snoc.IH [OF c] st] show ?case by (simp add: x)
qed

lemma prep_loop_Some:
  assumes "length xs \<le> DYFN_MAX_ARGS" "\<forall>(t, v)\<in>set xs. dyfn_type_size t \<le> length v"
  shows "\<exists>call. dyfn_prep_loop a xs (zeroed_call\<lparr>func := f, ret_class := rc\<rparr>) = Some call"
  using assms
proof (induction xs rule: rev_induct)
  case Nil
  then show ?case by simp
next
  case (snoc x xs)
  obtain t v where x: "x = (t, v)" by (cases x)
  from snoc obtain c where
    c: "dyfn_prep_loop a xs (zeroed_call\<lparr>func := f, ret_class := rc\<rparr>) = Some c" by auto
  have "length xs < DYFN_MAX_ARGS" "dyfn_type_size t \<le> length v"
    using snoc.prems by (auto simp: x)
  from dyfn_prep_arg_Some [OF prep_loop_inv [OF c] this] c show ?case
    by (auto simp: dyfn_prep_loop_append x)
qed

text \<open>A signature and its argument objects: at most ten arguments, each object large enough.\<close>

definition args_ok :: "int \<Rightarrow> DyfnType list \<Rightarrow> byte list list \<Rightarrow> bool" where
  "args_ok nargs ts vs \<longleftrightarrow>
     nat nargs \<le> DYFN_MAX_ARGS \<and> nat nargs \<le> length ts \<and> nat nargs \<le> length vs \<and>
     (\<forall>i<nat nargs. dyfn_type_size (ts ! i) \<le> length (vs ! i))"

lemma dyfn_prep_call_inv:
  "dyfn_prep_call a f rt nargs ts vs = Some call \<Longrightarrow>
     prep_inv a f (dyfn_classify rt) (zip (take (nat nargs) ts) (take (nat nargs) vs)) call"
  by (auto simp: dyfn_prep_call_def intro: prep_loop_inv split: if_splits)

lemma dyfn_prep_call_total:
  assumes "args_ok nargs ts vs"
  shows "\<exists>call. dyfn_prep_call a f rt nargs ts vs = Some call"
proof -
  let ?xs = "zip (take (nat nargs) ts) (take (nat nargs) vs)"
  have "length ?xs \<le> DYFN_MAX_ARGS" using assms by (simp add: args_ok_def)
  moreover have "\<forall>(t, v)\<in>set ?xs. dyfn_type_size t \<le> length v"
    using assms by (auto simp: args_ok_def set_zip)
  ultimately show ?thesis
    using prep_loop_Some [of ?xs a "dyfn_classify rt" f] assms
    by (simp add: dyfn_prep_call_def args_ok_def)
qed

text \<open>Only the first \<open>dyfn_type_size\<close> bytes of an argument object matter.\<close>

lemma dyfn_prep_arg_take:
  "dyfn_type_size t \<le> length v \<Longrightarrow> dyfn_prep_arg a t (take (dyfn_type_size t) v) call = dyfn_prep_arg a t v call"
  by (simp add: dyfn_prep_arg_def put_reg_def Let_def min_def)

lemma dyfn_prep_loop_take:
  "\<forall>(t, v)\<in>set xs. dyfn_type_size t \<le> length v \<Longrightarrow>
     dyfn_prep_loop a (map (\<lambda>(t, v). (t, take (dyfn_type_size t) v)) xs) call = dyfn_prep_loop a xs call"
  by (induction xs arbitrary: call) (auto simp: dyfn_prep_arg_take split: option.splits)

lemma dyfn_prep_call_cong:
  assumes "args_ok n ts vs" "args_ok n ts' vs'"
    and "\<And>i. i < nat n \<Longrightarrow> ts ! i = ts' ! i"
    and "\<And>i. i < nat n \<Longrightarrow> take (dyfn_type_size (ts ! i)) (vs ! i) = take (dyfn_type_size (ts ! i)) (vs' ! i)"
  shows "dyfn_prep_call a f rt n ts vs = dyfn_prep_call a f rt n ts' vs'"
proof -
  let ?x = "zip (take (nat n) ts) (take (nat n) vs)" and ?y = "zip (take (nat n) ts') (take (nat n) vs')"
  have "map (\<lambda>(t, v). (t, take (dyfn_type_size t) v)) ?x = map (\<lambda>(t, v). (t, take (dyfn_type_size t) v)) ?y"
    using assms by (intro nth_equalityI) (auto simp: args_ok_def)
  moreover have "\<forall>(t, v)\<in>set ?x. dyfn_type_size t \<le> length v" "\<forall>(t, v)\<in>set ?y. dyfn_type_size t \<le> length v"
    using assms(1,2) by (auto simp: args_ok_def set_zip)
  ultimately have "dyfn_prep_loop a ?x c = dyfn_prep_loop a ?y c" for c
    using dyfn_prep_loop_take [of ?x a c] dyfn_prep_loop_take [of ?y a c] by simp
  then show ?thesis using assms(1,2) by (simp add: dyfn_prep_call_def args_ok_def)
qed

lemma to_bytes_poke64_0:
  "length bs \<le> 8 \<Longrightarrow> to_bytes (poke64 0 bs) = bs @ replicate (8 - length bs) 0"
proof -
  assume l: "length bs \<le> 8"
  have z: "nat_le n 0 = replicate n 0" for n
    by (induction n) auto
  show ?thesis
    using l by (simp add: poke64_def blit_def) (simp add: to_bytes_def z)
qed

lemma dyfn_prep_call_value:
  assumes call: "dyfn_prep_call a f rt nargs ts vs = Some call"
    and ok: "args_ok nargs ts vs" and i: "i < nat nargs"
  shows "to_bytes (call_loc call (abi_loc a (take (nat nargs) ts) i)) =
     take (dyfn_type_size (ts ! i)) (vs ! i) @ replicate (8 - dyfn_type_size (ts ! i)) 0"
proof -
  let ?n = "nat nargs"
  let ?xs = "zip (take ?n ts) (take ?n vs)"
  have len: "length ?xs = ?n" "map fst ?xs = take ?n ts" using ok by (simp_all add: args_ok_def)
  have "call_loc call (abi_loc a (map fst ?xs) i) =
      poke64 0 (take (dyfn_type_size (fst (?xs ! i))) (snd (?xs ! i)))"
    using i by (intro prep_inv_value [OF dyfn_prep_call_inv [OF call]]) (simp only: len(1))
  then have "call_loc call (abi_loc a (take ?n ts) i) = poke64 0 (take (dyfn_type_size (ts ! i)) (vs ! i))"
    using i len ok by (simp add: args_ok_def)
  moreover have "length (take (dyfn_type_size (ts ! i)) (vs ! i)) = dyfn_type_size (ts ! i)"
    using ok i by (auto simp: args_ok_def)
  ultimately show ?thesis by (simp add: to_bytes_poke64_0 dyfn_type_size_le_8)
qed

section \<open>Results\<close>

lemma dyfn_store_result_Some:
  assumes "8 \<le> length out"
  shows "\<exists>out'. dyfn_store_result r t out = Some out' \<and> length out' = length out \<and>
    drop (dyfn_type_size t) out' = drop (dyfn_type_size t) out \<and>
    take (dyfn_type_size t) out' =
      take (dyfn_type_size t) (to_bytes (if is_float_type t then float_val r else int_val r))"
proof -
  have le: "dyfn_type_size t \<le> length out" using assms dyfn_type_size_le_8 [of t] by linarith
  have "dyfn_classify t = DYFN_CLASS_VOID \<Longrightarrow> dyfn_type_size t = 0" by (cases t) auto
  then show ?thesis
    using le by (auto simp: dyfn_store_result_def memcpy_to_def is_float_type_def blit_def Let_def
        dyfn_type_size_le_8)
qed

section \<open>Closure slots\<close>

text \<open>
  \<open>dyfn_closure_info\<close> and \<open>dyfn_closure_count\<close> are thread-local: there is one table per sandbox
  thread. The addresses of the assembled stubs (\<open>dyfn_stub_table\<close>) are the argument \<open>stubs\<close>;
  stub \<open>i\<close> enters the common handler with index \<open>i\<close>.
\<close>

record DyfnClosureInfo =
  ci_callback_id :: int
  ci_nargs :: int
  ci_arg_types :: "DyfnType list"
  ci_ret_type :: DyfnType
  ci_active :: bool

record closure_table =
  closure_info :: "DyfnClosureInfo list"
  closure_count :: nat

definition zero_info :: DyfnClosureInfo where
  "zero_info = \<lparr>ci_callback_id = 0, ci_nargs = 0, ci_arg_types = replicate 10 DYFN_TYPE_VOID,
     ci_ret_type = DYFN_TYPE_VOID, ci_active = False\<rparr>"

definition fresh_table :: closure_table where
  "fresh_table = \<lparr>closure_info = replicate DYFN_MAX_CLOSURES zero_info, closure_count = 0\<rparr>"

definition closure_table_wf :: "closure_table \<Rightarrow> bool" where
  "closure_table_wf t \<longleftrightarrow>
     length (closure_info t) = DYFN_MAX_CLOSURES \<and> closure_count t \<le> DYFN_MAX_CLOSURES \<and>
     (\<forall>ci\<in>set (closure_info t). length (ci_arg_types ci) = DYFN_MAX_ARGS)"

definition dyfn_closure_alloc ::
  "(nat \<Rightarrow> u64) \<Rightarrow> int \<Rightarrow> DyfnType \<Rightarrow> int \<Rightarrow> DyfnType list \<Rightarrow> closure_table \<Rightarrow> (u64 \<times> closure_table) option" where
  "dyfn_closure_alloc stubs callback_id ret_type nargs arg_types tbl =
     (if closure_count tbl \<ge> DYFN_MAX_CLOSURES then Some (0, tbl)
      else
        let slot = closure_count tbl;
            info = closure_info tbl ! slot;
            n = nat nargs
        in if n \<le> length (ci_arg_types info) \<and> n \<le> length arg_types
           then Some (stubs slot,
             tbl\<lparr>closure_count := slot + 1,
                 closure_info := (closure_info tbl)[slot :=
                   info\<lparr>ci_callback_id := callback_id, ci_ret_type := ret_type, ci_nargs := nargs,
                        ci_arg_types := blit (ci_arg_types info) 0 (take n arg_types),
                        ci_active := True\<rparr>]\<rparr>)
           else None)"

definition dyfn_closure_free_all :: "closure_table \<Rightarrow> closure_table" where
  "dyfn_closure_free_all tbl = tbl\<lparr>closure_count := 0\<rparr>"

lemma fresh_table_wf [simp]: "closure_table_wf fresh_table"
  by (auto simp: closure_table_wf_def fresh_table_def zero_info_def)

lemma dyfn_closure_free_all_wf [simp]: "closure_table_wf t \<Longrightarrow> closure_table_wf (dyfn_closure_free_all t)"
  by (simp add: closure_table_wf_def dyfn_closure_free_all_def)

lemma dyfn_closure_alloc_wf:
  assumes "closure_table_wf t" "dyfn_closure_alloc stubs cid rt n ts t = Some (p, t')"
  shows "closure_table_wf t'"
  using assms
  by (fastforce simp: closure_table_wf_def dyfn_closure_alloc_def Let_def split: if_splits
      dest!: set_update_subset_insert [THEN subsetD])

section \<open>Properties\<close>

lemma abi_loc_distinct:
  assumes "i < j" "j < length ts"
  shows "abi_loc a ts i \<noteq> abi_loc a ts j"
proof -
  let ?us = "take j ts"
  have ts: "ts = ?us @ drop j ts" by simp
  have i: "abi_loc a ts i = abi_loc a ?us i"
    using assms by (subst ts, subst abi_loc_append) simp_all
  have b: "ints_before ts j = ints_before ?us (length ?us)" "floats_before ts j = floats_before ?us (length ?us)"
    "stack_before a ts j = stack_before a ?us (length ?us)"
    using assms by (simp_all add: ints_before_def floats_before_def stack_before_def)
  have "loc_used (min (ints_before ts j) (dyfn_int_arg_regs a)) (min (floats_before ts j) 8) (stack_before a ts j) (abi_loc a ts i)"
    unfolding i b using assms by (intro abi_loc_used) simp
  then show ?thesis by (cases "abi_loc a ts i") (auto simp: abi_loc_def [of a ts j] split: if_splits)
qed

text \<open>C22: \<open>dyfn_prep_call\<close> implements the calling convention. For every signature of at most ten arguments
  it succeeds (no register or stack array is ever overrun), every argument lies zero-extended in
  the location the convention assigns to it, no two arguments share a location, and everything
  else in the register files and the stack array is zero.\<close>

theorem dyfn_prep_call_abi:
  assumes "args_ok n ts vs"
  shows "\<exists>call. dyfn_prep_call a f rt n ts vs = Some call \<and> func call = f \<and> ret_class call = dyfn_classify rt \<and>
    (\<forall>i<nat n. to_bytes (call_loc call (abi_loc a (take (nat n) ts) i)) =
       take (dyfn_type_size (ts ! i)) (vs ! i) @ replicate (8 - dyfn_type_size (ts ! i)) 0) \<and>
    (\<forall>j<nat n. \<forall>i<j. abi_loc a (take (nat n) ts) i \<noteq> abi_loc a (take (nat n) ts) j) \<and>
    (\<forall>k<8. int_count call \<le> k \<longrightarrow> int_regs call ! k = 0) \<and>
    (\<forall>k<8. float_count call \<le> k \<longrightarrow> float_regs call ! k = 0) \<and>
    (\<forall>k<4. stack_count call \<le> k \<longrightarrow> stack_args call ! k = 0) \<and> stack_count call \<le> 4"
proof -
  obtain call where call: "dyfn_prep_call a f rt n ts vs = Some call" using dyfn_prep_call_total [OF assms] by blast
  have n: "nat n \<le> 10" "nat n \<le> length ts" "nat n \<le> length vs" using assms by (simp_all add: args_ok_def)
  have inv: "prep_inv a f (dyfn_classify rt) (zip (take (nat n) ts) (take (nat n) vs)) call"
    by (rule dyfn_prep_call_inv [OF call])
  have "stack_before a (take (nat n) ts) (nat n) \<le> 4" using n by (intro stack_before_bound) simp_all
  then have "stack_count call \<le> 4" using inv n by (simp add: prep_inv_def Let_def)
  moreover have "\<forall>j<nat n. \<forall>i<j. abi_loc a (take (nat n) ts) i \<noteq> abi_loc a (take (nat n) ts) j"
    using n by (intro allI impI abi_loc_distinct) simp_all
  moreover have "func call = f" "ret_class call = dyfn_classify rt"
    "\<forall>k<8. int_count call \<le> k \<longrightarrow> int_regs call ! k = 0"
    "\<forall>k<8. float_count call \<le> k \<longrightarrow> float_regs call ! k = 0"
    "\<forall>k<4. stack_count call \<le> k \<longrightarrow> stack_args call ! k = 0"
    using inv unfolding prep_inv_def Let_def by blast+
  moreover have "\<forall>i<nat n. to_bytes (call_loc call (abi_loc a (take (nat n) ts) i)) =
       take (dyfn_type_size (ts ! i)) (vs ! i) @ replicate (8 - dyfn_type_size (ts ! i)) 0"
    using dyfn_prep_call_value [OF call assms] by blast
  ultimately show ?thesis using call by blast
qed

theorem dyfn_prep_call_abi_witness:
  "\<exists>call. dyfn_prep_call X86_64 0x1000 DYFN_TYPE_VOID 7 (replicate 7 DYFN_TYPE_UINT8) (replicate 7 [9]) = Some call \<and>
     call_loc call (StackSlot 0) = 9"
proof -
  have ok: "args_ok 7 (replicate 7 DYFN_TYPE_UINT8) (replicate 7 [9])" by (simp add: args_ok_def)
  obtain call where c: "dyfn_prep_call X86_64 0x1000 DYFN_TYPE_VOID 7 (replicate 7 DYFN_TYPE_UINT8) (replicate 7 [9]) = Some call"
    and v: "\<forall>i<nat 7. to_bytes (call_loc call (abi_loc X86_64 (take (nat 7) (replicate 7 DYFN_TYPE_UINT8)) i)) =
       take (dyfn_type_size (replicate 7 DYFN_TYPE_UINT8 ! i)) (replicate 7 [9] ! i) @
         replicate (8 - dyfn_type_size (replicate 7 DYFN_TYPE_UINT8 ! i)) 0"
    using dyfn_prep_call_abi [OF ok, of X86_64 "0x1000" DYFN_TYPE_VOID] by blast
  have loc: "abi_loc X86_64 (replicate 7 DYFN_TYPE_UINT8) 6 = StackSlot 0"
    by (simp add: abi_loc_def is_float_type_iff ints_before_def floats_before_def stack_before_def)
  have "to_bytes (call_loc call (StackSlot 0)) = 9 # replicate 7 0"
    using v [rule_format, of 6] loc by simp
  then have "of_bytes (to_bytes (call_loc call (StackSlot 0))) = of_bytes (9 # replicate 7 0)" by (rule arg_cong)
  also have "replicate 7 (0 :: byte) = [0, 0, 0, 0, 0, 0, 0]" by (simp add: eval_nat_numeral)
  also have "of_bytes [9, 0, 0, 0, 0, 0, 0, 0] = 9" by (simp add: of_bytes_def)
  finally have "call_loc call (StackSlot 0) = 9" by simp
  then show ?thesis using c by blast
qed

text \<open>\<open>dyfn_store_result\<close> writes exactly the bytes of the returned type: the low bytes of the register
  the type is returned in, nothing for \<open>void\<close>, and it never touches the bytes behind them.\<close>

theorem dyfn_store_result_exact:
  assumes "8 \<le> length out"
  shows "\<exists>out'. dyfn_store_result r t out = Some out' \<and> length out' = length out \<and>
    take (dyfn_type_size t) out' = take (dyfn_type_size t) (to_bytes (if is_float_type t then float_val r else int_val r)) \<and>
    drop (dyfn_type_size t) out' = drop (dyfn_type_size t) out"
  using dyfn_store_result_Some [OF assms, of r t] by blast

theorem dyfn_store_result_exact_witness:
  "\<exists>out'. dyfn_store_result \<lparr>int_val = 0x1234, float_val = 0\<rparr> DYFN_TYPE_UINT16 (replicate 8 7) = Some out' \<and>
     drop 2 out' = replicate 6 7"
  using dyfn_store_result_exact [of "replicate 8 7" "\<lparr>int_val = 0x1234, float_val = 0\<rparr>" DYFN_TYPE_UINT16] by auto

end
