(* ===== verification/Channel.thy ===== *)
theory Channel
  imports Dyfn
begin

text \<open>
  The shared-memory channel \<open>struct PBoxChannel\<close> (\<open>src/pbox/pbox_internal.h\<close>) and the two ends of
  a call on it: the host packs the arguments (\<open>pbox_call\<close> in \<open>pbox.c\<close>), the sandbox unpacks them into
  a call frame (\<open>do_ffi_call\<close> in \<open>pbox_sandbox.c\<close>). The main fact is that the frame the sandbox
  builds is the one \<open>dyfn_prep_call\<close> would build from the caller's own argument objects.
\<close>

section \<open>The channel\<close>

abbreviation (input) PBOX_STATE_IDLE :: int where "PBOX_STATE_IDLE \<equiv> 0"
abbreviation (input) PBOX_STATE_REQUEST :: int where "PBOX_STATE_REQUEST \<equiv> 1"
abbreviation (input) PBOX_STATE_RESPONSE :: int where "PBOX_STATE_RESPONSE \<equiv> 2"
abbreviation (input) PBOX_STATE_EXIT :: int where "PBOX_STATE_EXIT \<equiv> 3"
abbreviation (input) PBOX_STATE_DEAD :: int where "PBOX_STATE_DEAD \<equiv> 4"
abbreviation (input) PBOX_STATE_CALLBACK :: int where "PBOX_STATE_CALLBACK \<equiv> 5"

abbreviation (input) PBOX_REQ_DLSYM :: int where "PBOX_REQ_DLSYM \<equiv> 1"
abbreviation (input) PBOX_REQ_CALL :: int where "PBOX_REQ_CALL \<equiv> 2"
abbreviation (input) PBOX_REQ_RECV_FD :: int where "PBOX_REQ_RECV_FD \<equiv> 3"
abbreviation (input) PBOX_REQ_SPAWN_WORKER :: int where "PBOX_REQ_SPAWN_WORKER \<equiv> 4"
abbreviation (input) PBOX_REQ_CREATE_CLOSURE :: int where "PBOX_REQ_CREATE_CLOSURE \<equiv> 5"

abbreviation (input) PBOX_MAX_ARGS :: nat where "PBOX_MAX_ARGS \<equiv> 10"
abbreviation (input) PBOX_MAX_SYMBOL_NAME :: nat where "PBOX_MAX_SYMBOL_NAME \<equiv> 256"
abbreviation (input) PBOX_ARG_STORAGE :: nat where "PBOX_ARG_STORAGE \<equiv> 1024"
abbreviation (input) PBOX_RESULT_STORAGE :: nat where "PBOX_RESULT_STORAGE \<equiv> 32"
abbreviation (input) PBOX_MEM_STORAGE :: nat where "PBOX_MEM_STORAGE \<equiv> 4096"

record PBoxChannel =
  ch_state :: int
  sandbox_channel_addr :: u64
  request_type :: int
  func_addr :: u64
  nargs :: int
  ret_type :: int
  arg_types :: "int list"
  args :: "u64 list"
  symbol_name :: "byte list"
  symbol_addr :: u64
  received_fd :: int
  worker_shm_fd :: int
  closure_callback_id :: int
  closure_nargs :: int
  closure_ret_type :: int
  closure_arg_types :: "int list"
  closure_addr :: u64
  callback_id :: int
  arg_storage :: "byte list"
  result_storage :: "byte list"
  mem_storage :: "byte list"

text \<open>A fresh shared mapping: \<open>ftruncate\<close> on a new \<open>memfd\<close> gives zeros.\<close>

definition zero_channel :: PBoxChannel where
  "zero_channel = \<lparr>ch_state = PBOX_STATE_IDLE, sandbox_channel_addr = 0, request_type = 0,
     func_addr = 0, nargs = 0, ret_type = 0, arg_types = replicate PBOX_MAX_ARGS 0,
     args = replicate PBOX_MAX_ARGS 0, symbol_name = replicate PBOX_MAX_SYMBOL_NAME 0,
     symbol_addr = 0, received_fd = 0, worker_shm_fd = 0, closure_callback_id = 0,
     closure_nargs = 0, closure_ret_type = 0, closure_arg_types = replicate PBOX_MAX_ARGS 0,
     closure_addr = 0, callback_id = 0, arg_storage = replicate PBOX_ARG_STORAGE 0,
     result_storage = replicate PBOX_RESULT_STORAGE 0, mem_storage = replicate PBOX_MEM_STORAGE 0\<rparr>"

text \<open>The arrays have their declared lengths.\<close>

definition channel_wf :: "PBoxChannel \<Rightarrow> bool" where
  "channel_wf ch \<longleftrightarrow>
     length (arg_types ch) = PBOX_MAX_ARGS \<and> length (args ch) = PBOX_MAX_ARGS \<and>
     length (symbol_name ch) = PBOX_MAX_SYMBOL_NAME \<and>
     length (closure_arg_types ch) = PBOX_MAX_ARGS \<and>
     length (arg_storage ch) = PBOX_ARG_STORAGE \<and>
     length (result_storage ch) = PBOX_RESULT_STORAGE \<and>
     length (mem_storage ch) = PBOX_MEM_STORAGE"

lemma zero_channel_wf [simp]: "channel_wf zero_channel"
  by (simp add: channel_wf_def zero_channel_def)

section \<open>Packing byte chunks\<close>

text \<open>
  Both directions (arguments of a call, arguments of a callback) store their arguments back to
  back in \<open>arg_storage\<close> and note each one's offset in \<open>args\<close>. This is that loop on chunks.
\<close>

fun pack_chunks :: "byte list list \<Rightarrow> nat \<Rightarrow> nat \<Rightarrow> u64 list \<Rightarrow> byte list \<Rightarrow> u64 list \<times> byte list" where
  "pack_chunks [] i off offs st = (offs, st)"
| "pack_chunks (c # cs) i off offs st =
     pack_chunks cs (Suc i) (off + length c) (offs[i := word_of_nat off]) (blit st off c)"

definition chunk_offset :: "byte list list \<Rightarrow> nat \<Rightarrow> nat" where
  "chunk_offset cs j = sum_list (map length (take j cs))"

lemma chunk_offset_simps [simp]:
  "chunk_offset cs 0 = 0"
  "chunk_offset (c # cs) (Suc j) = length c + chunk_offset cs j"
  by (simp_all add: chunk_offset_def)

lemma chunk_offset_le:
  "j < length cs \<Longrightarrow> chunk_offset cs j + length (cs ! j) \<le> sum_list (map length cs)"
proof (induction cs arbitrary: j)
  case Nil
  then show ?case by simp
next
  case (Cons c cs)
  then show ?case by (cases j) auto
qed

lemma pack_chunks_lengths:
  "off + sum_list (map length cs) \<le> length st \<Longrightarrow>
     length (fst (pack_chunks cs i off offs st)) = length offs \<and>
     length (snd (pack_chunks cs i off offs st)) = length st"
  by (induction cs arbitrary: i off offs st) auto

lemma pack_chunks_before:
  "off + sum_list (map length cs) \<le> length st \<Longrightarrow>
     (k < i \<longrightarrow> fst (pack_chunks cs i off offs st) ! k = offs ! k) \<and>
     (o1 + n \<le> off \<longrightarrow> bytes_at (snd (pack_chunks cs i off offs st)) o1 n = bytes_at st o1 n)"
proof (induction cs arbitrary: i off offs st)
  case Nil
  then show ?case by simp
next
  case (Cons c cs)
  then show ?case by (auto simp: bytes_at_blit_before)
qed

lemma pack_chunks_get:
  assumes "off + sum_list (map length cs) \<le> length st" "i + length cs \<le> length offs" "j < length cs"
  shows "fst (pack_chunks cs i off offs st) ! (i + j) = word_of_nat (off + chunk_offset cs j) \<and>
    bytes_at (snd (pack_chunks cs i off offs st)) (off + chunk_offset cs j) (length (cs ! j)) = cs ! j"
  using assms
proof (induction cs arbitrary: i off offs st j)
  case Nil
  then show ?case by simp
next
  case (Cons c cs)
  have len: "(off + length c) + sum_list (map length cs) \<le> length (blit st off c)"
    using Cons.prems(1) by simp
  show ?case
  proof (cases j)
    case 0
    with pack_chunks_before [OF len, of i "Suc i" "offs[i := word_of_nat off]" off "length c"]
      Cons.prems show ?thesis
      by (simp add: bytes_at_blit_same)
  next
    case (Suc j')
    have "Suc i + length cs \<le> length (offs[i := word_of_nat off])" "j' < length cs"
      using Cons.prems Suc by simp_all
    from Cons.IH [OF len this] show ?thesis
      by (simp add: Suc add.assoc)
  qed
qed

section \<open>The host packs a call\<close>

text \<open>The loop of \<open>pbox_call\<close>; \<open>None\<close> is the failed \<open>assert\<close> (or a write past \<open>args\<close>).\<close>

fun pbox_pack_loop :: "(PBoxType \<times> byte list) list \<Rightarrow> nat \<Rightarrow> nat \<Rightarrow> PBoxChannel \<Rightarrow> PBoxChannel option" where
  "pbox_pack_loop [] i offset ch = Some ch"
| "pbox_pack_loop ((t, v) # xs) i offset ch =
     (let sz = pbox_type_size t in
      if offset + sz \<le> PBOX_ARG_STORAGE then
        (case (store_at (arg_types ch) i (pbox_type_code t),
               store_at (args ch) i (word_of_nat offset),
               memcpy_to (arg_storage ch) offset v sz) of
           (Some ts, Some offs, Some st) \<Rightarrow>
             pbox_pack_loop xs (Suc i) (offset + sz)
               (ch\<lparr>arg_types := ts, args := offs, arg_storage := st\<rparr>)
         | _ \<Rightarrow> None)
      else None)"

definition pbox_pack_call ::
  "u64 \<Rightarrow> PBoxType \<Rightarrow> nat \<Rightarrow> PBoxType list \<Rightarrow> byte list list \<Rightarrow> PBoxChannel \<Rightarrow> PBoxChannel option" where
  "pbox_pack_call fn rt n ts vs ch =
     (if n \<le> PBOX_MAX_ARGS \<and> n \<le> length ts \<and> n \<le> length vs then
        pbox_pack_loop (zip (take n ts) (take n vs)) 0 0
          (ch\<lparr>request_type := PBOX_REQ_CALL, func_addr := fn, nargs := int n,
              ret_type := pbox_type_code rt\<rparr>)
      else None)"

definition pbox_args_ok :: "nat \<Rightarrow> PBoxType list \<Rightarrow> byte list list \<Rightarrow> bool" where
  "pbox_args_ok n ts vs \<longleftrightarrow>
     n \<le> PBOX_MAX_ARGS \<and> n \<le> length ts \<and> n \<le> length vs \<and>
     (\<forall>i<n. pbox_type_wf (ts ! i) \<and> pbox_type_size (ts ! i) \<le> length (vs ! i))"

definition arg_chunks :: "(PBoxType \<times> byte list) list \<Rightarrow> byte list list" where
  "arg_chunks xs = map (\<lambda>(t, v). take (pbox_type_size t) v) xs"

lemma pbox_pack_loop_chunks:
  assumes "channel_wf ch" "i + length xs \<le> PBOX_MAX_ARGS" "off \<le> 8 * i"
    "\<forall>(t, v)\<in>set xs. pbox_type_size t \<le> length v"
  shows "pbox_pack_loop xs i off ch =
    Some (ch\<lparr>arg_types := blit (arg_types ch) i (map (\<lambda>x. pbox_type_code (fst x)) xs),
             args := fst (pack_chunks (arg_chunks xs) i off (args ch) (arg_storage ch)),
             arg_storage := snd (pack_chunks (arg_chunks xs) i off (args ch) (arg_storage ch))\<rparr>)"
  using assms
proof (induction xs arbitrary: i off ch)
  case Nil
  then show ?case by (simp add: arg_chunks_def blit_def)
next
  case (Cons x xs)
  obtain t v where x: "x = (t, v)" by (cases x)
  let ?ch = "ch\<lparr>arg_types := (arg_types ch)[i := pbox_type_code t], args := (args ch)[i := word_of_nat off],
      arg_storage := blit (arg_storage ch) off (take (pbox_type_size t) v)\<rparr>"
  have "i \<le> 9" using Cons.prems(2) by simp
  then have "off + pbox_type_size t \<le> 80"
    using pbox_type_size_le_8 [of t] Cons.prems(3) by linarith
  then have sz: "off + pbox_type_size t \<le> 1024" "pbox_type_size t \<le> 8" "pbox_type_size t \<le> length v"
    using Cons.prems x by (simp_all add: pbox_type_size_le_8)
  have "length (arg_storage ch) = 1024" using Cons.prems(1) by (simp add: channel_wf_def)
  then have "length (blit (arg_storage ch) off (take (pbox_type_size t) v)) = 1024"
    using sz by (subst length_blit) simp_all
  then have wf: "channel_wf ?ch" using Cons.prems(1) by (simp add: channel_wf_def)
  have b: "blit (arg_types ch) i (pbox_type_code t # ys) = blit ((arg_types ch)[i := pbox_type_code t]) (Suc i) ys" for ys
    using Cons.prems by (simp add: blit_def channel_wf_def take_Suc_conv_app_nth)
  have "pbox_pack_loop (x # xs) i off ch = pbox_pack_loop xs (Suc i) (off + pbox_type_size t) ?ch"
    using Cons.prems by (simp add: sz x store_at_def memcpy_to_def channel_wf_def Let_def)
  also have "\<dots> = Some (?ch\<lparr>arg_types := blit (arg_types ?ch) (Suc i) (map (\<lambda>x. pbox_type_code (fst x)) xs),
             args := fst (pack_chunks (arg_chunks xs) (Suc i) (off + pbox_type_size t) (args ?ch) (arg_storage ?ch)),
             arg_storage := snd (pack_chunks (arg_chunks xs) (Suc i) (off + pbox_type_size t) (args ?ch) (arg_storage ?ch))\<rparr>)"
    by (rule Cons.IH [OF wf]) (use Cons.prems in \<open>auto intro: order_trans [OF add_mono [OF _ sz(2)]]\<close>)
  finally have r: "pbox_pack_loop (x # xs) i off ch = \<dots>" .
  show ?case
    unfolding r using sz(2,3) by (simp add: x arg_chunks_def b min_def)
qed

lemma arg_chunks_total:
  "\<forall>(t, v)\<in>set xs. pbox_type_size t \<le> length v \<Longrightarrow> sum_list (map length (arg_chunks xs)) \<le> 8 * length xs"
proof (induction xs)
  case Nil
  then show ?case by (simp add: arg_chunks_def)
next
  case (Cons x xs)
  obtain t v where x: "x = (t, v)" by (cases x)
  show ?case using Cons pbox_type_size_le_8 [of t] by (auto simp: x arg_chunks_def)
qed

text \<open>What the packed channel holds, argument by argument.\<close>

lemma pbox_pack_call_spec:
  assumes wf: "channel_wf ch" and ok: "pbox_args_ok n ts vs"
  obtains ch' where "pbox_pack_call fn rt n ts vs ch = Some ch'"
    and "channel_wf ch'"
    and "ch_state ch' = ch_state ch" "mem_storage ch' = mem_storage ch"
      "result_storage ch' = result_storage ch" "sandbox_channel_addr ch' = sandbox_channel_addr ch"
    and "request_type ch' = PBOX_REQ_CALL" "func_addr ch' = fn" "nargs ch' = int n"
      "ret_type ch' = pbox_type_code rt"
    and "\<And>i. i < n \<Longrightarrow> arg_types ch' ! i = pbox_type_code (ts ! i)"
    and "\<And>i. i < n \<Longrightarrow> unat (args ch' ! i) + pbox_type_size (ts ! i) \<le> 80"
    and "\<And>i. i < n \<Longrightarrow> bytes_at (arg_storage ch') (unat (args ch' ! i)) (pbox_type_size (ts ! i)) =
           take (pbox_type_size (ts ! i)) (vs ! i)"
proof -
  let ?xs = "zip (take n ts) (take n vs)"
  let ?ch = "ch\<lparr>request_type := PBOX_REQ_CALL, func_addr := fn, nargs := int n, ret_type := pbox_type_code rt\<rparr>"
  let ?p = "pack_chunks (arg_chunks ?xs) 0 0 (args ch) (arg_storage ch)"
  define ch' where "ch' = ?ch\<lparr>arg_types := blit (arg_types ch) 0 (map (\<lambda>x. pbox_type_code (fst x)) ?xs),
      args := fst ?p, arg_storage := snd ?p\<rparr>"
  have n: "n \<le> 10" "length ?xs = n" using ok by (auto simp: pbox_args_ok_def)
  have vals: "\<forall>(t, v)\<in>set ?xs. pbox_type_size t \<le> length v"
    using ok by (auto simp: pbox_args_ok_def set_zip)
  have tot: "sum_list (map length (arg_chunks ?xs)) \<le> 80"
    using arg_chunks_total [OF vals] n by linarith
  have "pbox_pack_loop ?xs 0 0 ?ch = Some ch'"
    using pbox_pack_loop_chunks [of ?ch 0 ?xs 0] wf n vals by (simp add: channel_wf_def ch'_def)
  then have res: "pbox_pack_call fn rt n ts vs ch = Some ch'"
    using ok by (simp add: pbox_pack_call_def pbox_args_ok_def)
  have wf': "channel_wf ch'"
    using wf n tot pack_chunks_lengths [of 0 "arg_chunks ?xs" "arg_storage ch" 0 "args ch"]
    by (simp add: channel_wf_def ch'_def)
  have ty: "arg_types ch' ! i = pbox_type_code (ts ! i)" if "i < n" for i
    using that n ok wf by (simp add: nth_blit_inside channel_wf_def pbox_args_ok_def ch'_def)
  have ac: "arg_chunks ?xs ! i = take (pbox_type_size (ts ! i)) (vs ! i)" if "i < n" for i
    using that ok by (simp add: arg_chunks_def pbox_args_ok_def)
  have lac: "length (arg_chunks ?xs ! i) = pbox_type_size (ts ! i)" if "i < n" for i
    using that ok ac [OF that] by (simp add: pbox_args_ok_def)
  have get: "unat (args ch' ! i) = chunk_offset (arg_chunks ?xs) i"
    "bytes_at (arg_storage ch') (chunk_offset (arg_chunks ?xs) i) (pbox_type_size (ts ! i)) =
       take (pbox_type_size (ts ! i)) (vs ! i)"
    "chunk_offset (arg_chunks ?xs) i + pbox_type_size (ts ! i) \<le> 80" if i: "i < n" for i
  proof -
    have l: "i < length (arg_chunks ?xs)" using i n by (simp add: arg_chunks_def)
    have b: "chunk_offset (arg_chunks ?xs) i + pbox_type_size (ts ! i) \<le> 80"
      using chunk_offset_le [OF l] lac [OF i] tot by simp
    then show "chunk_offset (arg_chunks ?xs) i + pbox_type_size (ts ! i) \<le> 80" .
    have "fst ?p ! i = word_of_nat (chunk_offset (arg_chunks ?xs) i) \<and>
        bytes_at (snd ?p) (chunk_offset (arg_chunks ?xs) i) (length (arg_chunks ?xs ! i)) = arg_chunks ?xs ! i"
      using pack_chunks_get [of 0 "arg_chunks ?xs" "arg_storage ch" 0 "args ch" i] l tot wf n
      by (simp add: channel_wf_def arg_chunks_def)
    with b lac [OF i] ac [OF i] show "unat (args ch' ! i) = chunk_offset (arg_chunks ?xs) i"
      "bytes_at (arg_storage ch') (chunk_offset (arg_chunks ?xs) i) (pbox_type_size (ts ! i)) =
         take (pbox_type_size (ts ! i)) (vs ! i)"
      by (simp_all add: unat_of_nat ch'_def)
  qed
  have fr: "ch_state ch' = ch_state ch" "mem_storage ch' = mem_storage ch"
      "result_storage ch' = result_storage ch" "sandbox_channel_addr ch' = sandbox_channel_addr ch"
      "request_type ch' = PBOX_REQ_CALL" "func_addr ch' = fn" "nargs ch' = int n"
      "ret_type ch' = pbox_type_code rt"
    by (simp_all add: ch'_def)
  show thesis
    by (rule that [of ch']) (simp_all add: res wf' fr ty get)
qed

section \<open>The sandbox unpacks it\<close>

text \<open>
  The first half of \<open>do_ffi_call\<close>: collect the argument pointers (each \<open>assert\<close>ed to start inside
  \<open>arg_storage\<close>; more than ten would overrun \<open>arg_values\<close>), then build the frame. An argument object is
  what is left of \<open>arg_storage\<close> behind its pointer: reading past it is undefined.
\<close>

definition ffi_arg_values :: "PBoxChannel \<Rightarrow> byte list list option" where
  "ffi_arg_values ch =
     (if nat (nargs ch) \<le> PBOX_MAX_ARGS \<and>
         (\<forall>i\<in>set [0..<nat (nargs ch)]. unat (args ch ! i) < PBOX_ARG_STORAGE)
      then Some (map (\<lambda>i. drop (unat (args ch ! i)) (arg_storage ch)) [0..<nat (nargs ch)])
      else None)"

definition do_ffi_prepare :: "arch \<Rightarrow> PBoxChannel \<Rightarrow> DyfnCallArgs option" where
  "do_ffi_prepare a ch =
     (case ffi_arg_values ch of
        None \<Rightarrow> None
      | Some vs \<Rightarrow> dyfn_prep_call a (func_addr ch) (dyfn_of_code (ret_type ch)) (nargs ch)
                   (map dyfn_of_code (arg_types ch)) vs)"

text \<open>The second half, once the called function has returned.\<close>

definition do_ffi_finish :: "DyfnCallResult \<Rightarrow> PBoxChannel \<Rightarrow> PBoxChannel option" where
  "do_ffi_finish r ch =
     map_option (\<lambda>st. ch\<lparr>result_storage := st\<rparr>)
       (dyfn_store_result r (dyfn_of_code (ret_type ch)) (result_storage ch))"

lemma do_ffi_prepare_packed:
  assumes wf: "channel_wf ch" and ok: "pbox_args_ok n ts vs"
    and pack: "pbox_pack_call fn rt n ts vs ch = Some ch'"
  shows "do_ffi_prepare a ch' = dyfn_prep_call a fn (sent_type rt) (int n) (map sent_type ts) vs"
proof -
  from pbox_pack_call_spec [OF wf ok, of fn rt] pack have
    wf': "channel_wf ch'" and hd: "func_addr ch' = fn" "nargs ch' = int n" "ret_type ch' = pbox_type_code rt"
    and ty: "\<And>i. i < n \<Longrightarrow> arg_types ch' ! i = pbox_type_code (ts ! i)"
    and off: "\<And>i. i < n \<Longrightarrow> unat (args ch' ! i) + pbox_type_size (ts ! i) \<le> 80"
    and val: "\<And>i. i < n \<Longrightarrow> bytes_at (arg_storage ch') (unat (args ch' ! i)) (pbox_type_size (ts ! i)) =
           take (pbox_type_size (ts ! i)) (vs ! i)"
    by (metis option.inject)+
  let ?vs = "map (\<lambda>i. drop (unat (args ch' ! i)) (arg_storage ch')) [0..<n]"
  have n: "n \<le> 10" using ok by (simp add: pbox_args_ok_def)
  have "\<forall>i\<in>set [0..<n]. unat (args ch' ! i) < 1024"
    using off by force
  then have "ffi_arg_values ch' = Some ?vs"
    using n by (simp add: ffi_arg_values_def hd)
  then have "do_ffi_prepare a ch' = dyfn_prep_call a fn (sent_type rt) (int n) (map dyfn_of_code (arg_types ch')) ?vs"
    by (simp add: do_ffi_prepare_def hd)
  also have "\<dots> = dyfn_prep_call a fn (sent_type rt) (int n) (map sent_type ts) vs"
  proof (rule dyfn_prep_call_cong)
    have len: "length (arg_types ch') = 10" "length (arg_storage ch') = 1024"
      using wf' by (simp_all add: channel_wf_def)
    have ts: "map dyfn_of_code (arg_types ch') ! i = map sent_type ts ! i" if "i < n" for i
      using that ty n ok len by (simp add: pbox_args_ok_def)
    then show "\<And>i. i < nat (int n) \<Longrightarrow> map dyfn_of_code (arg_types ch') ! i = map sent_type ts ! i"
      by simp
    have sz: "dyfn_type_size (map sent_type ts ! i) = pbox_type_size (ts ! i)" if "i < n" for i
      using that ok by (simp add: pbox_args_ok_def)
    show "args_ok (int n) (map sent_type ts) vs"
      using ok sz by (simp add: args_ok_def pbox_args_ok_def)
    have bound: "pbox_type_size (ts ! i) \<le> 1024 - unat (args ch' ! i)" if "i < n" for i
      using off [OF that] by linarith
    show "args_ok (int n) (map dyfn_of_code (arg_types ch')) ?vs"
      using n len ts sz bound by (simp add: args_ok_def)
    show "take (dyfn_type_size (map dyfn_of_code (arg_types ch') ! i)) (?vs ! i) =
        take (dyfn_type_size (map dyfn_of_code (arg_types ch') ! i)) (vs ! i)" if "i < nat (int n)" for i
    proof -
      from that have i: "i < n" by simp
      have "take (pbox_type_size (ts ! i)) (drop (unat (args ch' ! i)) (arg_storage ch')) =
          bytes_at (arg_storage ch') (unat (args ch' ! i)) (pbox_type_size (ts ! i))"
        using off [OF i] len by (simp add: bytes_at_def)
      then show ?thesis using i ts [OF i] sz [OF i] val [OF i] by simp
    qed
  qed
  finally show ?thesis .
qed

text \<open>The result comes back in the low bytes of \<open>result_storage\<close>, where \<open>pbox_call\<close> reads it.\<close>

lemma do_ffi_finish_result:
  assumes "channel_wf ch" "ret_type ch = pbox_type_code rt" "pbox_type_wf rt"
  obtains ch' where "do_ffi_finish r ch = Some ch'" "channel_wf ch'"
    "ch' = ch\<lparr>result_storage := result_storage ch'\<rparr>"
    "take (pbox_type_size rt) (result_storage ch') =
       take (pbox_type_size rt) (to_bytes (if is_float_type (sent_type rt) then float_val r else int_val r))"
proof -
  have "8 \<le> length (result_storage ch)" using assms(1) by (simp add: channel_wf_def)
  from dyfn_store_result_Some [OF this, of r "sent_type rt"] obtain st where
    "dyfn_store_result r (sent_type rt) (result_storage ch) = Some st" "length st = length (result_storage ch)"
    "take (pbox_type_size rt) st =
       take (pbox_type_size rt) (to_bytes (if is_float_type (sent_type rt) then float_val r else int_val r))"
    using assms(3) by auto
  then show thesis
    using assms by (intro that [of "ch\<lparr>result_storage := st\<rparr>"]) (simp_all add: do_ffi_finish_def channel_wf_def)
qed

section \<open>Properties\<close>

text \<open>C17: the arguments of a call survive the channel. Whatever the channel held before, packing a call of
  at most ten arguments succeeds and leaves the channel well formed, the sandbox's unpacking then succeeds, and in
  the frame it builds each argument of the caller lies zero-extended in the location
  the calling convention prescribes for its type.\<close>

theorem call_arguments_roundtrip:
  assumes "channel_wf ch" "pbox_args_ok n ts vs"
  shows "\<exists>ch' call. pbox_pack_call fn rt n ts vs ch = Some ch' \<and> channel_wf ch' \<and> ch_state ch' = ch_state ch \<and>
    do_ffi_prepare a ch' = Some call \<and> func call = fn \<and> ret_class call = dyfn_classify (sent_type rt) \<and>
    (\<forall>i<n. to_bytes (call_loc call (abi_loc a (map sent_type (take n ts)) i)) =
       take (pbox_type_size (ts ! i)) (vs ! i) @ replicate (8 - pbox_type_size (ts ! i)) 0)"
proof -
  obtain ch' where ch': "pbox_pack_call fn rt n ts vs ch = Some ch'" "channel_wf ch'" "ch_state ch' = ch_state ch"
    using pbox_pack_call_spec [OF assms, of fn rt] by metis
  have ok: "args_ok (int n) (map sent_type ts) vs"
    using assms(2) by (simp add: args_ok_def pbox_args_ok_def)
  obtain call where call: "dyfn_prep_call a fn (sent_type rt) (int n) (map sent_type ts) vs = Some call"
    using dyfn_prep_call_total [OF ok] by blast
  have "to_bytes (call_loc call (abi_loc a (map sent_type (take n ts)) i)) =
      take (pbox_type_size (ts ! i)) (vs ! i) @ replicate (8 - pbox_type_size (ts ! i)) 0" if "i < n" for i
    using dyfn_prep_call_value [OF call ok, of i] that assms(2) by (simp add: take_map pbox_args_ok_def)
  moreover have "func call = fn \<and> ret_class call = dyfn_classify (sent_type rt)"
    using dyfn_prep_call_inv [OF call] by (simp add: prep_inv_def Let_def)
  ultimately show ?thesis
    using ch' call do_ffi_prepare_packed [OF assms ch'(1), of a] by auto
qed

theorem call_arguments_roundtrip_witness:
  "\<exists>ch' call. pbox_pack_call 0x1000 PBOX_TYPE_VOID 2 [PBOX_TYPE_DOUBLE, PBOX_TYPE_UINT8] [to_bytes 5, [9]] zero_channel = Some ch' \<and>
     do_ffi_prepare AArch64 ch' = Some call \<and> to_bytes (call_loc call (FloatReg 0)) = to_bytes 5"
proof -
  have "pbox_args_ok 2 [PBOX_TYPE_DOUBLE, PBOX_TYPE_UINT8] [to_bytes 5, [9]]"
    by (simp add: pbox_args_ok_def less_Suc_eq numeral_2_eq_2)
  from call_arguments_roundtrip [OF zero_channel_wf this, of "0x1000" PBOX_TYPE_VOID AArch64]
  show ?thesis by (auto simp: abi_loc_def is_float_type_iff dyfn_of_code_def less_Suc_eq numeral_2_eq_2)
qed

text \<open>C24: the result of a call survives the channel: for every return type the caller's \<open>memcpy\<close> of the
  type's size out of \<open>result_storage\<close> yields the bytes of the callee's result register, and only
  \<open>result_storage\<close> of the channel changes.\<close>

theorem call_result_roundtrip:
  assumes "channel_wf ch" "ret_type ch = pbox_type_code rt" "pbox_type_wf rt" "pbox_type_size rt \<le> length ret"
  shows "\<exists>ch'. do_ffi_finish r ch = Some ch' \<and> channel_wf ch' \<and> ch' = ch\<lparr>result_storage := result_storage ch'\<rparr> \<and>
    memcpy_to ret 0 (result_storage ch') (pbox_type_size rt) =
      Some (take (pbox_type_size rt) (to_bytes (if is_float_type (sent_type rt) then float_val r else int_val r)) @
            drop (pbox_type_size rt) ret)"
proof -
  obtain ch' where ch': "do_ffi_finish r ch = Some ch'" "channel_wf ch'" "ch' = ch\<lparr>result_storage := result_storage ch'\<rparr>"
    "take (pbox_type_size rt) (result_storage ch') =
       take (pbox_type_size rt) (to_bytes (if is_float_type (sent_type rt) then float_val r else int_val r))"
    using do_ffi_finish_result [OF assms(1-3)] by metis
  have "pbox_type_size rt \<le> length (result_storage ch')"
    using ch'(2) pbox_type_size_le_8 [of rt] by (simp add: channel_wf_def)
  then show ?thesis using ch' assms(4) pbox_type_size_le_8 [of rt]
    by (intro exI [of _ ch']) (simp add: memcpy_to_def blit_def min_def)
qed

theorem call_result_roundtrip_witness:
  "\<exists>ch'. do_ffi_finish \<lparr>int_val = 7, float_val = 5\<rparr> (zero_channel\<lparr>ret_type := 10\<rparr>) = Some ch' \<and>
     memcpy_to (replicate 8 0) 0 (result_storage ch') 8 = Some (to_bytes 5)"
proof -
  have "channel_wf (zero_channel\<lparr>ret_type := 10\<rparr>)" "ret_type (zero_channel\<lparr>ret_type := 10\<rparr>) = pbox_type_code PBOX_TYPE_DOUBLE"
    by (simp_all add: channel_wf_def zero_channel_def)
  from call_result_roundtrip [OF this, of "replicate 8 0" "\<lparr>int_val = 7, float_val = 5\<rparr>"]
  show ?thesis by (auto simp: is_float_type_iff dyfn_of_code_def)
qed

end
