(* ===== verification/Callbacks.thy ===== *)
theory Callbacks
  imports Channel
begin

text \<open>
  A callback from the sandbox into the host. The sandbox end is \<open>dyfn_closure_dispatch\<close>
  (\<open>src/pbox/pbox_sandbox.c\<close>): it moves the saved argument registers of a closure stub into the
  channel, waits, and moves the result back. The host end is \<open>pbox_dispatch_callback\<close>
  (\<open>src/pbox/pbox.c\<close>), which checks what the sandbox wrote before it hands it to the typed
  dispatcher generated by \<open>include/sbox/process.hh\<close>. The host function receives, argument by
  argument, what the calling convention put in the registers and on the stack.
\<close>

section \<open>Closure frames\<close>

record DyfnClosureSavedRegs =
  sv_int_regs :: "u64 list"
  sv_float_regs :: "u64 list"
  sv_stack_args :: "u64 list"
  sv_stub_index :: nat

record DyfnClosureResult =
  cr_int_val :: u64
  cr_float_val :: u64
  cr_ret_class :: DyfnClass

definition saved_wf :: "DyfnClosureSavedRegs \<Rightarrow> bool" where
  "saved_wf sv \<longleftrightarrow> length (sv_int_regs sv) = 8 \<and> length (sv_float_regs sv) = 8 \<and>
     length (sv_stack_args sv) = 4 \<and> sv_stub_index sv < DYFN_MAX_CLOSURES"

abbreviation saved_loc :: "DyfnClosureSavedRegs \<Rightarrow> arg_loc \<Rightarrow> u64" where
  "saved_loc sv \<equiv> loc_value (sv_int_regs sv) (sv_float_regs sv) (sv_stack_args sv)"

section \<open>The sandbox end\<close>

text \<open>\<open>memcpy(&ch->arg_storage[offset], &regs[k], size)\<close> together with \<open>ch->args[i] = offset\<close>.\<close>

definition spill_reg :: "u64 list \<Rightarrow> nat \<Rightarrow> nat \<Rightarrow> nat \<Rightarrow> nat \<Rightarrow> PBoxChannel \<Rightarrow> PBoxChannel option" where
  "spill_reg regs k sz i offset ch =
     (if k < length regs then
        (case (store_at (args ch) i (word_of_nat offset),
               memcpy_to (arg_storage ch) offset (to_bytes (regs ! k)) sz) of
           (Some offs, Some st) \<Rightarrow> Some (ch\<lparr>args := offs, arg_storage := st\<rparr>)
         | _ \<Rightarrow> None)
      else None)"

fun closure_extract ::
  "arch \<Rightarrow> DyfnType list \<Rightarrow> DyfnClosureSavedRegs \<Rightarrow> nat \<Rightarrow> nat \<Rightarrow> nat \<Rightarrow> nat \<Rightarrow> nat \<Rightarrow>
     PBoxChannel \<Rightarrow> PBoxChannel option" where
  "closure_extract a [] sv i int_idx float_idx stack_idx offset ch = Some ch"
| "closure_extract a (t # ts) sv i int_idx float_idx stack_idx offset ch =
     (let cls = dyfn_classify t; sz = dyfn_type_size t in
      if cls = DYFN_CLASS_FLOAT \<or> cls = DYFN_CLASS_DOUBLE then
        (if float_idx < DYFN_FLOAT_ARG_REGS
         then Option.bind (spill_reg (sv_float_regs sv) float_idx sz i offset ch)
                (closure_extract a ts sv (Suc i) int_idx (Suc float_idx) stack_idx (offset + sz))
         else Option.bind (spill_reg (sv_stack_args sv) stack_idx sz i offset ch)
                (closure_extract a ts sv (Suc i) int_idx float_idx (Suc stack_idx) (offset + sz)))
      else
        (if int_idx < dyfn_int_arg_regs a
         then Option.bind (spill_reg (sv_int_regs sv) int_idx sz i offset ch)
                (closure_extract a ts sv (Suc i) (Suc int_idx) float_idx stack_idx (offset + sz))
         else Option.bind (spill_reg (sv_stack_args sv) stack_idx sz i offset ch)
                (closure_extract a ts sv (Suc i) int_idx float_idx (Suc stack_idx) (offset + sz))))"

text \<open>
  \<open>dyfn_closure_dispatch\<close> up to the point where it hands the channel to the host (the thread has
  a current channel). \<open>info\<close> is the thread's slot for the stub that was called.
\<close>

definition closure_dispatch_request ::
  "arch \<Rightarrow> closure_table \<Rightarrow> DyfnClosureSavedRegs \<Rightarrow> PBoxChannel \<Rightarrow> PBoxChannel option" where
  "closure_dispatch_request a tbl sv ch =
     (if sv_stub_index sv < length (closure_info tbl) then
        let info = closure_info tbl ! sv_stub_index sv in
        if nat (ci_nargs info) \<le> length (ci_arg_types info) then
          map_option (\<lambda>c. c\<lparr>ch_state := PBOX_STATE_CALLBACK\<rparr>)
            (closure_extract a (take (nat (ci_nargs info)) (ci_arg_types info)) sv 0 0 0 0 0
               (ch\<lparr>callback_id := ci_callback_id info, nargs := ci_nargs info\<rparr>))
        else None
      else None)"

text \<open>
  The rest, once the state is \<open>REQUEST\<close> again. \<open>result\<close> is the caller's uninitialised stack
  object, so its old contents are an argument and survive outside the copied bytes.
\<close>

definition closure_dispatch_result ::
  "closure_table \<Rightarrow> DyfnClosureSavedRegs \<Rightarrow> PBoxChannel \<Rightarrow> DyfnClosureResult \<Rightarrow> DyfnClosureResult option" where
  "closure_dispatch_result tbl sv ch result =
     (if sv_stub_index sv < length (closure_info tbl) then
        let info = closure_info tbl ! sv_stub_index sv;
            cls = dyfn_classify (ci_ret_type info);
            sz = dyfn_type_size (ci_ret_type info);
            r = result\<lparr>cr_ret_class := cls\<rparr>
        in if length (result_storage ch) < sz then None
           else if cls = DYFN_CLASS_FLOAT \<or> cls = DYFN_CLASS_DOUBLE
           then Some (r\<lparr>cr_float_val := poke64 (cr_float_val r) (take sz (result_storage ch))\<rparr>)
           else if cls \<noteq> DYFN_CLASS_VOID
           then Some (r\<lparr>cr_int_val := poke64 (cr_int_val r) (take sz (result_storage ch))\<rparr>)
           else Some r
      else None)"

definition closure_chunk :: "arch \<Rightarrow> DyfnType list \<Rightarrow> DyfnClosureSavedRegs \<Rightarrow> nat \<Rightarrow> byte list" where
  "closure_chunk a ts sv i = peek64 (saved_loc sv (abi_loc a ts i)) (dyfn_type_size (ts ! i))"

lemma length_closure_chunk [simp]: "length (closure_chunk a ts sv i) = dyfn_type_size (ts ! i)"
  by (simp add: closure_chunk_def dyfn_type_size_le_8)

lemma spill_reg_Some:
  assumes "channel_wf ch" "k < length regs" "i < PBOX_MAX_ARGS" "off \<le> 8 * i" "sz \<le> 8"
  shows "spill_reg regs k sz i off ch =
    Some (ch\<lparr>args := (args ch)[i := word_of_nat off],
             arg_storage := blit (arg_storage ch) off (peek64 (regs ! k) sz)\<rparr>)"
proof -
  have "off + sz \<le> 1024" using assms by linarith
  then show ?thesis
    using assms by (simp add: spill_reg_def store_at_def memcpy_to_def channel_wf_def peek64_def)
qed

lemma before_Suc:
  "i < length ts \<Longrightarrow> floats_before ts (Suc i) = floats_before ts i + (if is_float_type (ts ! i) then 1 else 0)"
  "i < length ts \<Longrightarrow> ints_before ts (Suc i) = ints_before ts i + (if is_float_type (ts ! i) then 0 else 1)"
  by (simp_all add: floats_before_def ints_before_def take_Suc_conv_app_nth)

lemma stack_before_Suc:
  "i < length ts \<Longrightarrow> stack_before a ts (Suc i) =
     stack_before a ts i + (case abi_loc a ts i of StackSlot _ \<Rightarrow> 1 | _ \<Rightarrow> 0)"
  by (auto simp: stack_before_def abi_loc_def before_Suc)

text \<open>The extraction loop is the packing loop on the convention's chunks.\<close>

lemma closure_extract_chunks:
  assumes "channel_wf ch" "saved_wf sv" "ts = pre @ suf" "n = length pre" "length ts \<le> PBOX_MAX_ARGS"
    "off \<le> 8 * n"
  shows "closure_extract a suf sv n (min (ints_before ts n) (dyfn_int_arg_regs a))
           (min (floats_before ts n) 8) (stack_before a ts n) off ch =
    (let p = pack_chunks (map (closure_chunk a ts sv) [n..<length ts]) n off (args ch) (arg_storage ch)
     in Some (ch\<lparr>args := fst p, arg_storage := snd p\<rparr>))"
  using assms
proof (induction suf arbitrary: pre n off ch)
  case Nil
  then show ?case by simp
next
  case (Cons t suf)
  have n: "n < length ts" "ts ! n = t" and n10: "n < 10" using Cons.prems by (auto simp: nth_append)
  let ?sz = "dyfn_type_size t"
  let ?ch = "ch\<lparr>args := (args ch)[n := word_of_nat off], arg_storage := blit (arg_storage ch) off (closure_chunk a ts sv n)\<rparr>"
  have sz: "?sz \<le> 8" by (rule dyfn_type_size_le_8)
  have regs: "dyfn_int_arg_regs a \<le> 8" by (cases a) auto
  have sv: "length (sv_int_regs sv) = 8" "length (sv_float_regs sv) = 8" "length (sv_stack_args sv) = 4"
    using Cons.prems(2) by (simp_all add: saved_wf_def)
  have st: "stack_before a ts (Suc n) \<le> 4" using Cons.prems(5) n by (intro stack_before_bound) auto
  have "length (arg_storage ch) = 1024" "off + ?sz \<le> 1024"
    using Cons.prems(1,6) n10 sz by (simp_all add: channel_wf_def)
  then have wf: "channel_wf ?ch" using Cons.prems(1) n by (simp add: channel_wf_def)
  have spill: "spill_reg r k ?sz n off ch = Some ?ch"
    if "k < length r" "saved_loc sv (abi_loc a ts n) = r ! k" for r k
    using spill_reg_Some [OF Cons.prems(1) that(1) n10 Cons.prems(6) sz] that(2) n(2)
    by (simp add: closure_chunk_def)
  have ih: "closure_extract a suf sv (Suc n) (min (ints_before ts (Suc n)) (dyfn_int_arg_regs a))
           (min (floats_before ts (Suc n)) 8) (stack_before a ts (Suc n)) (off + ?sz) ?ch =
    (let p = pack_chunks (map (closure_chunk a ts sv) [Suc n..<length ts]) (Suc n) (off + ?sz) (args ?ch) (arg_storage ?ch)
     in Some (?ch\<lparr>args := fst p, arg_storage := snd p\<rparr>))"
    using Cons.prems sz by (intro Cons.IH [where pre = "pre @ [t]"] wf) auto
  have step: "closure_extract a (t # suf) sv n (min (ints_before ts n) (dyfn_int_arg_regs a))
           (min (floats_before ts n) 8) (stack_before a ts n) off ch =
      closure_extract a suf sv (Suc n) (min (ints_before ts (Suc n)) (dyfn_int_arg_regs a))
           (min (floats_before ts (Suc n)) 8) (stack_before a ts (Suc n)) (off + ?sz) ?ch"
  proof (cases "is_float_type t")
    case True
    then show ?thesis
      using n sv st before_Suc [OF n(1)] stack_before_Suc [OF n(1), of a]
      by (cases "floats_before ts n < 8") (simp_all add: spill is_float_type_def abi_loc_def)
  next
    case False
    then show ?thesis
      using n sv st regs before_Suc [OF n(1)] stack_before_Suc [OF n(1), of a]
      by (cases "ints_before ts n < dyfn_int_arg_regs a") (simp_all add: spill is_float_type_def abi_loc_def)
  qed
  show ?case
    unfolding step ih using n by (simp add: upt_conv_Cons Let_def)
qed

section \<open>The host's registry\<close>

text \<open>
  A dispatcher is a C function pointer: it reads the arguments behind \<open>arg_storage\<close> at the given
  offsets, calls \<open>func_ptr\<close> and writes \<open>result_storage\<close>. The host application's own state is the
  type parameter \<open>'h\<close>; \<open>None\<close> is an access outside the channel.
\<close>

type_synonym 'h dispatch_fn = "u64 \<Rightarrow> byte list \<Rightarrow> u64 list \<Rightarrow> byte list \<Rightarrow> 'h \<Rightarrow> (byte list \<times> 'h) option"

record 'h PBoxCallback =
  cb_func_ptr :: u64
  cb_dispatch :: "'h dispatch_fn"
  cb_ret_type :: PBoxType
  cb_nargs :: int
  cb_arg_types :: "PBoxType list"
  cb_sandbox_closure :: u64

record 'h callback_registry =
  callbacks :: "'h PBoxCallback list"
  callback_count :: nat

abbreviation (input) PBOX_MAX_CALLBACKS :: nat where "PBOX_MAX_CALLBACKS \<equiv> 64"

definition registry_wf :: "'h callback_registry \<Rightarrow> bool" where
  "registry_wf r \<longleftrightarrow> length (callbacks r) = PBOX_MAX_CALLBACKS \<and> callback_count r \<le> PBOX_MAX_CALLBACKS \<and>
     (\<forall>cb\<in>set (callbacks r). length (cb_arg_types cb) = PBOX_MAX_ARGS)"

text \<open>
  \<open>pbox_register_callback\<close> up to the publication of the slot: \<open>Returns None\<close> when the registry is
  full, else the slot's number and the registry with the filled slot published.
\<close>

definition callback_publish ::
  "u64 \<Rightarrow> 'h dispatch_fn \<Rightarrow> PBoxType \<Rightarrow> int \<Rightarrow> PBoxType list \<Rightarrow> 'h callback_registry \<Rightarrow>
     (nat \<times> 'h callback_registry) option outcome" where
  "callback_publish host_func dispatch rt n ts reg =
     (if callback_count reg \<ge> PBOX_MAX_CALLBACKS then Returns None
      else if \<not> n \<le> int PBOX_MAX_ARGS then Aborts
      else
        let i = callback_count reg;
            cb = callbacks reg ! i;
            cb' = cb\<lparr>cb_func_ptr := host_func, cb_dispatch := dispatch, cb_ret_type := rt, cb_nargs := n,
                     cb_arg_types := blit (cb_arg_types cb) 0 (take (nat n) ts)\<rparr>
        in Returns (Some (i, reg\<lparr>callbacks := (callbacks reg)[i := cb'], callback_count := i + 1\<rparr>)))"

text \<open>The fields of a create-closure request.\<close>

definition closure_request :: "nat \<Rightarrow> PBoxType \<Rightarrow> int \<Rightarrow> PBoxType list \<Rightarrow> PBoxChannel \<Rightarrow> PBoxChannel" where
  "closure_request i rt n ts ch =
     ch\<lparr>request_type := PBOX_REQ_CREATE_CLOSURE, closure_callback_id := int i,
        closure_ret_type := pbox_type_code rt, closure_nargs := n,
        closure_arg_types := blit (closure_arg_types ch) 0 (map pbox_type_code (take (nat n) ts))\<rparr>"

text \<open>
  \<open>pbox_dispatch_callback\<close>. Everything it reads from the channel is under the sandbox's control.
  The Boolean of the result tells whether it killed the sandbox.
\<close>

definition pbox_dispatch_callback ::
  "'h callback_registry \<Rightarrow> PBoxChannel \<Rightarrow> 'h \<Rightarrow> (bool \<times> PBoxChannel \<times> 'h) option" where
  "pbox_dispatch_callback reg ch h =
     (let i = callback_id ch in
      if i < 0 \<or> i \<ge> int (callback_count reg) then Some (False, ch, h)
      else
        let cb = callbacks reg ! nat i;
            arg_offsets = take (nat (cb_nargs cb)) (args ch)
        in if list_ex (\<lambda>off. unat off \<ge> PBOX_ARG_STORAGE) arg_offsets then Some (True, ch, h)
           else (case cb_dispatch cb (cb_func_ptr cb) (arg_storage ch) arg_offsets (result_storage ch) h of
                   None \<Rightarrow> None
                 | Some (res, h') \<Rightarrow> Some (False, ch\<lparr>result_storage := res\<rparr>, h')))"

section \<open>The typed dispatcher\<close>

text \<open>
  \<open>read_callback_arg\<close> and \<open>callback_dispatch\<close> of \<open>process.hh\<close>, for a host function whose argument
  objects have the sizes \<open>szs\<close> and whose result has size \<open>rsz\<close> (\<open>None\<close> for \<open>void\<close>). \<open>apply_fn\<close> is
  the meaning of the host function behind the pointer.
\<close>

definition read_callback_arg :: "byte list \<Rightarrow> u64 \<Rightarrow> nat \<Rightarrow> byte list option" where
  "read_callback_arg storage off sz =
     (if unat off + sz \<le> length storage then Some (bytes_at storage (unat off) sz) else None)"

fun read_callback_args :: "byte list \<Rightarrow> u64 list \<Rightarrow> nat list \<Rightarrow> byte list list option" where
  "read_callback_args storage offs [] = Some []"
| "read_callback_args storage [] (sz # szs) = None"
| "read_callback_args storage (off # offs) (sz # szs) =
     (case read_callback_arg storage off sz of
        None \<Rightarrow> None
      | Some v \<Rightarrow> map_option (\<lambda>vs. v # vs) (read_callback_args storage offs szs))"

definition callback_dispatch ::
  "(u64 \<Rightarrow> byte list list \<Rightarrow> 'h \<Rightarrow> byte list \<times> 'h) \<Rightarrow> nat option \<Rightarrow> nat list \<Rightarrow> 'h dispatch_fn" where
  "callback_dispatch apply_fn rsz szs fp storage offs res h =
     (case read_callback_args storage offs szs of
        None \<Rightarrow> None
      | Some vs \<Rightarrow>
          let (r, h') = apply_fn fp vs h in
          (case rsz of
             None \<Rightarrow> Some (res, h')
           | Some sz \<Rightarrow> map_option (\<lambda>res'. (res', h')) (memcpy_to res 0 r sz)))"

lemma read_callback_args_Some:
  assumes "length offs = length szs"
    and "\<And>i. i < length szs \<Longrightarrow> unat (offs ! i) + szs ! i \<le> length storage"
  shows "read_callback_args storage offs szs =
    Some (map (\<lambda>i. bytes_at storage (unat (offs ! i)) (szs ! i)) [0..<length szs])"
  using assms
proof (induction offs szs rule: list_induct2)
  case Nil
  then show ?case by simp
next
  case (Cons off offs sz szs)
  have "unat off + sz \<le> length storage" using Cons.prems [of 0] by simp
  moreover have "\<And>i. i < length szs \<Longrightarrow> unat (offs ! i) + szs ! i \<le> length storage"
    using Cons.prems [of "Suc i" for i] by simp
  note Cons.IH [OF this]
  ultimately show ?case
    by (simp add: read_callback_arg_def map_upt_Suc del: upt_Suc)
qed

section \<open>A callback, both ends\<close>

text \<open>Slot \<open>s\<close> of a thread's closure table belongs to entry \<open>i\<close> of the host's registry.\<close>

definition linked :: "'h callback_registry \<Rightarrow> closure_table \<Rightarrow> nat \<Rightarrow> nat \<Rightarrow> bool" where
  "linked reg tbl s i \<longleftrightarrow>
     s < DYFN_MAX_CLOSURES \<and> i < callback_count reg \<and>
     (let info = closure_info tbl ! s; cb = callbacks reg ! i in
      ci_callback_id info = int i \<and> ci_nargs info = cb_nargs cb \<and>
      0 \<le> cb_nargs cb \<and> cb_nargs cb \<le> int PBOX_MAX_ARGS \<and>
      ci_ret_type info = sent_type (cb_ret_type cb) \<and> pbox_type_wf (cb_ret_type cb) \<and>
      (\<forall>k<nat (cb_nargs cb). pbox_type_wf (cb_arg_types cb ! k) \<and>
         ci_arg_types info ! k = sent_type (cb_arg_types cb ! k)))"

text \<open>The argument bytes that the calling convention left in the saved registers.\<close>

definition saved_args :: "arch \<Rightarrow> PBoxType list \<Rightarrow> DyfnClosureSavedRegs \<Rightarrow> byte list list" where
  "saved_args a ts sv =
     map (\<lambda>i. take (pbox_type_size (ts ! i)) (to_bytes (saved_loc sv (abi_loc a (map sent_type ts) i))))
       [0..<length ts]"

text \<open>The dispatcher the C++ template instantiates for an entry's signature.\<close>

definition typed_callback :: "(u64 \<Rightarrow> byte list list \<Rightarrow> 'h \<Rightarrow> byte list \<times> 'h) \<Rightarrow> 'h PBoxCallback \<Rightarrow> bool" where
  "typed_callback apply_fn cb \<longleftrightarrow>
     cb_dispatch cb = callback_dispatch apply_fn
       (if cb_ret_type cb = PBOX_TYPE_VOID then None else Some (pbox_type_size (cb_ret_type cb)))
       (map pbox_type_size (take (nat (cb_nargs cb)) (cb_arg_types cb)))"

lemma closure_dispatch_request_spec:
  assumes wf: "channel_wf ch" and sv: "saved_wf sv" and tbl: "closure_table_wf tbl"
    and info: "info = closure_info tbl ! sv_stub_index sv" and n: "nat (ci_nargs info) \<le> PBOX_MAX_ARGS"
    and ts: "ts = take (nat (ci_nargs info)) (ci_arg_types info)"
  obtains ch' where "closure_dispatch_request a tbl sv ch = Some ch'" "channel_wf ch'"
    "ch_state ch' = PBOX_STATE_CALLBACK" "callback_id ch' = ci_callback_id info"
    "result_storage ch' = result_storage ch" "mem_storage ch' = mem_storage ch"
    "ret_type ch' = ret_type ch" "sandbox_channel_addr ch' = sandbox_channel_addr ch"
    "\<And>i. i < length ts \<Longrightarrow> unat (args ch' ! i) + dyfn_type_size (ts ! i) \<le> 80"
    "\<And>i. i < length ts \<Longrightarrow> bytes_at (arg_storage ch') (unat (args ch' ! i)) (dyfn_type_size (ts ! i)) =
        closure_chunk a ts sv i"
proof -
  let ?cs = "map (closure_chunk a ts sv) [0..<length ts]"
  let ?p = "pack_chunks ?cs 0 0 (args ch) (arg_storage ch)"
  define ch' where "ch' = ch\<lparr>callback_id := ci_callback_id info, nargs := ci_nargs info, args := fst ?p,
    arg_storage := snd ?p, ch_state := PBOX_STATE_CALLBACK\<rparr>"
  have idx: "sv_stub_index sv < length (closure_info tbl)"
    using sv tbl by (simp add: saved_wf_def closure_table_wf_def)
  then have at: "length (ci_arg_types info) = 10"
    using tbl info by (simp add: closure_table_wf_def)
  then have lts: "length ts = nat (ci_nargs info)" "length ts \<le> 10" using n ts by simp_all
  have "closure_extract a ts sv 0 0 0 0 0 (ch\<lparr>callback_id := ci_callback_id info, nargs := ci_nargs info\<rparr>) =
      Some (ch\<lparr>callback_id := ci_callback_id info, nargs := ci_nargs info, args := fst ?p, arg_storage := snd ?p\<rparr>)"
    using closure_extract_chunks [of "ch\<lparr>callback_id := ci_callback_id info, nargs := ci_nargs info\<rparr>" sv ts "[]" ts 0 0 a]
      wf sv lts by (simp add: channel_wf_def Let_def)
  then have res: "closure_dispatch_request a tbl sv ch = Some ch'"
    using idx at n by (simp add: closure_dispatch_request_def Let_def ch'_def flip: info ts)
  have cl: "map length ?cs = map dyfn_type_size ts"
    by (intro nth_equalityI) simp_all
  then have tot: "sum_list (map length ?cs) \<le> 80"
    using sum_dyfn_sizes [of ts] lts(2) by (simp only:)
  have wf': "channel_wf ch'"
    using wf tot pack_chunks_lengths [of 0 ?cs "arg_storage ch" 0 "args ch"]
    by (simp add: channel_wf_def ch'_def)
  have get: "unat (args ch' ! i) + dyfn_type_size (ts ! i) \<le> 80 \<and>
      bytes_at (arg_storage ch') (unat (args ch' ! i)) (dyfn_type_size (ts ! i)) = closure_chunk a ts sv i"
    if i: "i < length ts" for i
  proof -
    have b: "chunk_offset ?cs i + dyfn_type_size (ts ! i) \<le> 80"
      using chunk_offset_le [of i ?cs] i tot by simp
    have "fst ?p ! i = word_of_nat (chunk_offset ?cs i) \<and>
        bytes_at (snd ?p) (chunk_offset ?cs i) (dyfn_type_size (ts ! i)) = closure_chunk a ts sv i"
      using pack_chunks_get [of 0 ?cs "arg_storage ch" 0 "args ch" i] i tot wf lts
      by (simp add: channel_wf_def)
    with b show ?thesis by (simp add: ch'_def unat_of_nat)
  qed
  have "ch_state ch' = PBOX_STATE_CALLBACK" "callback_id ch' = ci_callback_id info"
    "result_storage ch' = result_storage ch" "mem_storage ch' = mem_storage ch" "ret_type ch' = ret_type ch"
    "sandbox_channel_addr ch' = sandbox_channel_addr ch"
    by (simp_all add: ch'_def)
  with res wf' get that show thesis by blast
qed

lemma callback_arguments_delivered:
  assumes wf: "channel_wf ch" and sv: "saved_wf sv" and tbl: "closure_table_wf tbl" and reg: "registry_wf reg"
    and ln: "linked reg tbl (sv_stub_index sv) i" and cb: "cb = callbacks reg ! i"
    and ty: "typed_callback fn cb"
    and call: "fn (cb_func_ptr cb) (saved_args a (take (nat (cb_nargs cb)) (cb_arg_types cb)) sv) h = (r, h')"
    and r: "pbox_type_size (cb_ret_type cb) \<le> length r"
  obtains ch1 ch2 where "closure_dispatch_request a tbl sv ch = Some ch1" "ch_state ch1 = PBOX_STATE_CALLBACK"
    "pbox_dispatch_callback reg ch1 h = Some (False, ch2, h')" "channel_wf ch2"
    "ch2 = ch1\<lparr>result_storage := result_storage ch2\<rparr>" "ret_type ch2 = ret_type ch"
    "sandbox_channel_addr ch2 = sandbox_channel_addr ch"
    "cb_ret_type cb \<noteq> PBOX_TYPE_VOID \<Longrightarrow>
       take (pbox_type_size (cb_ret_type cb)) (result_storage ch2) = take (pbox_type_size (cb_ret_type cb)) r"
proof -
  let ?info = "closure_info tbl ! sv_stub_index sv" and ?n = "nat (cb_nargs cb)"
  let ?ts = "take ?n (ci_arg_types ?info)" and ?us = "take ?n (cb_arg_types cb)"
  from ln have i: "i < callback_count reg" and lk: "ci_callback_id ?info = int i" "ci_nargs ?info = cb_nargs cb"
      "0 \<le> cb_nargs cb" "?n \<le> 10" "pbox_type_wf (cb_ret_type cb)"
      "\<And>k. k < ?n \<Longrightarrow> pbox_type_wf (cb_arg_types cb ! k) \<and> ci_arg_types ?info ! k = sent_type (cb_arg_types cb ! k)"
    by (auto simp: linked_def Let_def cb)
  have lcb: "length (cb_arg_types cb) = 10" using reg i cb by (simp add: registry_wf_def)
  have linf: "length (ci_arg_types ?info) = 10"
    using tbl sv by (simp add: closure_table_wf_def saved_wf_def)
  have len: "length ?us = ?n" "length ?ts = ?n" using lcb linf lk(4) by simp_all
  have ts: "?ts = map sent_type ?us"
    using lk(6) len by (intro nth_equalityI) simp_all
  have szs: "dyfn_type_size (?ts ! k) = pbox_type_size (?us ! k)" if "k < ?n" for k
    using that lk(6) [OF that] by simp
  obtain ch1 where ch1: "closure_dispatch_request a tbl sv ch = Some ch1" "channel_wf ch1"
    "ch_state ch1 = PBOX_STATE_CALLBACK" "callback_id ch1 = int i" "result_storage ch1 = result_storage ch"
    "ret_type ch1 = ret_type ch" "sandbox_channel_addr ch1 = sandbox_channel_addr ch"
    and off: "\<And>k. k < ?n \<Longrightarrow> unat (args ch1 ! k) + dyfn_type_size (?ts ! k) \<le> 80"
    and val: "\<And>k. k < ?n \<Longrightarrow> bytes_at (arg_storage ch1) (unat (args ch1 ! k)) (dyfn_type_size (?ts ! k)) =
        closure_chunk a ?ts sv k"
    using closure_dispatch_request_spec [OF wf sv tbl refl, of ?ts a] lk(1,2,4) len by metis
  let ?offs = "take ?n (args ch1)"
  have loffs: "length ?offs = ?n" using ch1(2) lk(4) by (simp add: channel_wf_def)
  have ok: "\<not> list_ex (\<lambda>off. unat off \<ge> 1024) ?offs"
    using off loffs by (fastforce simp: list_ex_length)
  have lst: "length (arg_storage ch1) = 1024" using ch1(2) by (simp add: channel_wf_def)
  have "read_callback_args (arg_storage ch1) ?offs (map pbox_type_size ?us) = Some (saved_args a ?us sv)"
  proof -
    have b: "unat (args ch1 ! k) + pbox_type_size (?us ! k) \<le> 80" if "k < ?n" for k
      using off [OF that] szs [OF that] by simp
    have "bytes_at (arg_storage ch1) (unat (?offs ! k)) (map pbox_type_size ?us ! k) =
        take (pbox_type_size (?us ! k)) (to_bytes (saved_loc sv (abi_loc a (map sent_type ?us) k)))" if "k < ?n" for k
      using that b [OF that] val [OF that] szs [OF that] len lst
      by (simp add: closure_chunk_def peek64_def flip: ts)
    moreover have "read_callback_args (arg_storage ch1) ?offs (map pbox_type_size ?us) =
        Some (map (\<lambda>k. bytes_at (arg_storage ch1) (unat (?offs ! k)) (map pbox_type_size ?us ! k)) [0..<?n])"
    proof (subst read_callback_args_Some)
      show "length ?offs = length (map pbox_type_size ?us)" using loffs len by simp
      show "unat (?offs ! k) + map pbox_type_size ?us ! k \<le> length (arg_storage ch1)"
        if "k < length (map pbox_type_size ?us)" for k
        using that b [of k] lst len by simp
    qed (simp only: length_map len)
    ultimately show ?thesis by (simp add: saved_args_def len del: length_take)
  qed
  note args = this
  have lres: "length (result_storage ch1) = 32" using ch1(2) by (simp add: channel_wf_def)
  have sz: "pbox_type_size (cb_ret_type cb) \<le> 32" using pbox_type_size_le_8 [of "cb_ret_type cb"] by linarith
  define rs where "rs = (if cb_ret_type cb = PBOX_TYPE_VOID then result_storage ch1
      else blit (result_storage ch1) 0 (take (pbox_type_size (cb_ret_type cb)) r))"
  have "cb_dispatch cb (cb_func_ptr cb) (arg_storage ch1) ?offs (result_storage ch1) h = Some (rs, h')"
    using ty args call lres sz r
    by (auto simp: typed_callback_def callback_dispatch_def rs_def memcpy_to_def)
  then have "pbox_dispatch_callback reg ch1 h = Some (False, ch1\<lparr>result_storage := rs\<rparr>, h')"
    using i ok ch1(4) by (simp add: pbox_dispatch_callback_def Let_def flip: cb)
  moreover have lrs: "length rs = 32" using lres sz r by (simp add: rs_def)
  moreover have "cb_ret_type cb \<noteq> PBOX_TYPE_VOID \<Longrightarrow>
      take (pbox_type_size (cb_ret_type cb)) rs = take (pbox_type_size (cb_ret_type cb)) r"
    using r by (simp add: rs_def blit_def)
  ultimately show thesis
    using ch1(1,2,3,6,7) by (intro that [of ch1 "ch1\<lparr>result_storage := rs\<rparr>"]) (simp_all add: channel_wf_def)
qed

text \<open>The result registers a stub returns with: the low bytes of one of them are the host's result.\<close>

definition stub_result :: "DyfnClosureResult \<Rightarrow> PBoxType \<Rightarrow> byte list \<Rightarrow> DyfnClosureResult" where
  "stub_result junk rt r =
     (let j = junk\<lparr>cr_ret_class := dyfn_classify (sent_type rt)\<rparr>; v = take (pbox_type_size rt) r in
      if is_float_type (sent_type rt) then j\<lparr>cr_float_val := poke64 (cr_float_val j) v\<rparr>
      else if rt \<noteq> PBOX_TYPE_VOID then j\<lparr>cr_int_val := poke64 (cr_int_val j) v\<rparr> else j)"

lemma sent_type_void: "pbox_type_wf rt \<Longrightarrow> dyfn_classify (sent_type rt) = DYFN_CLASS_VOID \<longleftrightarrow> rt = PBOX_TYPE_VOID"
  by (cases rt) (auto simp: dyfn_of_code_def)

lemma closure_dispatch_result_value:
  assumes tbl: "closure_table_wf tbl" and sv: "saved_wf sv" and ch: "channel_wf ch"
    and rt: "ci_ret_type (closure_info tbl ! sv_stub_index sv) = sent_type rt" "pbox_type_wf rt"
    and r: "rt \<noteq> PBOX_TYPE_VOID \<Longrightarrow>
      take (pbox_type_size rt) (result_storage ch) = take (pbox_type_size rt) r"
  shows "closure_dispatch_result tbl sv ch junk = Some (stub_result junk rt r)"
proof -
  have "sv_stub_index sv < length (closure_info tbl)"
    using tbl sv by (simp add: saved_wf_def closure_table_wf_def)
  moreover have "\<not> length (result_storage ch) < pbox_type_size rt"
    using ch pbox_type_size_le_8 [of rt] by (simp add: channel_wf_def)
  moreover have "is_float_type (sent_type rt) \<Longrightarrow> rt \<noteq> PBOX_TYPE_VOID"
    by (auto simp: is_float_type_iff dyfn_of_code_def)
  ultimately show ?thesis
    using rt r sent_type_void [OF rt(2)]
    by (auto simp: closure_dispatch_result_def stub_result_def is_float_type_def Let_def)
qed

lemma closure_dispatch_result_cong:
  "result_storage c = result_storage c' \<Longrightarrow> closure_dispatch_result tbl sv c j = closure_dispatch_result tbl sv c' j"
  unfolding closure_dispatch_result_def by (erule ssubst) (rule refl)

text \<open>One callback from the stub to the host and back.\<close>

lemma callback_step:
  assumes wf: "channel_wf ch" and sv: "saved_wf sv" and tbl: "closure_table_wf tbl" and reg: "registry_wf reg"
    and ln: "linked reg tbl (sv_stub_index sv) i" and cb: "cb = callbacks reg ! i"
    and ty: "typed_callback fn cb"
    and call: "fn (cb_func_ptr cb) (saved_args a (take (nat (cb_nargs cb)) (cb_arg_types cb)) sv) h = (r, h')"
    and r: "pbox_type_size (cb_ret_type cb) \<le> length r"
  obtains ch1 ch2 where "closure_dispatch_request a tbl sv ch = Some ch1" "ch_state ch1 = PBOX_STATE_CALLBACK"
    "pbox_dispatch_callback reg ch1 h = Some (False, ch2, h')" "channel_wf ch2" "ret_type ch2 = ret_type ch"
    "sandbox_channel_addr ch2 = sandbox_channel_addr ch"
    "closure_dispatch_result tbl sv (ch2\<lparr>ch_state := PBOX_STATE_REQUEST\<rparr>) junk =
       Some (stub_result junk (cb_ret_type cb) r)"
proof -
  from ln have rt: "ci_ret_type (closure_info tbl ! sv_stub_index sv) = sent_type (cb_ret_type cb)"
      "pbox_type_wf (cb_ret_type cb)"
    by (simp_all add: linked_def Let_def cb)
  show thesis
  proof (rule callback_arguments_delivered [OF wf sv tbl reg ln cb ty call r])
    fix ch1 ch2
    assume a: "closure_dispatch_request a tbl sv ch = Some ch1" "ch_state ch1 = PBOX_STATE_CALLBACK"
      "pbox_dispatch_callback reg ch1 h = Some (False, ch2, h')" "channel_wf ch2"
      "ret_type ch2 = ret_type ch" "sandbox_channel_addr ch2 = sandbox_channel_addr ch"
      "cb_ret_type cb \<noteq> PBOX_TYPE_VOID \<Longrightarrow>
        take (pbox_type_size (cb_ret_type cb)) (result_storage ch2) = take (pbox_type_size (cb_ret_type cb)) r"
    have "closure_dispatch_result tbl sv (ch2\<lparr>ch_state := PBOX_STATE_REQUEST\<rparr>) junk =
       Some (stub_result junk (cb_ret_type cb) r)"
      using a(4,7) by (intro closure_dispatch_result_value [OF tbl sv _ rt]) (simp_all add: channel_wf_def)
    with a show thesis by (intro that)
  qed
qed

section \<open>Properties\<close>

text \<open>An example: one callback \<open>uint64_t \<rightarrow> uint64_t\<close> that adds one and counts its invocations.\<close>

definition example_fn :: "u64 \<Rightarrow> byte list list \<Rightarrow> nat \<Rightarrow> byte list \<times> nat" where
  "example_fn fp vs h = (to_bytes (of_bytes (hd vs) + 1), h + 1)"

definition example_saved :: "u64 \<Rightarrow> DyfnClosureSavedRegs" where
  "example_saved x = \<lparr>sv_int_regs = x # replicate 7 0, sv_float_regs = replicate 8 0,
     sv_stack_args = replicate 4 0, sv_stub_index = 0\<rparr>"

definition example_callback :: "nat PBoxCallback" where
  "example_callback = \<lparr>cb_func_ptr = 0x2000,
     cb_dispatch = callback_dispatch example_fn (Some 8) [8],
     cb_ret_type = PBOX_TYPE_UINT64, cb_nargs = 1, cb_arg_types = PBOX_TYPE_UINT64 # replicate 9 PBOX_TYPE_VOID,
     cb_sandbox_closure = 0x5000\<rparr>"

definition example_table :: closure_table where
  "example_table = \<lparr>closure_info = \<lparr>ci_callback_id = 0, ci_nargs = 1,
       ci_arg_types = DYFN_TYPE_UINT64 # replicate 9 DYFN_TYPE_VOID, ci_ret_type = DYFN_TYPE_UINT64,
       ci_active = True\<rparr> # replicate 63 zero_info, closure_count = 1\<rparr>"

definition example_registry :: "nat callback_registry" where
  "example_registry = \<lparr>callbacks = example_callback # replicate 63 example_callback, callback_count = 1\<rparr>"

lemma example_tables:
  "registry_wf example_registry" "closure_table_wf example_table" "linked example_registry example_table 0 0"
  "saved_wf (example_saved x)" "typed_callback example_fn example_callback"
  by (simp_all add: registry_wf_def example_registry_def example_callback_def closure_table_wf_def example_table_def
      zero_info_def linked_def dyfn_of_code_def saved_wf_def example_saved_def typed_callback_def)

text \<open>C15: a callback is a call of the registered host function. From the saved registers of the stub to the
  host and back: the host function is applied to exactly the argument bytes the calling convention
  put in the registers and on the stack (any mix of types, up to ten arguments), and its result
  arrives in the register its type is returned in.\<close>

theorem callback_roundtrip:
  assumes "channel_wf ch" "saved_wf sv" "closure_table_wf tbl" "registry_wf reg"
    and "linked reg tbl (sv_stub_index sv) i" "typed_callback fn (callbacks reg ! i)"
    and "pbox_type_size (cb_ret_type (callbacks reg ! i)) \<le>
      length (fst (fn (cb_func_ptr (callbacks reg ! i))
        (saved_args a (take (nat (cb_nargs (callbacks reg ! i))) (cb_arg_types (callbacks reg ! i))) sv) h))"
  shows "\<exists>ch1 ch2. closure_dispatch_request a tbl sv ch = Some ch1 \<and> ch_state ch1 = PBOX_STATE_CALLBACK \<and>
    pbox_dispatch_callback reg ch1 h = Some (False, ch2,
      snd (fn (cb_func_ptr (callbacks reg ! i))
        (saved_args a (take (nat (cb_nargs (callbacks reg ! i))) (cb_arg_types (callbacks reg ! i))) sv) h)) \<and>
    closure_dispatch_result tbl sv (ch2\<lparr>ch_state := PBOX_STATE_REQUEST\<rparr>) junk =
      Some (stub_result junk (cb_ret_type (callbacks reg ! i))
        (fst (fn (cb_func_ptr (callbacks reg ! i))
          (saved_args a (take (nat (cb_nargs (callbacks reg ! i))) (cb_arg_types (callbacks reg ! i))) sv) h)))"
  using callback_step [OF assms(1-5) refl assms(6) prod.collapse [symmetric] assms(7), of junk thesis for thesis]
  by blast

theorem callback_roundtrip_witness:
  "\<exists>ch1 ch2. closure_dispatch_request X86_64 example_table (example_saved 41) zero_channel = Some ch1 \<and>
     pbox_dispatch_callback example_registry ch1 0 = Some (False, ch2, 1)"
proof -
  have cb: "callbacks example_registry ! 0 = example_callback" by (simp add: example_registry_def)
  have idx: "sv_stub_index (example_saved 41) = 0" by (simp add: example_saved_def)
  have snd: "snd (example_fn fp vs 0) = 1" for fp vs by (simp add: example_fn_def)
  have len: "pbox_type_size (cb_ret_type example_callback) \<le> length (fst (example_fn fp vs 0))" for fp vs
    by (simp add: example_fn_def example_callback_def)
  show ?thesis
    using callback_roundtrip [OF zero_channel_wf example_tables(4,2,1), of 41 0 example_fn X86_64 0
        "\<lparr>cr_int_val = 0, cr_float_val = 0, cr_ret_class = DYFN_CLASS_INT\<rparr>"] example_tables(3,5)
    by (auto simp: idx cb snd len)
qed

lemma read_callback_args_None:
  assumes "length offs = length szs" "i < length szs" "length storage < unat (offs ! i) + szs ! i"
  shows "read_callback_args storage offs szs = None"
  using assms
proof (induction offs szs arbitrary: i rule: list_induct2)
  case (Cons off offs sz szs)
  then show ?case by (cases i) (auto simp: read_callback_arg_def)
qed simp

text \<open>C20: what the host does with a channel whose contents the sandbox chose. An identifier that names no
  published callback is ignored. If an argument offset is not below the size of \<open>arg_storage\<close> the
  sandbox is killed and the host function is not called. Otherwise, if every argument ends inside
  \<open>arg_storage\<close>, the host function is applied to exactly the bytes found there, and \<open>result_storage\<close> is all that
  changes in the channel. But the check bounds where an argument starts, not where it ends:
  if one starts inside and ends outside, the host reads past the array (undefined, \<open>None\<close>), which the
  comment above the check says it prevents.\<close>

theorem dispatch_callback_untrusted:
  fixes reg :: "'h callback_registry"
  assumes wf: "channel_wf ch" and reg: "registry_wf reg"
    and cbs: "\<forall>i<callback_count reg. typed_callback fn (callbacks reg ! i) \<and>
       0 \<le> cb_nargs (callbacks reg ! i) \<and> cb_nargs (callbacks reg ! i) \<le> 10 \<and>
       (\<forall>vs h. pbox_type_size (cb_ret_type (callbacks reg ! i)) \<le> length (fst (fn (cb_func_ptr (callbacks reg ! i)) vs h)))"
  defines "cb \<equiv> callbacks reg ! nat (callback_id ch)"
  defines "n \<equiv> nat (cb_nargs cb)" and "off \<equiv> \<lambda>k. unat (args ch ! k)" and "sz \<equiv> \<lambda>k. pbox_type_size (cb_arg_types cb ! k)"
  shows "pbox_dispatch_callback reg ch h =
    (if callback_id ch < 0 \<or> callback_id ch \<ge> int (callback_count reg) then Some (False, ch, h)
     else if \<exists>k<n. off k \<ge> PBOX_ARG_STORAGE then Some (True, ch, h)
     else if \<exists>k<n. off k + sz k > PBOX_ARG_STORAGE then None
     else
       let (r, h') = fn (cb_func_ptr cb) (map (\<lambda>k. bytes_at (arg_storage ch) (off k) (sz k)) [0..<n]) h
       in Some (False, ch\<lparr>result_storage := (if cb_ret_type cb = PBOX_TYPE_VOID then result_storage ch
            else blit (result_storage ch) 0 (take (pbox_type_size (cb_ret_type cb)) r))\<rparr>, h'))"
proof (cases "callback_id ch < 0 \<or> callback_id ch \<ge> int (callback_count reg)")
  case False
  let ?offs = "take n (args ch)" and ?szs = "map pbox_type_size (take n (cb_arg_types cb))"
  have i: "nat (callback_id ch) < callback_count reg" using False by linarith
  have ok: "typed_callback fn cb" "n \<le> 10" "\<And>vs h. pbox_type_size (cb_ret_type cb) \<le> length (fst (fn (cb_func_ptr cb) vs h))"
    using cbs i by (auto simp: cb_def n_def)
  have len: "length ?offs = n" "length ?szs = n" "length (arg_storage ch) = 1024" "length (result_storage ch) = 32"
    using wf reg i ok(2) by (simp_all add: channel_wf_def registry_wf_def cb_def)
  have nth: "k < n \<Longrightarrow> unat (?offs ! k) = off k" "k < n \<Longrightarrow> ?szs ! k = sz k" for k
    using len(1,2) by (simp_all add: off_def sz_def)
  have bad: "list_ex (\<lambda>x. unat x \<ge> 1024) ?offs \<longleftrightarrow> (\<exists>k<n. off k \<ge> 1024)"
    unfolding list_ex_length len(1) using nth(1) by auto
  let ?read = "read_callback_args (arg_storage ch) ?offs ?szs"
  have past: "?read = None" if ex: "\<exists>k<n. off k + sz k > 1024"
  proof -
    obtain k where k: "k < n" "off k + sz k > 1024" using ex by blast
    show ?thesis
      by (rule read_callback_args_None [where i = k]) (use k len nth in simp_all)
  qed
  have within: "?read = Some (map (\<lambda>k. bytes_at (arg_storage ch) (off k) (sz k)) [0..<n])" if all: "\<not> (\<exists>k<n. off k + sz k > 1024)"
  proof -
    have "?read = Some (map (\<lambda>k. bytes_at (arg_storage ch) (unat (?offs ! k)) (?szs ! k)) [0..<length ?szs])"
    proof (rule read_callback_args_Some)
      show "length ?offs = length ?szs" by (simp only: len)
      show "unat (?offs ! k) + ?szs ! k \<le> length (arg_storage ch)" if "k < length ?szs" for k
        using that all unfolding len nth [OF that [unfolded len]] by (meson not_less)
    qed
    then show ?thesis unfolding len by (simp only: nth cong: map_cong) (auto simp: nth intro!: map_cong simp del: nth_take nth_map)
  qed
  have sz8: "pbox_type_size (cb_ret_type cb) \<le> 32" using pbox_type_size_le_8 [of "cb_ret_type cb"] by linarith
  have disp: "cb_dispatch cb (cb_func_ptr cb) (arg_storage ch) ?offs (result_storage ch) h =
    (case ?read of None \<Rightarrow> None | Some vs \<Rightarrow>
       let (r, h') = fn (cb_func_ptr cb) vs h in Some (if cb_ret_type cb = PBOX_TYPE_VOID then result_storage ch
            else blit (result_storage ch) 0 (take (pbox_type_size (cb_ret_type cb)) r), h'))"
    using ok(1) ok(3) [of _ h] len(4) sz8
    by (auto simp: typed_callback_def callback_dispatch_def memcpy_to_def n_def split: option.split prod.split) (metis fst_conv)
  have "pbox_dispatch_callback reg ch h =
    (if \<exists>k<n. off k \<ge> 1024 then Some (True, ch, h)
     else case cb_dispatch cb (cb_func_ptr cb) (arg_storage ch) ?offs (result_storage ch) h of
       None \<Rightarrow> None | Some (res, h') \<Rightarrow> Some (False, ch\<lparr>result_storage := res\<rparr>, h'))"
    using False bad by (auto simp: pbox_dispatch_callback_def Let_def simp flip: cb_def n_def)
  then show ?thesis using False past within by (auto simp: disp split: prod.split)
qed (auto simp: pbox_dispatch_callback_def)

lemma example_registry_ok:
  "\<forall>i<callback_count example_registry. typed_callback example_fn (callbacks example_registry ! i) \<and>
       0 \<le> cb_nargs (callbacks example_registry ! i) \<and> cb_nargs (callbacks example_registry ! i) \<le> 10 \<and>
       (\<forall>vs h. pbox_type_size (cb_ret_type (callbacks example_registry ! i)) \<le>
         length (fst (example_fn (cb_func_ptr (callbacks example_registry ! i)) vs h)))"
  using example_tables(5) by (simp add: example_registry_def example_callback_def example_fn_def)

theorem dispatch_callback_untrusted_witness:
  "pbox_dispatch_callback example_registry (zero_channel\<lparr>args := replicate 10 5000\<rparr>) 0 = Some (True, zero_channel\<lparr>args := replicate 10 5000\<rparr>, 0) \<and>
   pbox_dispatch_callback example_registry (zero_channel\<lparr>args := replicate 10 1020\<rparr>) 0 = None"
proof -
  have "channel_wf (zero_channel\<lparr>args := replicate 10 x\<rparr>)" for x by (simp add: channel_wf_def zero_channel_def)
  note untrusted = dispatch_callback_untrusted [OF this example_tables(1) example_registry_ok, of _ 0]
  show ?thesis
    unfolding untrusted by (simp add: zero_channel_def example_registry_def example_callback_def)
qed

end
