(* ===== verification/Sandbox.thy ===== *)
theory Sandbox
  imports Callbacks
begin

text \<open>
  The sandbox process (\<open>src/pbox/pbox_sandbox.c\<close>): the dispatch loop of a thread, the requests it
  serves, and its descriptor table. The code of the sandboxed library, the dynamic linker and the
  sandbox's kernel are not part of the repository: they are the fields of \<open>sandbox_env\<close>.

  A library function is a resumption: it returns, or calls a closure stub and goes on with the
  stub's result, or dies (a fault, a failed \<open>assert\<close>, a system call the filter kills). A thread
  runs until it hands the channel to the host, so \<open>sandbox_run\<close> is one turn of the sandbox.
\<close>

section \<open>The process and its environment\<close>

text \<open>
  Open file descriptions: the memory of a channel, a block of shared memory, anything else the
  host has open, and the two ends of the socket pair.
\<close>

datatype open_file = ChanShm nat | SharedMem nat | HostFile nat | SockEnd bool

text \<open>
  \<open>pr_window\<close> is the calling thread's view of \<open>mem_storage\<close>, which library code (\<open>memcpy\<close>) reads and
  writes during a copy; \<open>pr_mem\<close> is all the rest of the memory.
\<close>

record 'm proc =
  pr_mem :: 'm
  pr_fds :: "int \<Rightarrow> open_file option"
  pr_window :: "byte list"

datatype 's lib_run =
    LibReturns DyfnCallResult 's
  | LibCallback DyfnClosureSavedRegs "DyfnClosureResult \<Rightarrow> 's lib_run"
  | LibDies

text \<open>
  What happens when a thread maps a file as a channel: \<open>mmap\<close> fails (a socket, a file that is not open for
  writing), the file is mapped, or it is mapped and its pages cannot be written (a file that is too
  short), which kills the process with \<open>SIGBUS\<close>.
\<close>

datatype file_mapping = NotMapped | Mapped | Faults

text \<open>
  \<open>e_spawn_ok\<close>: \<open>pthread_create\<close> succeeds; \<open>e_map_file\<close>: a thread's \<open>mmap\<close> of an open file; \<open>e_filter_ok\<close>: the
  worker's filter can be installed.
\<close>

record 'm sandbox_env =
  e_arch :: arch
  e_stubs :: "nat \<Rightarrow> u64"
  e_lib :: "DyfnCallArgs \<Rightarrow> 'm proc \<Rightarrow> 'm proc lib_run"
  e_dlsym :: "byte list \<Rightarrow> u64"
  e_new_fd :: "(int \<Rightarrow> open_file option) \<Rightarrow> int"
  e_spawn_ok :: bool
  e_map_file :: "open_file \<Rightarrow> file_mapping"
  e_filter_ok :: bool
  e_chan_addr :: "nat \<Rightarrow> u64"
  e_junk :: DyfnClosureResult

text \<open>
  Where a sandbox thread stands: its top-level wait, or inside a closure stub waiting for the host;
  a channel without a thread (none yet, or gone after \<open>EXIT\<close>) is \<open>NoWorker\<close>.
\<close>

datatype 's worker = NoWorker | AtLoop | InCallback DyfnClosureSavedRegs "DyfnClosureResult \<Rightarrow> 's lib_run"

text \<open>
  The shared world as the sandbox sees it: the channels by number (0 is the control channel), the
  threads that serve them with their thread-local closure tables, the process, the stream socket
  (descriptors in flight) and whether the process is alive.
\<close>

record 'm sandbox =
  sb_chan :: "nat \<Rightarrow> PBoxChannel"
  sb_worker :: "nat \<Rightarrow> 'm proc worker"
  sb_table :: "nat \<Rightarrow> closure_table"
  sb_proc :: "'m proc"
  sb_sock :: "open_file list"
  sb_alive :: bool

abbreviation put_chan :: "nat \<Rightarrow> PBoxChannel \<Rightarrow> ('m, 'z) sandbox_scheme \<Rightarrow> ('m, 'z) sandbox_scheme" where
  "put_chan i c w \<equiv> w\<lparr>sb_chan := (sb_chan w)(i := c)\<rparr>"

text \<open>The death of the process, seen by the watcher thread: only the control channel is marked.\<close>

definition sandbox_dies :: "('m, 'z) sandbox_scheme \<Rightarrow> ('m, 'z) sandbox_scheme" where
  "sandbox_dies w = put_chan 0 ((sb_chan w 0)\<lparr>ch_state := PBOX_STATE_DEAD\<rparr>) (w\<lparr>sb_alive := False\<rparr>)"

definition or_dies :: "('m, 'z) sandbox_scheme \<Rightarrow> ('m, 'z) sandbox_scheme option \<Rightarrow> ('m, 'z) sandbox_scheme" where
  "or_dies w r = (case r of None \<Rightarrow> sandbox_dies w | Some w' \<Rightarrow> w')"

section \<open>Requests\<close>

text \<open>\<open>pbox_set_state(&ch->state, PBOX_STATE_RESPONSE)\<close> at the end of a request.\<close>

definition respond :: "nat \<Rightarrow> PBoxChannel \<Rightarrow> ('m, 'z) sandbox_scheme \<Rightarrow> ('m, 'z) sandbox_scheme" where
  "respond i c w = put_chan i (c\<lparr>ch_state := PBOX_STATE_RESPONSE\<rparr>) w"

text \<open>
  Library code runs on thread \<open>i\<close> until it needs the host or is done. When it returns, the rest
  of \<open>do_ffi_call\<close> stores the result; when it calls a stub, \<open>dyfn_closure_dispatch\<close> posts the callback.
\<close>

definition run_lib :: "'m sandbox_env \<Rightarrow> nat \<Rightarrow> 'm proc lib_run \<Rightarrow> ('m, 'z) sandbox_scheme \<Rightarrow> ('m, 'z) sandbox_scheme" where
  "run_lib e i run w =
     (case run of
        LibReturns r p \<Rightarrow>
          or_dies w (map_option
            (\<lambda>c. respond i (c\<lparr>mem_storage := pr_window p\<rparr>)
                   (w\<lparr>sb_proc := p, sb_worker := (sb_worker w)(i := AtLoop)\<rparr>))
            (do_ffi_finish r (sb_chan w i)))
      | LibCallback sv k \<Rightarrow>
          or_dies w (map_option
            (\<lambda>c. put_chan i c (w\<lparr>sb_worker := (sb_worker w)(i := InCallback sv k)\<rparr>))
            (closure_dispatch_request (e_arch e) (sb_table w i) sv (sb_chan w i)))
      | LibDies \<Rightarrow> sandbox_dies w)"

text \<open>\<open>PBOX_REQ_CALL\<close>: \<open>do_ffi_call\<close> up to \<open>dyfn_call\<close>, then the callee.\<close>

definition serve_call :: "'m sandbox_env \<Rightarrow> nat \<Rightarrow> ('m, 'z) sandbox_scheme \<Rightarrow> ('m, 'z) sandbox_scheme" where
  "serve_call e i w =
     (case do_ffi_prepare (e_arch e) (sb_chan w i) of
        None \<Rightarrow> sandbox_dies w
      | Some call \<Rightarrow> run_lib e i (e_lib e call ((sb_proc w)\<lparr>pr_window := mem_storage (sb_chan w i)\<rparr>)) w)"

text \<open>\<open>PBOX_REQ_DLSYM\<close>; the name is terminated before it is used.\<close>

definition c_string :: "byte list \<Rightarrow> byte list" where
  "c_string bs = takeWhile (\<lambda>b. b \<noteq> 0) bs"

definition serve_dlsym :: "'m sandbox_env \<Rightarrow> nat \<Rightarrow> ('m, 'z) sandbox_scheme \<Rightarrow> ('m, 'z) sandbox_scheme" where
  "serve_dlsym e i w =
     (let c = sb_chan w i;
          name = (symbol_name c)[PBOX_MAX_SYMBOL_NAME - 1 := 0]
      in respond i (c\<lparr>symbol_name := name, symbol_addr := e_dlsym e (c_string name)\<rparr>) w)"

text \<open>
  \<open>recv_fd\<close>: \<open>recvmsg\<close> takes the next message of the stream socket; \<open>None\<close> when there is none (the
  thread stays blocked). When the kernel cannot install the descriptor the control message is
  missing and the result is \<open>-1\<close>.
\<close>

definition recv_fd :: "'m sandbox_env \<Rightarrow> ('m, 'z) sandbox_scheme \<Rightarrow> (int \<times> ('m, 'z) sandbox_scheme) option" where
  "recv_fd e w =
     (case sb_sock w of
        [] \<Rightarrow> None
      | f # fs \<Rightarrow>
          let n = e_new_fd e (pr_fds (sb_proc w)); w' = w\<lparr>sb_sock := fs\<rparr> in
          if n < 0 then Some (- 1, w')
          else Some (n, w'\<lparr>sb_proc := (sb_proc w)\<lparr>pr_fds := (pr_fds (sb_proc w))(n \<mapsto> f)\<rparr>\<rparr>))"

definition serve_recv_fd :: "'m sandbox_env \<Rightarrow> nat \<Rightarrow> ('m, 'z) sandbox_scheme \<Rightarrow> ('m, 'z) sandbox_scheme" where
  "serve_recv_fd e i w =
     (case recv_fd e w of
        None \<Rightarrow> w
      | Some (n, w') \<Rightarrow> respond i ((sb_chan w i)\<lparr>received_fd := n\<rparr>) w')"

text \<open>Publishing the address of a mapped channel and entering the loop, which clears the thread's closure table.\<close>

definition start_worker :: "'m sandbox_env \<Rightarrow> nat \<Rightarrow> ('m, 'z) sandbox_scheme \<Rightarrow> ('m, 'z) sandbox_scheme" where
  "start_worker e j w =
     put_chan j ((sb_chan w j)\<lparr>sandbox_channel_addr := e_chan_addr e j\<rparr>)
       (w\<lparr>sb_worker := (sb_worker w)(j := AtLoop),
          sb_table := (sb_table w)(j := dyfn_closure_free_all fresh_table)\<rparr>)"

text \<open>
  \<open>worker_thread_fn\<close> up to its loop: map the file behind the descriptor, close the descriptor, install the
  filter, publish the address. Nothing checks that the file is a channel. A thread on any other file
  that can be mapped stores its address into it and waits there, where no host thread posts a
  request; the contents of such files are not modelled.
\<close>

definition worker_thread_fn :: "'m sandbox_env \<Rightarrow> int \<Rightarrow> ('m, 'z) sandbox_scheme \<Rightarrow> ('m, 'z) sandbox_scheme" where
  "worker_thread_fn e shm_fd w =
     (case pr_fds (sb_proc w) shm_fd of
        None \<Rightarrow> w
      | Some f \<Rightarrow>
          if e_map_file e f = NotMapped then w
          else
            let w1 = w\<lparr>sb_proc := (sb_proc w)\<lparr>pr_fds := (pr_fds (sb_proc w))(shm_fd := None)\<rparr>\<rparr> in
            if \<not> e_filter_ok e then w1
            else if e_map_file e f = Faults then sandbox_dies w1
            else (case f of ChanShm j \<Rightarrow> start_worker e j w1 | _ \<Rightarrow> w1))"

text \<open>A thread that cannot be created is not reported.\<close>

definition pbox_spawn_worker :: "'m sandbox_env \<Rightarrow> int \<Rightarrow> ('m, 'z) sandbox_scheme \<Rightarrow> ('m, 'z) sandbox_scheme" where
  "pbox_spawn_worker e shm_fd w = (if e_spawn_ok e then worker_thread_fn e shm_fd w else w)"

text \<open>
  \<open>PBOX_REQ_SPAWN_WORKER\<close>. The new thread runs beside the control thread; it is taken to reach its loop
  before the response is read, and when it kills the process no response is.
\<close>

definition serve_spawn_worker :: "'m sandbox_env \<Rightarrow> nat \<Rightarrow> ('m, 'z) sandbox_scheme \<Rightarrow> ('m, 'z) sandbox_scheme" where
  "serve_spawn_worker e i w =
     (let w' = (if i = 0 then pbox_spawn_worker e (worker_shm_fd (sb_chan w i)) w else w)
      in if sb_alive w' then respond i (sb_chan w' i) w' else w')"

text \<open>\<open>PBOX_REQ_CREATE_CLOSURE\<close>: a slot of the serving thread's own table.\<close>

definition serve_create_closure :: "'m sandbox_env \<Rightarrow> nat \<Rightarrow> ('m, 'z) sandbox_scheme \<Rightarrow> ('m, 'z) sandbox_scheme" where
  "serve_create_closure e i w =
     (let c = sb_chan w i in
      case dyfn_closure_alloc (e_stubs e) (closure_callback_id c) (dyfn_of_code (closure_ret_type c))
             (closure_nargs c) (map dyfn_of_code (closure_arg_types c)) (sb_table w i) of
        None \<Rightarrow> sandbox_dies w
      | Some (stub, tbl) \<Rightarrow> respond i (c\<lparr>closure_addr := stub\<rparr>) (w\<lparr>sb_table := (sb_table w)(i := tbl)\<rparr>))"

section \<open>One turn of a sandbox thread\<close>

text \<open>
  A thread at the top of \<open>dispatch_loop\<close> serves a request or leaves on \<open>EXIT\<close>; a thread inside a stub
  goes on when the state is \<open>REQUEST\<close>, whatever the request fields say. In every other state, and when
  the process is dead, nothing happens.
\<close>

definition dispatch_request :: "'m sandbox_env \<Rightarrow> nat \<Rightarrow> ('m, 'z) sandbox_scheme \<Rightarrow> ('m, 'z) sandbox_scheme" where
  "dispatch_request e i w =
     (let t = request_type (sb_chan w i) in
      if t = PBOX_REQ_DLSYM then serve_dlsym e i w
      else if t = PBOX_REQ_CALL then serve_call e i w
      else if t = PBOX_REQ_RECV_FD then serve_recv_fd e i w
      else if t = PBOX_REQ_SPAWN_WORKER then serve_spawn_worker e i w
      else if t = PBOX_REQ_CREATE_CLOSURE then serve_create_closure e i w
      else sandbox_dies w)"

definition sandbox_run :: "'m sandbox_env \<Rightarrow> nat \<Rightarrow> ('m, 'z) sandbox_scheme \<Rightarrow> ('m, 'z) sandbox_scheme" where
  "sandbox_run e i w =
     (if \<not> sb_alive w then w
      else case sb_worker w i of
        NoWorker \<Rightarrow> w
      | AtLoop \<Rightarrow>
          if ch_state (sb_chan w i) = PBOX_STATE_REQUEST then dispatch_request e i w
          else if ch_state (sb_chan w i) = PBOX_STATE_EXIT
          then w\<lparr>sb_worker := (sb_worker w)(i := NoWorker),
                 sb_table := (sb_table w)(i := dyfn_closure_free_all (sb_table w i))\<rparr>
          else w
      | InCallback sv k \<Rightarrow>
          if ch_state (sb_chan w i) = PBOX_STATE_REQUEST
          then (case closure_dispatch_result (sb_table w i) sv (sb_chan w i) (e_junk e) of
                  None \<Rightarrow> sandbox_dies w
                | Some r \<Rightarrow> run_lib e i (k r) w)
          else w)"

section \<open>What a turn leaves alone\<close>

text \<open>The fields a record adds to \<open>sandbox\<close> (the host's) are not the sandbox's to change.\<close>

lemma more_simps [simp]:
  "sandbox.more (sandbox_dies w) = sandbox.more w"
  "sandbox.more (respond i c w) = sandbox.more w"
  "sandbox.more (start_worker e j w) = sandbox.more w"
  by (simp_all add: sandbox_dies_def respond_def start_worker_def)

lemma more_run_lib [simp]: "sandbox.more (run_lib e i run w) = sandbox.more w"
  by (cases run) (auto simp: run_lib_def or_dies_def split: option.splits)

lemma more_sandbox_run [simp]: "sandbox.more (sandbox_run e i w) = sandbox.more w"
proof -
  have "sandbox.more (serve_call e i w) = sandbox.more w" by (simp add: serve_call_def split: option.splits)
  moreover have "sandbox.more (serve_dlsym e i w) = sandbox.more w" by (simp add: serve_dlsym_def Let_def)
  moreover have "sandbox.more (serve_recv_fd e i w) = sandbox.more w"
    by (auto simp: serve_recv_fd_def recv_fd_def Let_def split: option.splits list.splits)
  moreover have "sandbox.more (serve_spawn_worker e i w) = sandbox.more w"
    by (auto simp: serve_spawn_worker_def pbox_spawn_worker_def worker_thread_fn_def Let_def split: option.splits open_file.splits)
  moreover have "sandbox.more (serve_create_closure e i w) = sandbox.more w"
    by (auto simp: serve_create_closure_def Let_def split: option.splits)
  ultimately have "sandbox.more (dispatch_request e i w) = sandbox.more w"
    by (simp add: dispatch_request_def Let_def)
  then show ?thesis by (auto simp: sandbox_run_def split: worker.splits option.splits)
qed

text \<open>Nor does a dead process come back.\<close>

lemma alive_run_lib: "sb_alive (run_lib e i run w) \<Longrightarrow> sb_alive w"
  by (cases run) (auto simp: run_lib_def or_dies_def sandbox_dies_def respond_def split: option.splits)

end
