(* ===== verification/FdCache.thy ===== *)
theory FdCache
  imports Prelude
begin

text \<open>
  The host's cache of file descriptors already sent to the sandbox (\<open>pbox_cache_fd\<close>,
  \<open>pbox_lookup_fd\<close>, \<open>pbox_uncache_fd\<close> in \<open>src/pbox/pbox.c\<close>): a direct table for host descriptors
  below 128 and a growing vector for the others. Both static helpers are called with a host
  descriptor that \<open>pbox_send_fd\<close> has checked to be non-negative, so it is a \<open>nat\<close> here. The cache
  is proved to implement a finite map, through the interface \<open>fd_table\<close>.
\<close>

section \<open>Interface\<close>

text \<open>
  What the clients (\<open>pbox_send_fd\<close>, \<open>pbox_close\<close>) rely on. \<open>look t h\<close> is the sandbox descriptor of
  \<open>h\<close>; entering a pair needs an absent key, and may be declined (an allocation failure).
\<close>

text \<open>What a client does to a table: hosts' sends (with the descriptor the sandbox reports) and closes.\<close>

datatype fd_op = Sent nat int | Closed int

fun fd_run :: "('t \<Rightarrow> nat \<Rightarrow> int option) \<Rightarrow> ('t \<Rightarrow> nat \<Rightarrow> int \<Rightarrow> 't) \<Rightarrow> ('t \<Rightarrow> int \<Rightarrow> 't) \<Rightarrow>
    fd_op list \<Rightarrow> 't \<Rightarrow> 't" where
  "fd_run look add drop_fd [] t = t"
| "fd_run look add drop_fd (Sent h s # ops) t =
     fd_run look add drop_fd ops (if look t h = None then add t h s else t)"
| "fd_run look add drop_fd (Closed s # ops) t = fd_run look add drop_fd ops (drop_fd t s)"

text \<open>The same on a finite map, which is the specification.\<close>

abbreviation fd_spec_run :: "fd_op list \<Rightarrow> (nat \<Rightarrow> int option) \<Rightarrow> nat \<Rightarrow> int option" where
  "fd_spec_run \<equiv> fd_run (\<lambda>m. m) (\<lambda>m h s. m(h \<mapsto> s)) (\<lambda>m s h. if m h = Some s then None else m h)"

text \<open>A freshly received descriptor is one the map does not hold: the kernel hands out free numbers.\<close>

fun fd_legal :: "fd_op list \<Rightarrow> (nat \<Rightarrow> int option) \<Rightarrow> bool" where
  "fd_legal [] m \<longleftrightarrow> True"
| "fd_legal (Sent h s # ops) m \<longleftrightarrow>
     (if m h = None then 0 \<le> s \<and> Some s \<notin> range m \<and> fd_legal ops (m(h \<mapsto> s)) else fd_legal ops m)"
| "fd_legal (Closed s # ops) m \<longleftrightarrow> 0 \<le> s \<and> fd_legal ops (\<lambda>h. if m h = Some s then None else m h)"

locale fd_table =
  fixes look :: "'t \<Rightarrow> nat \<Rightarrow> int option"
    and add :: "bool \<Rightarrow> 't \<Rightarrow> nat \<Rightarrow> int \<Rightarrow> 't"
    and drop_fd :: "'t \<Rightarrow> int \<Rightarrow> 't"
    and wf :: "'t \<Rightarrow> bool"
  assumes wf_add: "wf t \<Longrightarrow> look t h = None \<Longrightarrow> 0 \<le> s \<Longrightarrow> wf (add ok t h s)"
    and wf_drop: "wf t \<Longrightarrow> 0 \<le> s \<Longrightarrow> wf (drop_fd t s)"
    and look_add: "wf t \<Longrightarrow> look t h = None \<Longrightarrow> 0 \<le> s \<Longrightarrow>
      look (add ok t h s) = (look t)(h \<mapsto> s) \<or> \<not> ok \<and> look (add ok t h s) = look t"
    and look_nonneg: "wf t \<Longrightarrow> look t h = Some s \<Longrightarrow> 0 \<le> s"
    and look_drop: "wf t \<Longrightarrow> 0 \<le> s \<Longrightarrow> inj_on (look t) (dom (look t)) \<Longrightarrow>
      look (drop_fd t s) = (\<lambda>h. if look t h = Some s then None else look t h)"
begin

lemma add_hit: "wf t \<Longrightarrow> look t h = None \<Longrightarrow> 0 \<le> s \<Longrightarrow> look (add True t h s) h = Some s"
  using look_add [of t h s True] by auto

lemma add_frame: "wf t \<Longrightarrow> look t h = None \<Longrightarrow> 0 \<le> s \<Longrightarrow> k \<noteq> h \<Longrightarrow> look (add ok t h s) k = look t k"
  using look_add [of t h s ok] by auto

lemma drop_miss:
  "wf t \<Longrightarrow> 0 \<le> s \<Longrightarrow> inj_on (look t) (dom (look t)) \<Longrightarrow> Some s \<notin> range (look (drop_fd t s))"
  using look_drop [of t s] by (auto split: if_splits)

lemma inj_add:
  assumes "wf t" "look t h = None" "0 \<le> s" "Some s \<notin> range (look t)" "inj_on (look t) (dom (look t))"
  shows "inj_on (look (add ok t h s)) (dom (look (add ok t h s)))"
proof -
  have "inj_on ((look t)(h \<mapsto> s)) (dom ((look t)(h \<mapsto> s)))"
    using assms(2,4,5) by (auto simp: inj_on_def dom_def image_iff) (metis rangeI)+
  then show ?thesis using look_add [OF assms(1-3), of ok] assms(5) by auto
qed

lemma inj_drop:
  assumes "wf t" "0 \<le> s" "inj_on (look t) (dom (look t))"
  shows "inj_on (look (drop_fd t s)) (dom (look (drop_fd t s)))"
  using look_drop [OF assms] assms(3) by (auto simp: inj_on_def dom_def split: if_splits)

text \<open>Adding a pair whose sandbox descriptor is new, then dropping it, leaves the map as it was.\<close>

lemma add_drop:
  assumes "wf t" "look t h = None" "0 \<le> s" "Some s \<notin> range (look t)" "inj_on (look t) (dom (look t))"
  shows "look (drop_fd (add ok t h s) s) = look t"
proof
  fix k
  have "look (drop_fd (add ok t h s) s) k =
      (if look (add ok t h s) k = Some s then None else look (add ok t h s) k)"
    using look_drop [OF wf_add [OF assms(1-3)] assms(3) inj_add [OF assms]] by simp
  moreover have "look t k \<noteq> Some s" using assms(4) by (metis rangeI)
  ultimately show "look (drop_fd (add ok t h s) s) k = look t k"
    using look_add [OF assms(1-3), of ok] assms(2) by (auto split: if_splits)
qed

text \<open>A table simulates the map through any legal history.\<close>

lemma run_refines:
  assumes "wf t" "inj_on (look t) (dom (look t))" "fd_legal ops (look t)"
  shows "wf (fd_run look (add True) drop_fd ops t) \<and>
    look (fd_run look (add True) drop_fd ops t) = fd_spec_run ops (look t)"
  using assms
proof (induction ops arbitrary: t)
  case Nil
  then show ?case by simp
next
  case (Cons op ops)
  show ?case
  proof (cases op)
    case (Sent h s)
    show ?thesis
    proof (cases "look t h = None")
      case True
      with Cons.prems Sent have s: "0 \<le> s" "Some s \<notin> range (look t)" and l: "fd_legal ops ((look t)(h \<mapsto> s))" by auto
      have a: "look (add True t h s) = (look t)(h \<mapsto> s)" using look_add [OF Cons.prems(1) True s(1), of True] by simp
      have "wf (add True t h s)" using wf_add [OF Cons.prems(1) True s(1)] .
      moreover have "inj_on (look (add True t h s)) (dom (look (add True t h s)))"
        using inj_add [OF Cons.prems(1) True s Cons.prems(2)] .
      moreover have "fd_legal ops (look (add True t h s))" using l a by simp
      ultimately have ih: "wf (fd_run look (add True) drop_fd ops (add True t h s)) \<and>
          look (fd_run look (add True) drop_fd ops (add True t h s)) = fd_spec_run ops (look (add True t h s))"
        by (rule Cons.IH)
      show ?thesis unfolding Sent using ih True by (simp only: fd_run.simps if_True a simp_thms)
    next
      case False
      with Cons.prems Sent have "fd_legal ops (look t)" by simp
      from Cons.IH [OF Cons.prems(1,2) this] False show ?thesis
        unfolding Sent by (simp only: fd_run.simps if_False)
    qed
  next
    case (Closed s)
    then have s: "0 \<le> s" using Cons.prems by simp
    note d = look_drop [OF Cons.prems(1) s Cons.prems(2)]
    have "fd_legal ops (look (drop_fd t s))" using Cons.prems Closed by (simp add: d)
    moreover note wf_drop [OF Cons.prems(1) s] inj_drop [OF Cons.prems(1) s Cons.prems(2)]
    ultimately show ?thesis using Cons.IH [of "drop_fd t s"] Closed d by simp
  qed
qed

end

section \<open>The two-level cache\<close>

abbreviation (input) PBOX_FD_DIRECT_MAX :: nat where "PBOX_FD_DIRECT_MAX \<equiv> 128"

text \<open>\<open>fd_overflow\<close> is the used part of the vector, so its length is \<open>fd_overflow_count\<close>.\<close>

record PBoxFdEntry =
  host_fd :: nat
  sandbox_fd :: int

record fd_cache =
  fd_direct :: "int list"
  fd_overflow :: "PBoxFdEntry list"
  fd_overflow_cap :: nat

definition empty_fd_cache :: fd_cache where
  "empty_fd_cache = \<lparr>fd_direct = replicate PBOX_FD_DIRECT_MAX (- 1), fd_overflow = [], fd_overflow_cap = 0\<rparr>"

text \<open>\<open>realloc_ok\<close> is the outcome of the \<open>realloc\<close>, if one is needed.\<close>

definition pbox_cache_fd :: "bool \<Rightarrow> fd_cache \<Rightarrow> nat \<Rightarrow> int \<Rightarrow> fd_cache" where
  "pbox_cache_fd realloc_ok c h s =
     (if h < PBOX_FD_DIRECT_MAX then c\<lparr>fd_direct := (fd_direct c)[h := s]\<rparr>
      else if length (fd_overflow c) \<ge> fd_overflow_cap c then
        (if realloc_ok
         then c\<lparr>fd_overflow_cap := (if fd_overflow_cap c \<noteq> 0 then fd_overflow_cap c * 2 else 8),
                fd_overflow := fd_overflow c @ [\<lparr>host_fd = h, sandbox_fd = s\<rparr>]\<rparr>
         else c)
      else c\<lparr>fd_overflow := fd_overflow c @ [\<lparr>host_fd = h, sandbox_fd = s\<rparr>]\<rparr>)"

definition pbox_lookup_fd :: "fd_cache \<Rightarrow> nat \<Rightarrow> int" where
  "pbox_lookup_fd c h =
     (if h < PBOX_FD_DIRECT_MAX then fd_direct c ! h
      else case scan_from (\<lambda>e. host_fd e = h) 0 (fd_overflow c) of
             Some i \<Rightarrow> sandbox_fd (fd_overflow c ! i)
           | None \<Rightarrow> - 1)"

definition pbox_uncache_fd :: "fd_cache \<Rightarrow> int \<Rightarrow> fd_cache" where
  "pbox_uncache_fd c s =
     (case scan_from (\<lambda>d. d = s) 0 (fd_direct c) of
        Some i \<Rightarrow> c\<lparr>fd_direct := (fd_direct c)[i := - 1]\<rparr>
      | None \<Rightarrow>
          (case scan_from (\<lambda>e. sandbox_fd e = s) 0 (fd_overflow c) of
             Some i \<Rightarrow> c\<lparr>fd_overflow := swap_remove (fd_overflow c) i\<rparr>
           | None \<Rightarrow> c))"

text \<open>The map the cache stands for, and its representation invariant.\<close>

definition fd_map :: "fd_cache \<Rightarrow> nat \<Rightarrow> int option" where
  "fd_map c h = (if pbox_lookup_fd c h \<ge> 0 then Some (pbox_lookup_fd c h) else None)"

definition fd_cache_wf :: "fd_cache \<Rightarrow> bool" where
  "fd_cache_wf c \<longleftrightarrow>
     length (fd_direct c) = PBOX_FD_DIRECT_MAX \<and>
     distinct (map host_fd (fd_overflow c)) \<and>
     (\<forall>e\<in>set (fd_overflow c). PBOX_FD_DIRECT_MAX \<le> host_fd e \<and> 0 \<le> sandbox_fd e) \<and>
     length (fd_overflow c) \<le> fd_overflow_cap c"

lemma empty_fd_cache_wf [simp]: "fd_cache_wf empty_fd_cache"
  by (simp add: fd_cache_wf_def empty_fd_cache_def)

lemma fd_map_empty [simp]: "fd_map empty_fd_cache = Map.empty"
  by (auto simp: fd_map_def pbox_lookup_fd_def empty_fd_cache_def)

text \<open>Above the direct table the cache is the association list of the vector.\<close>

abbreviation fd_pairs :: "PBoxFdEntry list \<Rightarrow> (nat \<times> int) list" where
  "fd_pairs es \<equiv> map (\<lambda>e. (host_fd e, sandbox_fd e)) es"

lemma fst_fd_pairs [simp]: "map fst (fd_pairs es) = map host_fd es"
  by simp

lemma scan_map_of:
  "(case scan_from (\<lambda>e. host_fd e = h) 0 es of Some i \<Rightarrow> Some (sandbox_fd (es ! i)) | None \<Rightarrow> None) =
     map_of (fd_pairs es) h"
proof -
  have "(case scan_from (\<lambda>e. host_fd e = h) k es of Some i \<Rightarrow> Some (sandbox_fd (es ! (i - k))) | None \<Rightarrow> None) =
     map_of (fd_pairs es) h" for k
  proof (induction es arbitrary: k)
    case Nil
    then show ?case by simp
  next
    case (Cons e es)
    have s: "i - k = Suc (i - Suc k)" if "scan_from (\<lambda>e. host_fd e = h) (Suc k) es = Some i" for i
      using scan_from_Some [OF that] by arith
    show ?case using Cons.IH [of "Suc k"] by (auto simp: s split: option.splits)
  qed
  from this [of 0] show ?thesis by (simp only: diff_zero)
qed

lemma fd_map_overflow:
  assumes "fd_cache_wf c" "PBOX_FD_DIRECT_MAX \<le> h"
  shows "fd_map c h = map_of (fd_pairs (fd_overflow c)) h"
proof -
  have "0 \<le> sandbox_fd (fd_overflow c ! i)" if "scan_from (\<lambda>e. host_fd e = h) 0 (fd_overflow c) = Some i" for i
    using scan_0_Some [OF that] assms(1) by (auto simp: fd_cache_wf_def)
  then show ?thesis
    using assms(2) scan_map_of [where h = h and es = "fd_overflow c"]
    by (auto simp: fd_map_def pbox_lookup_fd_def split: option.splits)
qed

lemma fd_map_direct:
  "h < PBOX_FD_DIRECT_MAX \<Longrightarrow> fd_map c h = (if fd_direct c ! h \<ge> 0 then Some (fd_direct c ! h) else None)"
  by (simp add: fd_map_def pbox_lookup_fd_def)

lemma map_of_snoc: "h \<notin> fst ` set ps \<Longrightarrow> map_of (ps @ [(h, s)]) = (map_of ps)(h \<mapsto> s)"
  by (induction ps) auto

lemma fd_map_add:
  assumes wf: "fd_cache_wf c" and new: "fd_map c h = None" and s: "0 \<le> s"
  shows "fd_cache_wf (pbox_cache_fd ok c h s) \<and>
    (fd_map (pbox_cache_fd ok c h s) = (fd_map c)(h \<mapsto> s) \<or>
     \<not> ok \<and> fd_map (pbox_cache_fd ok c h s) = fd_map c)"
proof (cases "h < PBOX_FD_DIRECT_MAX")
  case True
  let ?c = "pbox_cache_fd ok c h s"
  have c: "?c = c\<lparr>fd_direct := (fd_direct c)[h := s]\<rparr>" using True by (simp add: pbox_cache_fd_def)
  have wf': "fd_cache_wf ?c" using wf by (simp add: c fd_cache_wf_def)
  have "fd_map ?c k = ((fd_map c)(h \<mapsto> s)) k" for k
    using True wf s fd_map_overflow [OF wf, of k] fd_map_overflow [OF wf', of k]
    by (cases "k < PBOX_FD_DIRECT_MAX") (auto simp: fd_map_direct c nth_list_update fd_cache_wf_def)
  with wf' show ?thesis by auto
next
  case False
  let ?c = "pbox_cache_fd ok c h s"
  have absent: "h \<notin> host_fd ` set (fd_overflow c)"
    using new fd_map_overflow [OF wf, of h] False by (simp add: map_of_eq_None_iff image_image)
  show ?thesis
  proof (cases "ok \<or> length (fd_overflow c) < fd_overflow_cap c")
    case True
    then have c: "fd_overflow ?c = fd_overflow c @ [\<lparr>host_fd = h, sandbox_fd = s\<rparr>]"
      "fd_direct ?c = fd_direct c" "length (fd_overflow ?c) \<le> fd_overflow_cap ?c"
      using False wf by (auto simp: pbox_cache_fd_def fd_cache_wf_def)
    have wf': "fd_cache_wf ?c" using wf c absent False s by (auto simp: fd_cache_wf_def)
    have "map_of (fd_pairs (fd_overflow ?c)) = (map_of (fd_pairs (fd_overflow c)))(h \<mapsto> s)"
      using map_of_snoc [of h "fd_pairs (fd_overflow c)" s] absent by (simp add: c image_image)
    then have "fd_map ?c k = ((fd_map c)(h \<mapsto> s)) k" for k
      using False fd_map_overflow [OF wf, of k] fd_map_overflow [OF wf', of k]
      by (cases "k < PBOX_FD_DIRECT_MAX") (auto simp: fd_map_direct c(2))
    with wf' show ?thesis by auto
  next
    case no: False
    then have "?c = c" using False by (auto simp: pbox_cache_fd_def)
    with wf no show ?thesis by auto
  qed
qed

text \<open>
  Removing an entry. The scan takes the first entry that holds \<open>s\<close>; when no two host descriptors
  share a sandbox descriptor it is the only one.
\<close>

lemma map_of_swap_remove:
  assumes "distinct (map fst ps)" "i < length ps"
  shows "map_of (swap_remove ps i) k = (if k = fst (ps ! i) then None else map_of ps k)"
proof -
  have d: "distinct ps" using assms(1) by (simp add: distinct_map)
  have set: "set (swap_remove ps i) = set ps - {ps ! i}"
    using assms(2) d by (rule set_swap_remove)
  have dk: "distinct (map fst (swap_remove ps i))"
    using assms by (metis distinct_swap_remove length_map map_swap_remove)
  have only: "fst p \<noteq> fst (ps ! i)" if "p \<in> set ps - {ps ! i}" for p
    using that assms by (metis DiffE eq_key_imp_eq_value nth_mem prod.collapse singletonI)
  show ?thesis
  proof (cases "k = fst (ps ! i)")
    case True
    then have "k \<notin> fst ` set (swap_remove ps i)" unfolding set using only by (metis imageE)
    with True show ?thesis by (simp add: map_of_eq_None_iff)
  next
    case False
    have "map_of (swap_remove ps i) k = Some v \<longleftrightarrow> map_of ps k = Some v" for v
    proof -
      have "map_of (swap_remove ps i) k = Some v \<longleftrightarrow> (k, v) \<in> set (swap_remove ps i)"
        by (rule map_of_eq_Some_iff [OF dk])
      also have "\<dots> \<longleftrightarrow> (k, v) \<in> set ps" using False unfolding set by (cases "ps ! i") auto
      also have "\<dots> \<longleftrightarrow> map_of ps k = Some v" by (rule map_of_eq_Some_iff [OF assms(1), symmetric])
      finally show ?thesis .
    qed
    then have "map_of (swap_remove ps i) k = map_of ps k"
      by (metis not_Some_eq)
    with False show ?thesis by simp
  qed
qed

lemma uncache_cases:
  assumes wf: "fd_cache_wf c" and s: "0 \<le> s"
  obtains
    (direct) i where "i < PBOX_FD_DIRECT_MAX" "fd_direct c ! i = s" "fd_map c i = Some s"
      "pbox_uncache_fd c s = c\<lparr>fd_direct := (fd_direct c)[i := - 1]\<rparr>"
  | (overflow) i where "i < length (fd_overflow c)" "sandbox_fd (fd_overflow c ! i) = s"
      "fd_map c (host_fd (fd_overflow c ! i)) = Some s"
      "pbox_uncache_fd c s = c\<lparr>fd_overflow := swap_remove (fd_overflow c) i\<rparr>"
  | (absent) "Some s \<notin> range (fd_map c)" "pbox_uncache_fd c s = c"
proof (cases "scan_from (\<lambda>d. d = s) 0 (fd_direct c)")
  case (Some i)
  with scan_0_Some [OF Some] wf s show thesis
    by (intro direct [of i]) (auto simp: pbox_uncache_fd_def fd_cache_wf_def fd_map_direct)
next
  case None
  note nd = None
  show thesis
  proof (cases "scan_from (\<lambda>e. sandbox_fd e = s) 0 (fd_overflow c)")
    case (Some i)
    from scan_0_Some [OF Some] have i: "i < length (fd_overflow c)" "sandbox_fd (fd_overflow c ! i) = s" by auto
    have "128 \<le> host_fd (fd_overflow c ! i)" using wf i by (auto simp: fd_cache_wf_def)
    moreover have "map_of (fd_pairs (fd_overflow c)) (host_fd (fd_overflow c ! i)) = Some s"
      using wf i by (intro map_of_is_SomeI) (auto simp: fd_cache_wf_def comp_def)
    ultimately show thesis
      using i nd Some fd_map_overflow [OF wf] by (intro overflow [of i]) (auto simp: pbox_uncache_fd_def)
  next
    case None
    have "fd_map c h \<noteq> Some s" for h
    proof (cases "h < 128")
      case True
      then show ?thesis using nd wf by (auto simp: fd_map_direct scan_from_None fd_cache_wf_def)
    next
      case False
      then show ?thesis
        using None fd_map_overflow [OF wf, of h] by (auto simp: scan_from_None dest!: map_of_SomeD)
    qed
    then have "Some s \<notin> range (fd_map c)" by (metis imageE)
    then show thesis using nd None by (intro absent) (simp_all add: pbox_uncache_fd_def)
  qed
qed

lemma uncache_wf:
  assumes wf: "fd_cache_wf c" and s: "0 \<le> s"
  shows "fd_cache_wf (pbox_uncache_fd c s)"
  using wf s
proof (cases rule: uncache_cases)
  case (overflow i)
  have "set (swap_remove (fd_overflow c) i) \<subseteq> set (fd_overflow c)"
    using mset_swap_remove [OF overflow(1)] by (metis diff_subset_eq_self set_mset_mono set_mset_mset)
  moreover have "distinct (map host_fd (swap_remove (fd_overflow c) i))"
    using wf overflow(1) by (simp add: map_swap_remove distinct_swap_remove fd_cache_wf_def)
  ultimately show ?thesis using wf overflow(4) by (auto simp: fd_cache_wf_def)
qed (use wf in \<open>auto simp: fd_cache_wf_def\<close>)

lemma fd_map_uncache:
  assumes wf: "fd_cache_wf c" and s: "0 \<le> s" and inj: "inj_on (fd_map c) (dom (fd_map c))"
  shows "fd_map (pbox_uncache_fd c s) = (\<lambda>h. if fd_map c h = Some s then None else fd_map c h)"
proof -
  let ?c = "pbox_uncache_fd c s"
  note wf' = uncache_wf [OF wf s]
  have only: "h = k" if "fd_map c h = Some s" "fd_map c k = Some s" for h k
    using inj that by (auto simp: inj_on_def dom_def)
  from wf s show ?thesis
  proof (cases rule: uncache_cases)
    case (direct i)
    have len: "length (fd_direct c) = 128" using wf by (simp add: fd_cache_wf_def)
    have "fd_map ?c h = (if fd_map c h = Some s then None else fd_map c h)" for h
    proof (cases "h < 128")
      case True
      have "fd_map c h = Some s \<longleftrightarrow> h = i" using only direct(3) by blast
      with True len show ?thesis by (auto simp: fd_map_direct direct(4) nth_list_update)
    next
      case False
      then have "fd_map ?c h = fd_map c h"
        using fd_map_overflow [OF wf, of h] fd_map_overflow [OF wf', of h] by (simp add: direct(4))
      moreover have "h \<noteq> i" using False direct(1) by simp
      ultimately show ?thesis using only direct(3) by auto
    qed
    then show ?thesis by blast
  next
    case (overflow i)
    let ?k = "host_fd (fd_overflow c ! i)"
    have k: "128 \<le> ?k" using wf overflow(1) by (auto simp: fd_cache_wf_def)
    have mo: "map_of (swap_remove (fd_pairs (fd_overflow c)) i) h =
        (if h = ?k then None else map_of (fd_pairs (fd_overflow c)) h)" for h
      using map_of_swap_remove [of "fd_pairs (fd_overflow c)" i h] wf overflow(1)
      by (simp add: fd_cache_wf_def comp_def)
    have "fd_map ?c h = (if fd_map c h = Some s then None else fd_map c h)" for h
    proof (cases "h < 128")
      case True
      then have "fd_map ?c h = fd_map c h" by (simp add: fd_map_direct overflow(4))
      moreover have "h \<noteq> ?k" using True k by simp
      ultimately show ?thesis using only overflow(3) by auto
    next
      case False
      then have "fd_map ?c h = (if h = ?k then None else fd_map c h)"
        using fd_map_overflow [OF wf, of h] fd_map_overflow [OF wf', of h] mo [of h]
        by (simp add: overflow(4) map_swap_remove)
      moreover have "fd_map c h = Some s \<longleftrightarrow> h = ?k" using only overflow(3) by blast
      ultimately show ?thesis by simp
    qed
    then show ?thesis by blast
  next
    case absent
    then show ?thesis by (auto simp: image_iff) (metis rangeI)
  qed
qed

section \<open>The cache provides the interface\<close>

interpretation fds: fd_table fd_map pbox_cache_fd pbox_uncache_fd fd_cache_wf
proof unfold_locales
  fix t h s ok
  assume a: "fd_cache_wf t" "fd_map t h = None" "(0::int) \<le> s"
  show "fd_cache_wf (pbox_cache_fd ok t h s)" using fd_map_add [OF a] by blast
  show "fd_map (pbox_cache_fd ok t h s) = (fd_map t)(h \<mapsto> s) \<or>
      \<not> ok \<and> fd_map (pbox_cache_fd ok t h s) = fd_map t" using fd_map_add [OF a] by blast
next
  fix t h s
  assume "fd_map t h = Some s"
  then show "0 \<le> s" by (auto simp: fd_map_def split: if_splits)
qed (auto intro: uncache_wf fd_map_uncache)

section \<open>Properties\<close>

text \<open>C25: the descriptor cache behaves as a finite map from host to sandbox descriptors: through any
  history of sends and closes in which each newly received sandbox descriptor is one that is not
  cached, a lookup answers what the map holds (the direct table, the overflow vector and the
  swap-removal are invisible), and the representation invariant is kept.\<close>

theorem fd_cache_refines_map:
  assumes "fd_legal ops Map.empty"
  shows "fd_map (fd_run fd_map (pbox_cache_fd True) pbox_uncache_fd ops empty_fd_cache) = fd_spec_run ops Map.empty \<and>
    fd_cache_wf (fd_run fd_map (pbox_cache_fd True) pbox_uncache_fd ops empty_fd_cache)"
  using fds.run_refines [of empty_fd_cache ops] assms by (simp add: fd_map_empty)

theorem fd_cache_refines_map_witness:
  "fd_map (fd_run fd_map (pbox_cache_fd True) pbox_uncache_fd
     [Sent 5 7, Sent 300 8, Sent 200 9, Closed 8, Sent 300 10] empty_fd_cache) =
   [5 \<mapsto> 7, 200 \<mapsto> 9, 300 \<mapsto> 10]"
proof -
  have "fd_legal [Sent 5 7, Sent 300 8, Sent 200 9, Closed 8, Sent 300 10] Map.empty"
    by (auto split: if_splits)
  from fd_cache_refines_map [OF this] show ?thesis by (auto simp: fun_eq_iff)
qed

text \<open>a failing \<open>realloc\<close> in \<open>pbox_cache_fd\<close> is harmless: the cache either records the pair or is
  left exactly as it was, and no other lookup changes.\<close>

theorem fd_cache_realloc_failure:
  assumes "fd_cache_wf c" "fd_map c h = None" "0 \<le> s"
  shows "fd_cache_wf (pbox_cache_fd False c h s) \<and>
    (fd_map (pbox_cache_fd False c h s) = (fd_map c)(h \<mapsto> s) \<or> pbox_cache_fd False c h s = c) \<and>
    (h < PBOX_FD_DIRECT_MAX \<or> length (fd_overflow c) < fd_overflow_cap c \<longleftrightarrow>
       fd_map (pbox_cache_fd False c h s) h = Some s)"
proof -
  have "fd_map (pbox_cache_fd False c h s) h = Some s"
    if "h < PBOX_FD_DIRECT_MAX \<or> length (fd_overflow c) < fd_overflow_cap c"
  proof -
    have "pbox_cache_fd False c h s = pbox_cache_fd True c h s"
      using that by (auto simp: pbox_cache_fd_def)
    then show ?thesis using fds.add_hit [OF assms] by simp
  qed
  moreover have "pbox_cache_fd False c h s = c"
    if "\<not> (h < PBOX_FD_DIRECT_MAX \<or> length (fd_overflow c) < fd_overflow_cap c)"
    using that by (auto simp: pbox_cache_fd_def)
  ultimately show ?thesis
    using fd_map_add [OF assms, of False] assms by (metis option.distinct(1))
qed

theorem fd_cache_realloc_failure_witness:
  "pbox_cache_fd False empty_fd_cache 200 7 = empty_fd_cache \<and> fd_cache_wf (pbox_cache_fd False empty_fd_cache 200 7)"
proof -
  have "pbox_cache_fd False empty_fd_cache 200 7 = empty_fd_cache"
    by (simp add: pbox_cache_fd_def empty_fd_cache_def)
  with fd_cache_realloc_failure [of empty_fd_cache 200 7] show ?thesis by simp
qed

end
