(* ===== verification/Idmem.thy ===== *)
theory Idmem
  imports Prelude
begin

text \<open>
  Arena allocation in identity-mapped memory. The process backend's arena is the \<open>idmem_*\<close> part of
  \<open>struct PBoxThreadChannel\<close> with \<open>pbox_idmem_alloc\<close>, \<open>pbox_idmem_reset\<close> and \<open>pbox_in_idmem\<close>
  (\<open>src/pbox/pbox.c\<close>); the passthrough backend's is \<open>PassthroughArena\<close>
  (\<open>include/sbox/passthrough.hh\<close>). Sizes are \<open>size_t\<close>, kept at 64 bits because the bounds checks
  can wrap around. Both arenas are proved to provide the interface \<open>bump_arena\<close>: blocks handed out
  between two resets are disjoint and inside the region, for requests that cannot wrap.
\<close>

section \<open>Interface\<close>

text \<open>A run of allocations: the offsets of the blocks that were granted, with their lengths.\<close>

fun alloc_run :: "('r \<Rightarrow> 's \<Rightarrow> (nat \<times> 's) option) \<Rightarrow> ('r \<Rightarrow> nat) \<Rightarrow> 's \<Rightarrow> 'r list \<Rightarrow> (nat \<times> nat) list" where
  "alloc_run al len s [] = []"
| "alloc_run al len s (r # rs) =
     (case al r s of
        None \<Rightarrow> alloc_run al len s rs
      | Some (off, s') \<Rightarrow> (off, len r) # alloc_run al len s' rs)"

definition disjoint_blocks :: "(nat \<times> nat) list \<Rightarrow> bool" where
  "disjoint_blocks bs \<longleftrightarrow>
     (\<forall>i j. i < j \<and> j < length bs \<longrightarrow> fst (bs ! i) + snd (bs ! i) \<le> fst (bs ! j))"

locale bump_arena =
  fixes al :: "'r \<Rightarrow> 's \<Rightarrow> (nat \<times> 's) option"
    and len :: "'r \<Rightarrow> nat"
    and req :: "'r \<Rightarrow> bool"
    and reset :: "'s \<Rightarrow> 's"
    and used :: "'s \<Rightarrow> nat"
    and cap :: "'s \<Rightarrow> nat"
    and inv :: "'s \<Rightarrow> bool"
  assumes al_inv: "inv s \<Longrightarrow> req r \<Longrightarrow> al r s = Some (off, s') \<Longrightarrow> inv s'"
    and al_block: "inv s \<Longrightarrow> req r \<Longrightarrow> al r s = Some (off, s') \<Longrightarrow>
      used s \<le> off \<and> off + len r \<le> used s' \<and> used s' \<le> cap s'"
    and al_cap: "inv s \<Longrightarrow> req r \<Longrightarrow> al r s = Some (off, s') \<Longrightarrow> cap s' = cap s"
    and reset_inv: "inv s \<Longrightarrow> inv (reset s)"
    and reset_used: "inv s \<Longrightarrow> used (reset s) = 0"
begin

lemma run_bounds:
  "inv s \<Longrightarrow> \<forall>r\<in>set rs. req r \<Longrightarrow> b \<in> set (alloc_run al len s rs) \<Longrightarrow>
     used s \<le> fst b \<and> fst b + snd b \<le> cap s"
proof (induction rs arbitrary: s)
  case Nil
  then show ?case by simp
next
  case (Cons r rs)
  show ?case
  proof (cases "al r s")
    case None
    with Cons show ?thesis by simp
  next
    case (Some p)
    obtain off s' where p: "al r s = Some (off, s')" using Some by (cases p) auto
    note bl = al_block [OF Cons.prems(1) _ p] al_inv [OF Cons.prems(1) _ p] al_cap [OF Cons.prems(1) _ p]
    show ?thesis
      using Cons.prems Cons.IH [of s'] bl by (auto simp: p)
  qed
qed

lemma run_disjoint:
  "inv s \<Longrightarrow> \<forall>r\<in>set rs. req r \<Longrightarrow> disjoint_blocks (alloc_run al len s rs)"
proof (induction rs arbitrary: s)
  case Nil
  then show ?case by (simp add: disjoint_blocks_def)
next
  case (Cons r rs)
  show ?case
  proof (cases "al r s")
    case None
    with Cons show ?thesis by simp
  next
    case (Some p)
    obtain off s' where p: "al r s = Some (off, s')" using Some by (cases p) auto
    have r: "req r" using Cons.prems by simp
    note bl = al_block [OF Cons.prems(1) r p] al_inv [OF Cons.prems(1) r p]
    have ih: "disjoint_blocks (alloc_run al len s' rs)" using Cons bl by simp
    have "off + len r \<le> fst b" if "b \<in> set (alloc_run al len s' rs)" for b
      using run_bounds [OF bl(2) _ that] Cons.prems bl(1) by simp
    then have "off + len r \<le> fst (alloc_run al len s' rs ! j)" if "j < length (alloc_run al len s' rs)" for j
      using nth_mem [OF that] by blast
    with ih show ?thesis
      by (auto simp: p disjoint_blocks_def nth_Cons' less_Suc_eq_0_disj)
  qed
qed

text \<open>After a reset the whole region is available again, still under the same bounds.\<close>

lemma run_after_reset:
  assumes "inv s" "\<forall>r\<in>set rs. req r"
  shows "disjoint_blocks (alloc_run al len (reset s) rs)"
    and "b \<in> set (alloc_run al len (reset s) rs) \<Longrightarrow> fst b + snd b \<le> cap (reset s)"
  using run_disjoint [OF reset_inv [OF assms(1)] assms(2)]
    run_bounds [OF reset_inv [OF assms(1)] assms(2)] by auto

end

section \<open>The process backend's arena\<close>

text \<open>
  \<open>struct PBoxThreadChannel\<close>: \<open>tc_channel\<close> names the shared mapping of its channel; the back pointer
  to the box is implicit.
\<close>

record PBoxThreadChannel =
  tc_channel :: nat
  tc_shm_fd :: int
  idmem_base :: u64
  idmem_size :: u64
  idmem_offset :: u64

abbreviation (input) PBOX_IDMEM_DEFAULT_SIZE :: nat where "PBOX_IDMEM_DEFAULT_SIZE \<equiv> 1048576"

text \<open>The allocation itself, once the region exists: \<open>0\<close> is \<open>NULL\<close>.\<close>

definition idmem_take :: "u64 \<Rightarrow> PBoxThreadChannel \<Rightarrow> u64 \<times> PBoxThreadChannel" where
  "idmem_take size0 tch =
     (let sz = (size0 + 15) AND NOT 15 in
      if idmem_offset tch + sz > idmem_size tch then (0, tch)
      else (idmem_base tch + idmem_offset tch, tch\<lparr>idmem_offset := idmem_offset tch + sz\<rparr>))"

definition idmem_rewind :: "PBoxThreadChannel \<Rightarrow> PBoxThreadChannel" where
  "idmem_rewind tch = (if idmem_base tch \<noteq> 0 then tch\<lparr>idmem_offset := 0\<rparr> else tch)"

text \<open>\<open>pbox_in_idmem\<close>: the scan over the box's thread channels.\<close>

definition pbox_in_idmem :: "PBoxThreadChannel list \<Rightarrow> u64 \<Rightarrow> u64 \<Rightarrow> bool" where
  "pbox_in_idmem chans addr size0 =
     (let end_addr = addr + size0 in
      list_ex (\<lambda>tch. idmem_base tch \<noteq> 0 \<and>
        (let base = idmem_base tch; top = base + idmem_size tch
         in addr \<ge> base \<and> end_addr \<le> top)) chans)"

text \<open>A mapped region does not wrap around the address space, and the offset stays inside it.\<close>

definition idmem_wf :: "PBoxThreadChannel \<Rightarrow> bool" where
  "idmem_wf t \<longleftrightarrow>
     (idmem_base t = 0 \<and> idmem_size t = 0 \<and> idmem_offset t = 0) \<or>
     (idmem_base t \<noteq> 0 \<and> unat (idmem_base t) + unat (idmem_size t) < 2 ^ 64 \<and>
      unat (idmem_size t) \<le> 2 ^ 32 \<and> 16 dvd unat (idmem_size t) \<and>
      unat (idmem_offset t) \<le> unat (idmem_size t) \<and> 16 dvd unat (idmem_offset t))"

definition idmem_mapped :: "PBoxThreadChannel \<Rightarrow> bool" where
  "idmem_mapped t \<longleftrightarrow> idmem_wf t \<and> idmem_base t \<noteq> 0"

lemma idmem_round: "unat x < 2 ^ 63 \<Longrightarrow> unat ((x + 15) AND NOT (15 :: u64)) = round_up 16 (unat x)"
  using unat_round_up64 [of x 4] by simp

text \<open>The functional behaviour for requests below \<open>2^63\<close>, where the check cannot wrap.\<close>

lemma idmem_take_spec:
  assumes wf: "idmem_mapped t" and sz: "unat sz < 2 ^ 63"
  shows "idmem_take sz t =
    (if unat (idmem_offset t) + round_up 16 (unat sz) > unat (idmem_size t) then (0, t)
     else (idmem_base t + idmem_offset t,
           t\<lparr>idmem_offset := word_of_nat (unat (idmem_offset t) + round_up 16 (unat sz))\<rparr>))"
proof -
  let ?r = "(sz + 15) AND NOT (15 :: u64)"
  have r: "unat ?r = round_up 16 (unat sz)" using sz by (rule idmem_round)
  have "unat (idmem_offset t) \<le> 2 ^ 32" using wf by (auto simp: idmem_mapped_def idmem_wf_def)
  then have "unat (idmem_offset t) + unat ?r < 2 ^ 64"
    using r sz round_up_less [of 16 "unat sz"] by simp
  then have a: "unat (idmem_offset t + ?r) = unat (idmem_offset t) + round_up 16 (unat sz)"
    using r by (simp add: unat_add64)
  have "word_of_nat (unat (idmem_offset t + ?r)) = idmem_offset t + ?r" by simp
  then have "idmem_offset t + ?r = word_of_nat (unat (idmem_offset t) + round_up 16 (unat sz))"
    unfolding a by simp
  then show ?thesis
    using a by (simp add: idmem_take_def word_less_nat_alt)
qed

lemma idmem_take_inv:
  assumes wf: "idmem_mapped t" and sz: "unat sz < 2 ^ 63" and res: "idmem_take sz t = (p, t')" and p: "p \<noteq> 0"
  shows "idmem_mapped t' \<and> idmem_base t' = idmem_base t \<and> idmem_size t' = idmem_size t \<and>
    unat p = unat (idmem_base t) + unat (idmem_offset t) \<and>
    unat (idmem_offset t') = unat (idmem_offset t) + round_up 16 (unat sz) \<and>
    unat (idmem_offset t') \<le> unat (idmem_size t)"
proof -
  let ?n = "unat (idmem_offset t) + round_up 16 (unat sz)"
  from res p have fit: "\<not> ?n > unat (idmem_size t)" and p': "p = idmem_base t + idmem_offset t"
    and t'': "t' = t\<lparr>idmem_offset := word_of_nat ?n\<rparr>"
    by (auto simp: idmem_take_spec [OF wf sz] split: if_splits)
  define w :: u64 where "w = word_of_nat ?n"
  have t': "t' = t\<lparr>idmem_offset := w\<rparr>" unfolding w_def by (rule t'')
  have b: "unat (idmem_base t) + unat (idmem_size t) < 2 ^ 64" "unat (idmem_offset t) \<le> unat (idmem_size t)"
    "unat (idmem_size t) \<le> 2 ^ 32" "16 dvd unat (idmem_offset t)"
    using wf by (auto simp: idmem_mapped_def idmem_wf_def)
  have "?n < 2 ^ 64" using fit b by simp
  then have n: "unat w = ?n" unfolding w_def by (subst unat_of_nat) simp
  have "unat p = unat (idmem_base t) + unat (idmem_offset t)"
    using b by (simp add: p' unat_add64)
  then show ?thesis
    using wf fit n b(4) by (auto simp: t' idmem_mapped_def idmem_wf_def)
qed

lemma idmem_rewind_wf [simp]: "idmem_wf t \<Longrightarrow> idmem_wf (idmem_rewind t)"
  by (auto simp: idmem_wf_def idmem_rewind_def)

text \<open>The arena as the interface sees it: offsets relative to the region's base.\<close>

definition idmem_al :: "u64 \<Rightarrow> PBoxThreadChannel \<Rightarrow> (nat \<times> PBoxThreadChannel) option" where
  "idmem_al sz t = (case idmem_take sz t of (p, t') \<Rightarrow>
     if p = 0 then None else Some (unat p - unat (idmem_base t), t'))"

interpretation idmem: bump_arena idmem_al unat "\<lambda>sz. unat sz < 2 ^ 63" idmem_rewind
  "\<lambda>t. unat (idmem_offset t)" "\<lambda>t. unat (idmem_size t)" idmem_mapped
proof unfold_locales
  fix s r off s'
  assume a: "idmem_mapped s" "unat r < 2 ^ 63" "idmem_al r s = Some (off, s')"
  then obtain p where p: "idmem_take r s = (p, s')" "p \<noteq> 0" "off = unat p - unat (idmem_base s)"
    by (auto simp: idmem_al_def split: prod.splits if_splits)
  note inv = idmem_take_inv [OF a(1,2) p(1,2)]
  have "unat r \<le> round_up 16 (unat r)" by (simp add: round_up_ge)
  with inv p(3) show "unat (idmem_offset s) \<le> off \<and> off + unat r \<le> unat (idmem_offset s') \<and>
      unat (idmem_offset s') \<le> unat (idmem_size s')"
    by simp
  show "idmem_mapped s'" "unat (idmem_size s') = unat (idmem_size s)" using inv by simp_all
qed (auto simp: idmem_mapped_def idmem_rewind_def idmem_wf_def)

section \<open>The passthrough backend's arena\<close>

text \<open>\<open>base_\<close> is \<open>0\<close> when the constructor's \<open>malloc\<close> failed.\<close>

record PassthroughArena =
  pa_base :: u64
  pa_offset :: u64

abbreviation (input) PA_DEFAULT_SIZE :: nat where "PA_DEFAULT_SIZE \<equiv> 65536"

definition pa_alloc :: "u64 \<Rightarrow> u64 \<Rightarrow> PassthroughArena \<Rightarrow> u64 \<times> PassthroughArena" where
  "pa_alloc sz align0 pa =
     (let off = (pa_offset pa + align0 - 1) AND NOT (align0 - 1);
          pa1 = pa\<lparr>pa_offset := off\<rparr>
      in if pa_base pa1 = 0 \<or> off + sz > 65536 then (0, pa1)
         else (pa_base pa1 + off, pa1\<lparr>pa_offset := off + sz\<rparr>))"

definition pa_reset :: "PassthroughArena \<Rightarrow> PassthroughArena" where
  "pa_reset pa = pa\<lparr>pa_offset := 0\<rparr>"

definition pa_wf :: "PassthroughArena \<Rightarrow> bool" where
  "pa_wf pa \<longleftrightarrow> unat (pa_offset pa) \<le> PA_DEFAULT_SIZE \<and> unat (pa_base pa) + PA_DEFAULT_SIZE < 2 ^ 64"

text \<open>A request is a size and the alignment \<open>2^k\<close> of its type, at most the arena's size.\<close>

definition pa_req :: "u64 \<times> nat \<Rightarrow> bool" where
  "pa_req r \<longleftrightarrow> unat (fst r) < 2 ^ 63 \<and> snd r \<le> 16"

definition pa_al :: "u64 \<times> nat \<Rightarrow> PassthroughArena \<Rightarrow> (nat \<times> PassthroughArena) option" where
  "pa_al r pa = (case pa_alloc (fst r) (2 ^ snd r) pa of (p, pa') \<Rightarrow>
     if p = 0 then None else Some (unat p - unat (pa_base pa), pa'))"

lemma pa_alloc_spec:
  assumes wf: "pa_wf pa" and req: "pa_req (sz, k)" and res: "pa_alloc sz (2 ^ k) pa = (p, pa')" and p: "p \<noteq> 0"
  shows "pa_wf pa' \<and> pa_base pa' = pa_base pa \<and>
    unat p = unat (pa_base pa) + round_up (2 ^ k) (unat (pa_offset pa)) \<and>
    unat (pa_offset pa') = round_up (2 ^ k) (unat (pa_offset pa)) + unat sz \<and>
    unat (pa_offset pa') \<le> PA_DEFAULT_SIZE"
proof -
  let ?off = "(pa_offset pa + (2 ^ k - 1)) AND NOT (2 ^ k - 1)"
  have k: "k \<le> 16" "unat sz < 2 ^ 63" using req by (simp_all add: pa_req_def)
  have "(2 :: nat) ^ k \<le> 2 ^ 16" using k by (intro power_increasing) simp_all
  then have k': "(2 :: nat) ^ k \<le> 65536" by simp
  have o: "unat (pa_offset pa) \<le> 65536" "unat (pa_base pa) + 65536 < 2 ^ 64" using wf by (simp_all add: pa_wf_def)
  have off: "unat ?off = round_up (2 ^ k) (unat (pa_offset pa))"
    using k k' o by (intro unat_round_up64) simp_all
  have "round_up (2 ^ k) (unat (pa_offset pa)) < unat (pa_offset pa) + 2 ^ k"
    by (rule round_up_less) simp
  then have "unat ?off + unat sz < 2 ^ 64" using off k k' o by simp
  then have sum: "unat (?off + sz) = unat ?off + unat sz" by (rule unat_add64)
  have off1: "pa_offset pa + 2 ^ k - 1 = pa_offset pa + (2 ^ k - 1)" by (simp add: algebra_simps)
  from res p have le: "\<not> ?off + sz > 65536" and p': "p = pa_base pa + ?off"
    and pa': "pa' = pa\<lparr>pa_offset := ?off + sz\<rparr>"
    unfolding pa_alloc_def Let_def off1 by (auto split: if_splits)
  from le have le': "unat ?off + unat sz \<le> 65536" using sum by (simp add: word_less_nat_alt)
  then have "unat (pa_base pa + ?off) = unat (pa_base pa) + unat ?off" using o by (intro unat_add64) simp
  then show ?thesis using o le' sum off by (simp add: p' pa' pa_wf_def)
qed

interpretation passthrough: bump_arena pa_al "\<lambda>r. unat (fst r)" pa_req pa_reset
  "\<lambda>pa. unat (pa_offset pa)" "\<lambda>_. PA_DEFAULT_SIZE" pa_wf
proof unfold_locales
  fix s r off s'
  assume a: "pa_wf s" "pa_req r" "pa_al r s = Some (off, s')"
  obtain sz k where r: "r = (sz, k)" by (cases r)
  from a(3) obtain p where p: "pa_alloc sz (2 ^ k) s = (p, s')" "p \<noteq> 0" "off = unat p - unat (pa_base s)"
    by (auto simp: pa_al_def r split: prod.splits if_splits)
  note inv = pa_alloc_spec [OF a(1) a(2) [unfolded r] p(1,2)]
  have "unat (pa_offset s) \<le> round_up (2 ^ k) (unat (pa_offset s))" by (simp add: round_up_ge)
  with inv p(3) show "unat (pa_offset s) \<le> off \<and> off + unat (fst r) \<le> unat (pa_offset s') \<and>
      unat (pa_offset s') \<le> PA_DEFAULT_SIZE"
    by (simp add: r)
  show "pa_wf s'" using inv by simp
qed (auto simp: pa_wf_def pa_reset_def)

section \<open>Properties\<close>

text \<open>A granted block starts on a 16-byte boundary of the region.\<close>

lemma idmem_al_aligned:
  assumes "idmem_mapped t" "unat r < 2 ^ 63" "idmem_al r t = Some (off, t')"
  shows "16 dvd off \<and> off = unat (idmem_offset t) \<and> idmem_mapped t' \<and> idmem_base t' = idmem_base t"
proof -
  from assms(3) obtain p where p: "idmem_take r t = (p, t')" "p \<noteq> 0" "off = unat p - unat (idmem_base t)"
    by (auto simp: idmem_al_def split: prod.splits if_splits)
  with idmem_take_inv [OF assms(1,2) p(1,2)] assms(1) show ?thesis
    by (auto simp: idmem_mapped_def idmem_wf_def)
qed

lemma idmem_run_aligned:
  "idmem_mapped t \<Longrightarrow> \<forall>r\<in>set rs. unat r < 2 ^ 63 \<Longrightarrow> b \<in> set (alloc_run idmem_al unat t rs) \<Longrightarrow> 16 dvd fst b"
proof (induction rs arbitrary: t)
  case Nil
  then show ?case by simp
next
  case (Cons r rs)
  then show ?case by (auto split: option.splits dest: idmem_al_aligned)
qed

definition example_region :: PBoxThreadChannel where
  "example_region = \<lparr>tc_channel = 0, tc_shm_fd = 5, idmem_base = 0x700000000000,
     idmem_size = 0x100000, idmem_offset = 0\<rparr>"

lemma example_region_mapped [simp]: "idmem_mapped example_region"
  by (simp add: idmem_mapped_def idmem_wf_def example_region_def)

text \<open>C28: between two resets \<open>pbox_idmem_alloc\<close> hands out disjoint, 16-byte aligned blocks that lie
  inside the thread's region, for every sequence of requests below \<open>2^63\<close> bytes (refused ones
  included); the same holds again after \<open>pbox_idmem_reset\<close>.\<close>

theorem idmem_alloc_blocks:
  assumes "idmem_mapped t" "\<forall>r\<in>set rs. unat r < 2 ^ 63"
  shows "disjoint_blocks (alloc_run idmem_al unat t rs) \<and>
    (\<forall>b\<in>set (alloc_run idmem_al unat t rs). 16 dvd fst b \<and> fst b + snd b \<le> unat (idmem_size t)) \<and>
    disjoint_blocks (alloc_run idmem_al unat (idmem_rewind t) rs) \<and>
    (\<forall>b\<in>set (alloc_run idmem_al unat (idmem_rewind t) rs). fst b + snd b \<le> unat (idmem_size t))"
proof -
  have "idmem_size (idmem_rewind t) = idmem_size t" by (simp add: idmem_rewind_def)
  then show ?thesis
    using idmem.run_disjoint [OF assms] idmem.run_bounds [OF assms] idmem.run_after_reset [OF assms]
      idmem_run_aligned [OF assms] by auto
qed

theorem idmem_alloc_blocks_witness:
  "alloc_run idmem_al unat example_region [100, 0x200000, 8] = [(0, 100), (112, 8)] \<and>
   disjoint_blocks (alloc_run idmem_al unat example_region [100, 0x200000, 8])"
proof -
  have "alloc_run idmem_al unat example_region [100, 0x200000, 8] = [(0, 100), (112, 8)]"
    by (simp add: idmem_al_def idmem_take_def example_region_def)
  moreover have "disjoint_blocks (alloc_run idmem_al unat example_region [100, 0x200000, 8])"
    using idmem_alloc_blocks [of example_region "[100, 0x200000, 8]"] by simp
  ultimately show ?thesis by blast
qed

lemma in_idmem_bounds:
  assumes "\<forall>t\<in>set chans. idmem_wf t" "unat addr + unat sz < 2 ^ 64" "0 < sz"
  shows "pbox_in_idmem chans addr sz \<longleftrightarrow>
    (\<exists>t\<in>set chans. idmem_mapped t \<and> unat (idmem_base t) \<le> unat addr \<and>
       unat addr + unat sz \<le> unat (idmem_base t) + unat (idmem_size t))"
proof -
  have e: "unat (addr + sz) = unat addr + unat sz" using assms(2) by (rule unat_add64)
  have "unat (idmem_base t + idmem_size t) = unat (idmem_base t) + unat (idmem_size t)"
    if "t \<in> set chans" "idmem_base t \<noteq> 0" for t
    using that assms(1) by (intro unat_add64) (auto simp: idmem_wf_def)
  with e show ?thesis
    using assms(1) by (auto simp: pbox_in_idmem_def list_ex_iff Let_def idmem_mapped_def word_le_nat_alt)
qed

text \<open>\<open>pbox_in_idmem\<close> decides containment: for a range that does not wrap around the address
  space it answers yes exactly when some channel's mapped region holds every byte of the range.\<close>

theorem in_idmem_containment:
  assumes "\<forall>t\<in>set chans. idmem_wf t" "unat addr + unat sz < 2 ^ 64" "0 < sz"
  shows "pbox_in_idmem chans addr sz \<longleftrightarrow>
    (\<exists>t\<in>set chans. idmem_mapped t \<and>
       (\<forall>x. unat addr \<le> x \<and> x < unat addr + unat sz \<longrightarrow>
          unat (idmem_base t) \<le> x \<and> x < unat (idmem_base t) + unat (idmem_size t)))"
proof -
  have pos: "0 < unat sz" using assms(3) by (simp add: word_less_nat_alt)
  have range_eq: "(\<forall>x. unat addr \<le> x \<and> x < unat addr + unat sz \<longrightarrow>
          unat (idmem_base t) \<le> x \<and> x < unat (idmem_base t) + unat (idmem_size t)) \<longleftrightarrow>
        unat (idmem_base t) \<le> unat addr \<and> unat addr + unat sz \<le> unat (idmem_base t) + unat (idmem_size t)" for t
    using pos by (auto dest: spec [of _ "unat addr"] spec [of _ "unat addr + unat sz - 1"])
  show ?thesis unfolding in_idmem_bounds [OF assms] range_eq ..
qed

theorem in_idmem_containment_witness:
  "pbox_in_idmem [example_region] 0x700000000010 64"
  using in_idmem_containment [of "[example_region]" "0x700000000010" 64]
  by (auto simp: example_region_def idmem_mapped_def idmem_wf_def)

text \<open>without that proviso the check is unsound: the addition in it wraps, so for any address
  inside a mapped region there is a size for which \<open>pbox_in_idmem\<close> answers yes although the range
  runs past the region's end (indeed past the end of the address space).\<close>

theorem in_idmem_wraps:
  assumes "idmem_mapped t" "idmem_base t < addr" "addr < idmem_base t + idmem_size t"
  shows "\<exists>sz. pbox_in_idmem [t] addr sz \<and> unat addr + unat sz > unat (idmem_base t) + unat (idmem_size t)"
proof (intro exI conjI)
  let ?sz = "idmem_base t - addr"
  have b: "unat (idmem_base t) + unat (idmem_size t) < 2 ^ 64" "idmem_base t \<noteq> 0"
    using assms(1) by (auto simp: idmem_mapped_def idmem_wf_def)
  have s: "unat (idmem_base t + idmem_size t) = unat (idmem_base t) + unat (idmem_size t)"
    using b by (simp add: unat_add64)
  show "pbox_in_idmem [t] addr ?sz"
    using assms(2) b s by (simp add: pbox_in_idmem_def word_le_nat_alt word_less_nat_alt)
  have "unat (idmem_base t) \<noteq> unat addr + unat ?sz" using assms(2) by (simp add: word_less_nat_alt)
  moreover have "unat (addr + ?sz) = unat (idmem_base t)" by simp
  ultimately have "\<not> unat addr + unat ?sz < 2 ^ 64" using unat_add64 [of addr ?sz] by fastforce
  then show "unat addr + unat ?sz > unat (idmem_base t) + unat (idmem_size t)" using b by simp
qed

theorem in_idmem_wraps_witness:
  "\<exists>sz. pbox_in_idmem [example_region] 0x700000000010 sz \<and> unat (0x700000000010 :: u64) + unat sz > 0x700000100000"
  using in_idmem_wraps [of example_region "0x700000000010"] example_region_mapped
  by (simp add: example_region_def)

text \<open>\<open>pbox_idmem_alloc\<close> does not refuse every request that cannot fit: rounding a size of at least
  \<open>2^64 - 15\<close> up wraps to zero, and the request is granted a non-null pointer with no memory behind
  it, the very pointer the next allocation will return.\<close>

theorem idmem_alloc_wraps:
  assumes "idmem_mapped t" "2 ^ 64 - 15 \<le> unat sz"
  shows "\<exists>p. idmem_take sz t = (p, t) \<and> p \<noteq> 0 \<and> unat p + unat sz > unat (idmem_base t) + unat (idmem_size t)"
proof -
  have b: "unat (idmem_base t) + unat (idmem_size t) < 2 ^ 64" "unat (idmem_base t) \<noteq> 0"
      "unat (idmem_offset t) \<le> unat (idmem_size t)" "unat (idmem_size t) \<le> 2 ^ 32"
      "16 dvd unat (idmem_size t)"
    using assms(1) by (auto simp: idmem_mapped_def idmem_wf_def unat_eq_0)
  have "(sz + 15) AND NOT 15 = (0 :: u64)"
  proof -
    have lt: "unat sz < 2 ^ 64" using unsigned_less [of sz, where ?'a = nat] by simp
    have "unat (sz + 15) = (unat sz + 15) mod 2 ^ 64" by (simp add: unat_word_ariths)
    also have "\<dots> = unat sz + 15 - 2 ^ 64" using assms(2) lt by (simp add: mod_if)
    finally have "unat (sz + 15) < 16" using lt by simp
    then have "unat ((sz + 15) AND NOT (mask 4 :: u64)) = 0"
      by (simp add: unat_and_not_mask64)
    then have "(sz + 15) AND NOT (mask 4 :: u64) = 0" by (simp add: unat_eq_0)
    then show ?thesis by (simp add: mask_eq_exp_minus_1)
  qed
  then have t: "idmem_take sz t = (idmem_base t + idmem_offset t, t)"
    using b(3) by (simp add: idmem_take_def word_less_nat_alt)
  have p: "unat (idmem_base t + idmem_offset t) = unat (idmem_base t) + unat (idmem_offset t)"
    using b by (simp add: unat_add64)
  then have "idmem_base t + idmem_offset t \<noteq> 0" using b(2) by (metis add_is_0 unsigned_0)
  moreover have "unat (idmem_base t) + unat (idmem_offset t) + unat sz > unat (idmem_base t) + unat (idmem_size t)"
    using assms(2) b(4) by simp
  ultimately show ?thesis using t p by simp
qed

theorem idmem_alloc_wraps_witness:
  "\<exists>p. idmem_take 0xFFFFFFFFFFFFFFFF example_region = (p, example_region) \<and> p \<noteq> 0"
  using idmem_alloc_wraps [OF example_region_mapped, of "0xFFFFFFFFFFFFFFFF"] by auto

text \<open>the passthrough arena has the same contract: for requests below \<open>2^63\<close> bytes with an alignment
  of at most 64 KiB, the blocks granted between two resets are disjoint and inside the 64 KiB arena,
  and each starts at a multiple of its alignment.\<close>

theorem passthrough_alloc_blocks:
  assumes "pa_wf pa" "\<forall>r\<in>set rs. pa_req r"
  shows "disjoint_blocks (alloc_run pa_al (\<lambda>r. unat (fst r)) pa rs) \<and>
    (\<forall>b\<in>set (alloc_run pa_al (\<lambda>r. unat (fst r)) pa rs). fst b + snd b \<le> PA_DEFAULT_SIZE) \<and>
    disjoint_blocks (alloc_run pa_al (\<lambda>r. unat (fst r)) (pa_reset pa) rs) \<and>
    (\<forall>r off pa'. pa_req r \<longrightarrow> pa_al r pa = Some (off, pa') \<longrightarrow> 2 ^ snd r dvd off)"
proof -
  have "2 ^ snd r dvd off" if "pa_req r" "pa_al r pa = Some (off, pa')" for r off pa'
  proof -
    from that(2) obtain p where p: "pa_alloc (fst r) (2 ^ snd r) pa = (p, pa')" "p \<noteq> 0"
        "off = unat p - unat (pa_base pa)"
      by (auto simp: pa_al_def split: prod.splits if_splits)
    have "pa_req (fst r, snd r)" using that(1) by simp
    from pa_alloc_spec [OF assms(1) this p(1,2)] p(3) show ?thesis by simp
  qed
  then show ?thesis
    using passthrough.run_disjoint [OF assms] passthrough.run_bounds [OF assms]
      passthrough.run_after_reset(1) [OF assms] by blast
qed

theorem passthrough_alloc_blocks_witness:
  "alloc_run pa_al (\<lambda>r. unat (fst r)) \<lparr>pa_base = 4096, pa_offset = 0\<rparr> [(5, 0), (8, 3), (70000, 0)] = [(0, 5), (8, 8)] \<and>
   disjoint_blocks [(0, 5), (8, 8)]"
proof -
  have r: "alloc_run pa_al (\<lambda>r. unat (fst r)) \<lparr>pa_base = 4096, pa_offset = 0\<rparr> [(5, 0), (8, 3), (70000, 0)] = [(0, 5), (8, 8)]"
    by (simp add: pa_al_def pa_alloc_def)
  with passthrough_alloc_blocks [of "\<lparr>pa_base = 4096, pa_offset = 0\<rparr>" "[(5, 0), (8, 3), (70000, 0)]"]
  show ?thesis by (simp add: pa_wf_def pa_req_def)
qed

end
