(* ===== verification/Host.thy ===== *)
theory Host
  imports Sandbox FdCache Idmem
begin

text \<open>
  The host library's core (\<open>src/pbox/pbox.c\<close>): waiting on a channel, creating a thread's channel,
  symbol lookup, foreign calls with callbacks, passing descriptors and registering callbacks.
  The state is the record \<open>world\<close>: the sandbox, the host kernel's objects, and \<open>struct PBox\<close>. The
  operations are those of one host thread (whose thread-local channel is \<open>h_tls\<close>) while no other
  thread uses the box; the handshake on a channel is the subject of theory \<open>Protocol\<close>, several host
  threads that of \<open>BoxThreads\<close>.
\<close>

section \<open>The world\<close>

text \<open>What the host process holds besides descriptors: mappings, heap blocks, locks and threads.\<close>

datatype resource =
    BoxMem | FdLock | CallbackLock | ChannelLock | ChannelKey | Process | Watcher
  | ChanMap nat | TchMem nat | ChanVec | FdVec | RegionMap u64 u64

record ('m, 'h) world = "'m sandbox" +
  h_fds :: "nat \<Rightarrow> open_file option"
  h_held :: "resource multiset"
  h_next :: nat
  h_app :: 'h
  h_tls :: "nat option"
  b_sock_fd :: nat
  b_control_shm_fd :: nat
  b_channels :: "nat list"
  b_channel_cap :: nat
  b_tch :: "nat \<Rightarrow> PBoxThreadChannel"
  b_sym_malloc :: u64
  b_sym_calloc :: u64
  b_sym_realloc :: u64
  b_sym_free :: u64
  b_sym_mmap :: u64
  b_sym_munmap :: u64
  b_sym_memcpy :: u64
  b_sym_close :: u64
  b_fds :: fd_cache
  b_reg :: "'h callback_registry"

text \<open>
  The host's kernel and allocator, for one operation: which calls succeed, the number of a new
  descriptor, how many turns the scheduler grants a wait, the address the kernel picks for a new
  mapping and its answer to a requested one, and the two \<open>/proc\<close> files with the allocator's
  answers while they are parsed (\<open>False\<close> for the host's, \<open>True\<close> for the sandbox's). Of the program around
  the box: which of its own descriptors are marked close-on-exec, and whether it ignores or catches \<open>SIGPIPE\<close>.
\<close>

datatype call_site =
    At_malloc | At_mutex_fd | At_mutex_callback | At_key_create | At_mutex_channel
  | At_sandbox_setup | At_memfd_create | At_ftruncate | At_mmap | At_socketpair | At_fork | At_close_range | At_exec | At_pthread_create
  | At_sendmsg | At_malloc_tch | At_realloc_channels | At_realloc_fds
  | At_memfd_region | At_ftruncate_region | At_mmap_region

record kernel =
  k_ok :: "call_site \<Rightarrow> bool"
  k_fd :: "(nat \<Rightarrow> open_file option) \<Rightarrow> nat"
  k_turns :: nat
  k_addr :: u64
  k_fixed :: "u64 \<Rightarrow> u64"
  k_maps :: "bool \<Rightarrow> string option"
  k_heap :: "bool \<Rightarrow> nat \<Rightarrow> bool"
  k_cloexec :: "nat \<Rightarrow> bool"
  k_sigpipe_ignored :: bool

definition close_fd :: "nat \<Rightarrow> ('m, 'h) world \<Rightarrow> ('m, 'h) world" where
  "close_fd fd w = w\<lparr>h_fds := (h_fds w)(fd := None)\<rparr>"

definition acquire :: "resource \<Rightarrow> ('m, 'h) world \<Rightarrow> ('m, 'h) world" where
  "acquire r w = w\<lparr>h_held := h_held w + {#r#}\<rparr>"

text \<open>Releasing what is not held (a double \<open>free\<close> or \<open>munmap\<close>) is an error of the program.\<close>

definition release :: "resource \<Rightarrow> ('m, 'h) world \<Rightarrow> ('m, 'h) world outcome" where
  "release r w = (if r \<in># h_held w then Returns (w\<lparr>h_held := h_held w - {#r#}\<rparr>) else Aborts)"

text \<open>The host's part of the world is not changed by a turn of the sandbox.\<close>

lemma host_fields:
  assumes "sandbox.more w = sandbox.more w'"
  shows "h_fds w = h_fds w'" "h_held w = h_held w'" "h_next w = h_next w'" "h_app w = h_app w'" "h_tls w = h_tls w'"
    "b_sock_fd w = b_sock_fd w'" "b_control_shm_fd w = b_control_shm_fd w'" "b_channels w = b_channels w'"
    "b_channel_cap w = b_channel_cap w'" "b_tch w = b_tch w'" "b_fds w = b_fds w'" "b_reg w = b_reg w'"
  using assms by (cases w; cases w'; simp)+

section \<open>Waiting on a channel\<close>

definition pbox_set_state :: "nat \<Rightarrow> int \<Rightarrow> ('m, 'h) world \<Rightarrow> ('m, 'h) world" where
  "pbox_set_state i s w = put_chan i ((sb_chan w i)\<lparr>ch_state := s\<rparr>) w"

text \<open>
  \<open>pbox_wait_for_state\<close>: the sandbox takes a turn; if that does not bring the state, nothing will
  (\<open>DEAD\<close> is not looked for).
\<close>

definition pbox_wait_for_state :: "'m sandbox_env \<Rightarrow> nat \<Rightarrow> int \<Rightarrow> ('m, 'h) world \<Rightarrow> ('m, 'h) world outcome" where
  "pbox_wait_for_state e i s w =
     (if ch_state (sb_chan w i) = s then Returns w
      else let w' = sandbox_run e i w in
           if ch_state (sb_chan w' i) = s then Returns w' else Blocks)"

text \<open>The sequence \<open>REQUEST\<close>, wait for \<open>RESPONSE\<close>, \<open>IDLE\<close>, which every simple request uses.\<close>

definition exchange :: "'m sandbox_env \<Rightarrow> nat \<Rightarrow> ('m, 'h) world \<Rightarrow> ('m, 'h) world outcome" where
  "exchange e i w =
     and_then (pbox_wait_for_state e i PBOX_STATE_RESPONSE (pbox_set_state i PBOX_STATE_REQUEST w))
       (\<lambda>w'. Returns (pbox_set_state i PBOX_STATE_IDLE w'))"

text \<open>\<open>pbox_dispatch_callback\<close> on the world; a protocol violation kills the sandbox.\<close>

definition host_callback :: "nat \<Rightarrow> ('m, 'h) world \<Rightarrow> ('m, 'h) world outcome" where
  "host_callback i w =
     (case pbox_dispatch_callback (b_reg w) (sb_chan w i) (h_app w) of
        None \<Rightarrow> Aborts
      | Some (killed, c, h) \<Rightarrow>
          let w' = put_chan i c (w\<lparr>h_app := h\<rparr>) in Returns (if killed then sandbox_dies w' else w'))"

text \<open>
  The loop of \<open>pbox_wait_for_response\<close>; the first argument bounds the number of its iterations. A
  futex wait during which the sandbox's turn changes nothing never ends.
\<close>

fun pbox_wait_for_response :: "nat \<Rightarrow> 'm sandbox_env \<Rightarrow> nat \<Rightarrow> ('m, 'h) world \<Rightarrow> ('m, 'h) world outcome" where
  "pbox_wait_for_response 0 e i w = Blocks"
| "pbox_wait_for_response (Suc n) e i w =
     (let s = ch_state (sb_chan w i) in
      if s = PBOX_STATE_RESPONSE then Returns w
      else if s = PBOX_STATE_CALLBACK then
        and_then (host_callback i w)
          (\<lambda>w'. pbox_wait_for_response n e i (pbox_set_state i PBOX_STATE_REQUEST w'))
      else if s = PBOX_STATE_DEAD then Returns w
      else let w' = sandbox_run e i w in
           if ch_state (sb_chan w' i) = s then Blocks else pbox_wait_for_response n e i w')"

text \<open>\<open>pbox_alive\<close> looks at the control channel only.\<close>

definition pbox_alive :: "('m, 'h) world \<Rightarrow> bool" where
  "pbox_alive w \<longleftrightarrow> ch_state (sb_chan w 0) \<noteq> PBOX_STATE_DEAD"

section \<open>Passing a descriptor\<close>

text \<open>
  \<open>pbox_send_fd_on_channel\<close>: queue the file on the socket, then ask the sandbox to take it. A descriptor that
  is not open fails first. On a socket whose other end is gone \<open>sendmsg\<close> without \<open>MSG_NOSIGNAL\<close> raises
  \<open>SIGPIPE\<close>, which ends the program unless it is ignored or caught.
\<close>

definition pbox_send_fd_on_channel ::
  "'m sandbox_env \<Rightarrow> kernel \<Rightarrow> nat \<Rightarrow> nat \<Rightarrow> ('m, 'h) world \<Rightarrow> (int \<times> ('m, 'h) world) outcome" where
  "pbox_send_fd_on_channel e k i fd w =
     (case h_fds w fd of
        None \<Rightarrow> Returns (- 1, w)
      | Some f \<Rightarrow>
          if \<not> k_ok k At_sendmsg then Returns (- 1, w)
          else if \<not> sb_alive w then (if k_sigpipe_ignored k then Returns (- 1, w) else Aborts)
          else
            let w1 = w\<lparr>sb_sock := sb_sock w @ [f]\<rparr>;
                w2 = put_chan i ((sb_chan w1 i)\<lparr>request_type := PBOX_REQ_RECV_FD\<rparr>) w1
            in and_then (exchange e i w2) (\<lambda>w3. Returns (received_fd (sb_chan w3 i), w3)))"

lemma exchange_more: "exchange e i w = Returns w' \<Longrightarrow> sandbox.more w' = sandbox.more w"
  by (auto simp: exchange_def pbox_wait_for_state_def pbox_set_state_def Let_def split: if_splits)

lemma send_fd_on_channel_more:
  "pbox_send_fd_on_channel e k i fd w = Returns (s, w') \<Longrightarrow> sandbox.more w' = sandbox.more w"
  by (auto simp: pbox_send_fd_on_channel_def Let_def dest!: exchange_more split: option.splits if_splits)

text \<open>A dead sandbox answers nothing.\<close>

lemma sandbox_run_dead: "\<not> sb_alive w \<Longrightarrow> sandbox_run e i w = w"
  by (simp add: sandbox_run_def)

lemma exchange_dead: "\<not> sb_alive w \<Longrightarrow> exchange e i w = Blocks"
  by (simp add: exchange_def pbox_wait_for_state_def pbox_set_state_def sandbox_run_dead Let_def)

section \<open>Channels\<close>

text \<open>Telling a worker to leave and dropping the host's side of its channel.\<close>

definition abandon_channel :: "'m sandbox_env \<Rightarrow> nat \<Rightarrow> nat \<Rightarrow> ('m, 'h) world \<Rightarrow> ('m, 'h) world outcome" where
  "abandon_channel e j fd w =
     and_then (release (ChanMap j) (sandbox_run e j (pbox_set_state j PBOX_STATE_EXIT w)))
       (\<lambda>w'. Returns (close_fd fd w'))"

definition create_channel_locked ::
  "'m sandbox_env \<Rightarrow> kernel \<Rightarrow> ('m, 'h) world \<Rightarrow> (nat option \<times> ('m, 'h) world) outcome" where
  "create_channel_locked e k w =
     (if \<not> k_ok k At_memfd_create then Returns (None, w)
      else
        let j = h_next w; fd = k_fd k (h_fds w);
            w1 = w\<lparr>h_next := j + 1, h_fds := (h_fds w)(fd \<mapsto> ChanShm j)\<rparr>
        in
        if \<not> k_ok k At_ftruncate then Returns (None, close_fd fd w1)
        else if \<not> k_ok k At_mmap then Returns (None, close_fd fd w1)
        else
        and_then (pbox_send_fd_on_channel e k 0 fd (acquire (ChanMap j) (put_chan j zero_channel w1)))
        (\<lambda>(s, w2).
          if s < 0 then and_then (release (ChanMap j) w2) (\<lambda>w3. Returns (None, close_fd fd w3))
          else
          and_then (exchange e 0 (put_chan 0
            ((sb_chan w2 0)\<lparr>request_type := PBOX_REQ_SPAWN_WORKER, worker_shm_fd := s\<rparr>) w2))
          (\<lambda>w3.
            if sandbox_channel_addr (sb_chan w3 j) = 0 then Blocks
            else if \<not> k_ok k At_malloc_tch then
              and_then (abandon_channel e j fd w3) (\<lambda>w4. Returns (None, w4))
            else
              let tch = \<lparr>tc_channel = j, tc_shm_fd = int fd, idmem_base = 0, idmem_size = 0, idmem_offset = 0\<rparr>;
                  w4 = acquire (TchMem j) (w3\<lparr>b_tch := (b_tch w3)(j := tch)\<rparr>)
              in
              if length (b_channels w4) \<ge> b_channel_cap w4 then
                (if \<not> k_ok k At_realloc_channels then
                   and_then (abandon_channel e j fd w4)
                     (\<lambda>w5. and_then (release (TchMem j) w5) (\<lambda>w6. Returns (None, w6)))
                 else
                   let w5 = (if b_channel_cap w4 = 0 then acquire ChanVec w4 else w4)
                   in Returns (Some j,
                        w5\<lparr>b_channel_cap := (if b_channel_cap w4 \<noteq> 0 then b_channel_cap w4 * 2 else 4),
                           b_channels := b_channels w5 @ [j]\<rparr>))
              else Returns (Some j, w4\<lparr>b_channels := b_channels w4 @ [j]\<rparr>))))"

definition get_or_create_channel ::
  "'m sandbox_env \<Rightarrow> kernel \<Rightarrow> ('m, 'h) world \<Rightarrow> (nat option \<times> ('m, 'h) world) outcome" where
  "get_or_create_channel e k w =
     (case h_tls w of
        Some i \<Rightarrow> Returns (Some i, w)
      | None \<Rightarrow>
          and_then (create_channel_locked e k w)
            (\<lambda>(c, w'). case c of None \<Rightarrow> Returns (None, w') | Some j \<Rightarrow> Returns (Some j, w'\<lparr>h_tls := Some j\<rparr>)))"

text \<open>What a kernel does: new descriptors get numbers that are not in use (of finitely many in use).\<close>

definition kernel_ok :: "kernel \<Rightarrow> bool" where
  "kernel_ok k \<longleftrightarrow> (\<forall>fds. finite (dom fds) \<longrightarrow> fds (k_fd k fds) = None)"

lemma abandon_channel_host:
  assumes "abandon_channel e j fd w = Returns w'"
  shows "ChanMap j \<in># h_held w" "h_held w' = h_held w - {#ChanMap j#}" "h_fds w' = (h_fds w)(fd := None)"
    "h_next w' = h_next w" "b_channels w' = b_channels w" "b_channel_cap w' = b_channel_cap w" "b_fds w' = b_fds w"
    "b_tch w' = b_tch w" "b_sock_fd w' = b_sock_fd w" "b_control_shm_fd w' = b_control_shm_fd w"
    "b_reg w' = b_reg w" "h_tls w' = h_tls w"
proof -
  let ?v = "sandbox_run e j (pbox_set_state j PBOX_STATE_EXIT w)"
  have "sandbox.more ?v = sandbox.more w" by (simp add: pbox_set_state_def)
  note h = host_fields [OF this]
  from assms show "ChanMap j \<in># h_held w" "h_held w' = h_held w - {#ChanMap j#}" "h_fds w' = (h_fds w)(fd := None)"
    "h_next w' = h_next w" "b_channels w' = b_channels w" "b_channel_cap w' = b_channel_cap w" "b_fds w' = b_fds w"
    "b_tch w' = b_tch w" "b_sock_fd w' = b_sock_fd w" "b_control_shm_fd w' = b_control_shm_fd w"
    "b_reg w' = b_reg w" "h_tls w' = h_tls w"
    by (auto simp: abandon_channel_def release_def close_fd_def h split: if_splits)
qed

text \<open>The two outcomes of creating a channel, as far as the host's own objects go.\<close>

lemma create_channel_host:
  assumes k: "kernel_ok k" and fin: "finite (dom (h_fds w))" and res: "create_channel_locked e k w = Returns (c, w')"
  shows "b_fds w' = b_fds w \<and> b_sock_fd w' = b_sock_fd w \<and> b_control_shm_fd w' = b_control_shm_fd w \<and>
    b_reg w' = b_reg w \<and> h_tls w' = h_tls w \<and> (\<forall>j. j \<noteq> h_next w \<longrightarrow> b_tch w' j = b_tch w j) \<and>
    h_next w \<le> h_next w' \<and>
    (case c of
       None \<Rightarrow> h_fds w' = h_fds w \<and> h_held w' = h_held w \<and> b_channels w' = b_channels w \<and> b_channel_cap w' = b_channel_cap w
     | Some j \<Rightarrow> j = h_next w \<and> h_next w' = j + 1 \<and> b_channels w' = b_channels w @ [j] \<and>
         h_fds w' = (h_fds w)(k_fd k (h_fds w) \<mapsto> ChanShm j) \<and>
         b_tch w' j = \<lparr>tc_channel = j, tc_shm_fd = int (k_fd k (h_fds w)), idmem_base = 0, idmem_size = 0, idmem_offset = 0\<rparr> \<and>
         h_held w' = h_held w + {#ChanMap j, TchMem j#} +
           (if b_channel_cap w = 0 \<and> b_channel_cap w' \<noteq> 0 then {#ChanVec#} else {#}) \<and>
         (b_channel_cap w \<noteq> 0 \<longrightarrow> b_channel_cap w' \<noteq> 0) \<and>
         (length (b_channels w) \<le> b_channel_cap w \<longrightarrow> length (b_channels w') \<le> b_channel_cap w'))"
proof -
  let ?j = "h_next w" and ?fd = "k_fd k (h_fds w)"
  have new: "h_fds w ?fd = None" using k fin by (simp add: kernel_ok_def)
  then have same_fds: "(h_fds w)(?fd := None) = h_fds w" by (rule fun_upd_idem)
  let ?w1 = "w\<lparr>h_next := ?j + 1, h_fds := (h_fds w)(?fd \<mapsto> ChanShm ?j)\<rparr>"
  let ?m = "acquire (ChanMap ?j) (put_chan ?j zero_channel ?w1)"
  show ?thesis
  proof (cases "k_ok k At_memfd_create \<and> k_ok k At_ftruncate \<and> k_ok k At_mmap")
    case False
    with res same_fds show ?thesis by (auto simp: create_channel_locked_def close_fd_def Let_def split: if_splits)
  next
    case ok: True
    from res ok obtain s w2 where send: "pbox_send_fd_on_channel e k 0 ?fd ?m = Returns (s, w2)"
      by (auto simp: create_channel_locked_def Let_def)
    note h2 = host_fields [OF send_fd_on_channel_more [OF send]]
    show ?thesis
    proof (cases "s < 0")
      case True
      with res ok send same_fds show ?thesis
        by (auto simp: create_channel_locked_def Let_def release_def close_fd_def h2 acquire_def split: if_splits)
    next
      case False
      let ?q = "put_chan 0 ((sb_chan w2 0)\<lparr>request_type := PBOX_REQ_SPAWN_WORKER, worker_shm_fd := s\<rparr>) w2"
      from res ok send False obtain w3 where ex: "exchange e 0 ?q = Returns w3"
        by (auto simp: create_channel_locked_def Let_def)
      have "sandbox.more ?q = sandbox.more w2" by simp
      with exchange_more [OF ex] have "sandbox.more w3 = sandbox.more w2" by simp
      note h3 = host_fields [OF this]
      let ?tch = "\<lparr>tc_channel = ?j, tc_shm_fd = int ?fd, idmem_base = 0, idmem_size = 0, idmem_offset = 0\<rparr>"
      let ?w4 = "acquire (TchMem ?j) (w3\<lparr>b_tch := (b_tch w3)(?j := ?tch)\<rparr>)"
      have tail: "sandbox_channel_addr (sb_chan w3 ?j) \<noteq> 0"
        "(if \<not> k_ok k At_malloc_tch then and_then (abandon_channel e ?j ?fd w3) (\<lambda>w4. Returns (None, w4))
          else if length (b_channels ?w4) \<ge> b_channel_cap ?w4 then
            (if \<not> k_ok k At_realloc_channels then
               and_then (abandon_channel e ?j ?fd ?w4)
                 (\<lambda>w5. and_then (release (TchMem ?j) w5) (\<lambda>w6. Returns (None, w6)))
             else
               let w5 = (if b_channel_cap ?w4 = 0 then acquire ChanVec ?w4 else ?w4)
               in Returns (Some ?j,
                    w5\<lparr>b_channel_cap := (if b_channel_cap ?w4 \<noteq> 0 then b_channel_cap ?w4 * 2 else 4),
                       b_channels := b_channels w5 @ [?j]\<rparr>))
          else Returns (Some ?j, ?w4\<lparr>b_channels := b_channels ?w4 @ [?j]\<rparr>)) = Returns (c, w')"
        using res ok send False ex by (auto simp: create_channel_locked_def Let_def split: if_splits)
      note sel = h2 h3 acquire_def
      show ?thesis
      proof (cases "k_ok k At_malloc_tch")
        case nm: False
        with tail(2) have "c = None" "abandon_channel e ?j ?fd w3 = Returns w'" by auto
        with abandon_channel_host [of e ?j ?fd w3 w'] same_fds show ?thesis by (simp add: sel)
      next
        case ml: True
        show ?thesis
        proof (cases "length (b_channels ?w4) \<ge> b_channel_cap ?w4 \<and> \<not> k_ok k At_realloc_channels")
          case True
          with tail(2) ml obtain w5 where c: "c = None" and ab: "abandon_channel e ?j ?fd ?w4 = Returns w5"
            and rl: "release (TchMem ?j) w5 = Returns w'" by auto
          from rl have "h_held w' = h_held w5 - {#TchMem ?j#}" "w' = w5\<lparr>h_held := h_held w'\<rparr>"
            by (auto simp: release_def split: if_splits)
          moreover note abandon_channel_host [OF ab]
          ultimately show ?thesis using c same_fds
            by (simp add: sel)
        next
          case False
          with tail(2) ml show ?thesis
            by (auto simp: sel Let_def split: if_splits)
        qed
      qed
    qed
  qed
qed

section \<open>Symbols and calls\<close>

text \<open>\<open>strncpy\<close> into \<open>symbol_name\<close>: at most 255 characters, zero-filled, then a final zero.\<close>

definition put_symbol_name :: "byte list \<Rightarrow> PBoxChannel \<Rightarrow> PBoxChannel" where
  "put_symbol_name s c =
     c\<lparr>symbol_name := take 255 (c_string s @ replicate 255 0) @ [0]\<rparr>"

definition dlsym_on :: "'m sandbox_env \<Rightarrow> nat \<Rightarrow> byte list \<Rightarrow> ('m, 'h) world \<Rightarrow> (u64 \<times> ('m, 'h) world) outcome" where
  "dlsym_on e i symbol w =
     and_then (exchange e i (put_chan i (put_symbol_name symbol ((sb_chan w i)\<lparr>request_type := PBOX_REQ_DLSYM\<rparr>)) w))
       (\<lambda>w'. Returns (symbol_addr (sb_chan w' i), w'))"

definition pbox_dlsym :: "'m sandbox_env \<Rightarrow> kernel \<Rightarrow> byte list \<Rightarrow> ('m, 'h) world \<Rightarrow> (u64 \<times> ('m, 'h) world) outcome" where
  "pbox_dlsym e k symbol w =
     and_then (get_or_create_channel e k w)
       (\<lambda>(c, w'). case c of None \<Rightarrow> Returns (0, w') | Some i \<Rightarrow> dlsym_on e i symbol w')"

text \<open>
  \<open>pbox_call\<close>. \<open>ret\<close> is the caller's result object before the call (\<open>None\<close> for a null pointer) and is
  returned as the call leaves it.
\<close>

definition pbox_call ::
  "'m sandbox_env \<Rightarrow> kernel \<Rightarrow> u64 \<Rightarrow> PBoxType \<Rightarrow> nat \<Rightarrow> PBoxType list \<Rightarrow> byte list list \<Rightarrow> byte list option \<Rightarrow>
     ('m, 'h) world \<Rightarrow> (byte list option \<times> ('m, 'h) world) outcome" where
  "pbox_call e k fn rt n ts vs ret w =
     and_then (get_or_create_channel e k w)
       (\<lambda>(c, w1). case c of
          None \<Rightarrow> Returns (ret, w1)
        | Some i \<Rightarrow>
            and_then (checked (pbox_pack_call fn rt n ts vs (sb_chan w1 i)))
              (\<lambda>ch. and_then (pbox_wait_for_response (k_turns k) e i
                                (pbox_set_state i PBOX_STATE_REQUEST (put_chan i ch w1)))
                (\<lambda>w2. let w3 = pbox_set_state i PBOX_STATE_IDLE w2 in
                   case ret of
                     None \<Rightarrow> Returns (None, w3)
                   | Some r \<Rightarrow>
                       and_then (checked (memcpy_to r 0 (result_storage (sb_chan w3 i)) (pbox_type_size rt)))
                         (\<lambda>r'. Returns (Some r', w3)))))"

section \<open>Descriptors\<close>

text \<open>\<open>pbox_cache_fd\<close> on the world: the first growth of the overflow vector allocates it.\<close>

definition remember_fd :: "kernel \<Rightarrow> nat \<Rightarrow> int \<Rightarrow> ('m, 'h) world \<Rightarrow> ('m, 'h) world" where
  "remember_fd k fd s w =
     (let c = pbox_cache_fd (k_ok k At_realloc_fds) (b_fds w) fd s;
          w' = w\<lparr>b_fds := c\<rparr>
      in if fd_overflow_cap (b_fds w) = 0 \<and> fd_overflow_cap c \<noteq> 0 then acquire FdVec w' else w')"

text \<open>\<open>pbox_send_fd\<close>: a negative descriptor is handed back, a cached one is not sent again.\<close>

definition pbox_send_fd :: "'m sandbox_env \<Rightarrow> kernel \<Rightarrow> int \<Rightarrow> ('m, 'h) world \<Rightarrow> (int \<times> ('m, 'h) world) outcome" where
  "pbox_send_fd e k fd w =
     (if fd < 0 then Returns (fd, w)
      else
        let cached = pbox_lookup_fd (b_fds w) (nat fd) in
        if cached \<ge> 0 then Returns (cached, w)
        else
          and_then (get_or_create_channel e k w)
            (\<lambda>(c, w1). case c of
               None \<Rightarrow> Returns (- 1, w1)
             | Some i \<Rightarrow>
                 and_then (pbox_send_fd_on_channel e k i (nat fd) w1)
                   (\<lambda>(s, w2). Returns (s, if s \<ge> 0 then remember_fd k (nat fd) s w2 else w2))))"

text \<open>The value of an \<open>int\<close> object. \<open>result0\<close> below is what the uninitialised \<open>result\<close> holds.\<close>

definition c_int :: "byte list \<Rightarrow> int" where
  "c_int bs = sint (word_of_nat (le_nat bs) :: u32)"

definition int_object :: "int \<Rightarrow> byte list" where
  "int_object x = nat_le 4 (unat (word_of_int x :: u32))"

definition pbox_close ::
  "'m sandbox_env \<Rightarrow> kernel \<Rightarrow> byte list \<Rightarrow> int \<Rightarrow> ('m, 'h) world \<Rightarrow> (int \<times> ('m, 'h) world) outcome" where
  "pbox_close e k result0 s w =
     (if b_sym_close w = 0 \<or> s < 0 then Returns (- 1, w)
      else
        and_then (pbox_call e k (b_sym_close w) PBOX_TYPE_SINT32 1 [PBOX_TYPE_SINT32] [int_object s] (Some result0) w)
          (\<lambda>(r, w1). let result = c_int (the r) in Returns (result,
             if result = 0 then w1\<lparr>b_fds := pbox_uncache_fd (b_fds w1) s\<rparr> else w1)))"

section \<open>Callbacks\<close>

text \<open>\<open>pbox_register_callback\<close>: publish the slot, then have the sandbox create the closure.\<close>

definition pbox_register_callback ::
  "'m sandbox_env \<Rightarrow> kernel \<Rightarrow> u64 \<Rightarrow> 'h dispatch_fn \<Rightarrow> PBoxType \<Rightarrow> int \<Rightarrow> PBoxType list \<Rightarrow> ('m, 'h) world \<Rightarrow>
     (u64 \<times> ('m, 'h) world) outcome" where
  "pbox_register_callback e k host_func dispatch rt n ts w =
     and_then (callback_publish host_func dispatch rt n ts (b_reg w))
       (\<lambda>p. case p of
          None \<Rightarrow> Returns (0, w)
        | Some (cid, reg) \<Rightarrow>
            and_then (get_or_create_channel e k (w\<lparr>b_reg := reg\<rparr>))
              (\<lambda>(c, w1). case c of
                 None \<Rightarrow> Returns (0, w1\<lparr>b_reg := (b_reg w1)\<lparr>callback_count := cid\<rparr>\<rparr>)
               | Some i \<Rightarrow>
                   and_then (exchange e i (put_chan i (closure_request cid rt n ts (sb_chan w1 i)) w1))
                     (\<lambda>w2. let addr = closure_addr (sb_chan w2 i); r = b_reg w2 in
                        Returns (addr, w2\<lparr>b_reg := r\<lparr>callbacks := (callbacks r)[cid :=
                          (callbacks r ! cid)\<lparr>cb_sandbox_closure := addr\<rparr>]\<rparr>\<rparr>))))"

section \<open>Direct calls\<close>

text \<open>
  The specification of a foreign call: the library function runs, and whenever it calls a closure
  stub the host function behind it is applied to the arguments the calling convention put in the
  registers, as in a program without a sandbox. \<open>None\<close> is a library that dies or calls a stub that
  belongs to no callback.
\<close>

definition stub_callback :: "'h callback_registry \<Rightarrow> closure_table \<Rightarrow> nat \<Rightarrow> 'h PBoxCallback option" where
  "stub_callback reg tbl s =
     (if s < closure_count tbl then Some (callbacks reg ! nat (ci_callback_id (closure_info tbl ! s))) else None)"

primrec direct_call ::
  "arch \<Rightarrow> DyfnClosureResult \<Rightarrow> (u64 \<Rightarrow> byte list list \<Rightarrow> 'h \<Rightarrow> byte list \<times> 'h) \<Rightarrow> 'h callback_registry \<Rightarrow>
     closure_table \<Rightarrow> 's lib_run \<Rightarrow> 'h \<Rightarrow> (DyfnCallResult \<times> 's \<times> 'h) option" where
  "direct_call a junk fn reg tbl (LibReturns r p) h = Some (r, p, h)"
| "direct_call a junk fn reg tbl (LibCallback sv k) h =
     (case stub_callback reg tbl (sv_stub_index sv) of
        None \<Rightarrow> None
      | Some cb \<Rightarrow>
          if saved_wf sv then
            let (r, h') = fn (cb_func_ptr cb) (saved_args a (take (nat (cb_nargs cb)) (cb_arg_types cb)) sv) h
            in direct_call a junk fn reg tbl (k (stub_result junk (cb_ret_type cb) r)) h'
          else None)"
| "direct_call a junk fn reg tbl LibDies h = None"

end
