(* ===== verification/Calls.thy ===== *)
theory Calls
  imports Host
begin

text \<open>
  A call through the box behaves as a direct call: \<open>pbox_call\<close>, the dispatch loop of the worker and
  any number of callbacks together compute what \<open>direct_call\<close> specifies (theory \<open>Host\<close>), and
  registering a callback establishes the link between the host's registry and the closure table
  of the serving thread on which this rests.
\<close>

section \<open>The link between the two callback tables\<close>

text \<open>Every closure slot in use belongs to the registry entry whose number it carries.\<close>

definition closures_linked :: "'h callback_registry \<Rightarrow> closure_table \<Rightarrow> bool" where
  "closures_linked reg tbl \<longleftrightarrow>
     registry_wf reg \<and> closure_table_wf tbl \<and>
     (\<forall>s<closure_count tbl. linked reg tbl s (nat (ci_callback_id (closure_info tbl ! s))))"

definition registry_typed :: "(u64 \<Rightarrow> byte list list \<Rightarrow> 'h \<Rightarrow> byte list \<times> 'h) \<Rightarrow> 'h callback_registry \<Rightarrow> bool" where
  "registry_typed fn reg \<longleftrightarrow>
     (\<forall>i<callback_count reg. typed_callback fn (callbacks reg ! i) \<and>
        (\<forall>vs h. pbox_type_size (cb_ret_type (callbacks reg ! i)) \<le>
                length (fst (fn (cb_func_ptr (callbacks reg ! i)) vs h))))"

lemma stub_callback_linked:
  assumes "closures_linked reg tbl" "stub_callback reg tbl s = Some cb"
  obtains i where "linked reg tbl s i" "cb = callbacks reg ! i" "i < callback_count reg"
proof -
  from assms have "linked reg tbl s (nat (ci_callback_id (closure_info tbl ! s)))"
    "cb = callbacks reg ! nat (ci_callback_id (closure_info tbl ! s))"
    by (auto simp: stub_callback_def closures_linked_def split: if_splits)
  moreover from this have "nat (ci_callback_id (closure_info tbl ! s)) < callback_count reg"
    by (simp add: linked_def)
  ultimately show thesis by (rule that)
qed

section \<open>The wait for a response\<close>

lemma set_state_chan [simp]: "sb_chan (pbox_set_state i s w) i = (sb_chan w i)\<lparr>ch_state := s\<rparr>"
  by (simp add: pbox_set_state_def)

text \<open>The world after a call on channel \<open>i\<close>: channel, thread, process and application changed.\<close>

abbreviation after_call :: "nat \<Rightarrow> PBoxChannel \<Rightarrow> 'm proc \<Rightarrow> 'h \<Rightarrow> ('m, 'h) world \<Rightarrow> ('m, 'h) world" where
  "after_call i c p h w \<equiv>
     w\<lparr>sb_chan := (sb_chan w)(i := c), sb_worker := (sb_worker w)(i := AtLoop), sb_proc := p, h_app := h\<rparr>"

definition call_result :: "PBoxType \<Rightarrow> DyfnCallResult \<Rightarrow> byte list" where
  "call_result rt r =
     take (pbox_type_size rt) (to_bytes (if is_float_type (sent_type rt) then float_val r else int_val r))"

lemma run_lib_callback:
  assumes "closure_dispatch_request (e_arch e) (sb_table w i) sv (sb_chan w i) = Some c"
  shows "run_lib e i (LibCallback sv k) w =
    w\<lparr>sb_chan := (sb_chan w)(i := c), sb_worker := (sb_worker w)(i := InCallback sv k)\<rparr>"
  using assms by (simp add: run_lib_def or_dies_def)

lemma run_lib_returns:
  assumes "do_ffi_finish r (sb_chan w i) = Some c"
  shows "run_lib e i (LibReturns r p) w =
    w\<lparr>sb_chan := (sb_chan w)(i := c\<lparr>mem_storage := pr_window p, ch_state := PBOX_STATE_RESPONSE\<rparr>),
      sb_worker := (sb_worker w)(i := AtLoop), sb_proc := p\<rparr>"
  using assms by (simp add: run_lib_def or_dies_def respond_def)

lemma wait_direct:
  fixes w :: "('m, 'h) world" and run :: "'m proc lib_run"
  assumes "closures_linked (b_reg w) (sb_table w i)" "registry_typed fn (b_reg w)"
    and "channel_wf (sb_chan w i)" "ret_type (sb_chan w i) = pbox_type_code rt" "pbox_type_wf rt" "sb_alive w"
    and "direct_call (e_arch e) (e_junk e) fn (b_reg w) (sb_table w i) run (h_app w) = Some (r, p, h)"
    and "length (pr_window p) = PBOX_MEM_STORAGE"
  shows "ch_state (sb_chan (run_lib e i run w) i) \<noteq> PBOX_STATE_REQUEST \<and>
    (\<exists>c n0. channel_wf c \<and> ch_state c = PBOX_STATE_RESPONSE \<and> mem_storage c = pr_window p \<and>
       sandbox_channel_addr c = sandbox_channel_addr (sb_chan w i) \<and>
       take (pbox_type_size rt) (result_storage c) = call_result rt r \<and>
       (\<forall>n\<ge>n0. pbox_wait_for_response n e i (run_lib e i run w) = Returns (after_call i c p h w)))"
  using assms
proof (induction run arbitrary: w)
  case (LibReturns r' p')
  then have rp: "r' = r" "p' = p" "h_app w = h" by simp_all
  from do_ffi_finish_result [OF LibReturns.prems(3-5), of r] obtain c where
    c: "do_ffi_finish r (sb_chan w i) = Some c" "channel_wf c"
      "c = (sb_chan w i)\<lparr>result_storage := result_storage c\<rparr>"
      "take (pbox_type_size rt) (result_storage c) = call_result rt r"
    unfolding call_result_def by metis
  let ?c = "c\<lparr>mem_storage := pr_window p, ch_state := PBOX_STATE_RESPONSE\<rparr>"
  have run: "run_lib e i (LibReturns r' p') w = after_call i ?c p h w"
    using run_lib_returns [OF c(1), of e p] rp by (auto intro!: world.equality)
  have "sandbox_channel_addr c = sandbox_channel_addr (sb_chan w i)" using c(3) by (metis PBoxChannel.select_convs(2) PBoxChannel.surjective PBoxChannel.update_convs(20))
  moreover have "\<forall>n\<ge>1. pbox_wait_for_response n e i (after_call i ?c p h w) = Returns (after_call i ?c p h w)"
  proof (intro allI impI)
    fix n :: nat
    assume "1 \<le> n"
    then show "pbox_wait_for_response n e i (after_call i ?c p h w) = Returns (after_call i ?c p h w)"
      by (cases n) (simp_all add: Let_def)
  qed
  moreover have "channel_wf ?c" using c(2) LibReturns.prems(8) by (simp add: channel_wf_def)
  ultimately show ?case
    unfolding run using c(4) by (intro conjI exI [of _ ?c] exI [of _ 1]) (assumption | simp)+
next
  case (LibCallback sv k)
  let ?reg = "b_reg w" and ?tbl = "sb_table w i"
  from LibCallback.prems(7) obtain cb where
    cb: "stub_callback ?reg ?tbl (sv_stub_index sv) = Some cb" and sv: "saved_wf sv"
    by (auto split: option.splits if_splits)
  let ?vs = "saved_args (e_arch e) (take (nat (cb_nargs cb)) (cb_arg_types cb)) sv"
  obtain res h1 where fn: "fn (cb_func_ptr cb) ?vs (h_app w) = (res, h1)" by fastforce
  have dir: "direct_call (e_arch e) (e_junk e) fn ?reg ?tbl (k (stub_result (e_junk e) (cb_ret_type cb) res)) h1 = Some (r, p, h)"
    using LibCallback.prems(7) cb sv fn by simp
  from stub_callback_linked [OF LibCallback.prems(1) cb] obtain j where
    j: "linked ?reg ?tbl (sv_stub_index sv) j" "cb = callbacks ?reg ! j" "j < callback_count ?reg" .
  have ty: "typed_callback fn cb" "pbox_type_size (cb_ret_type cb) \<le> length res"
    using LibCallback.prems(2) j(2,3) fn by (auto simp: registry_typed_def) (metis fst_conv)
  have wf: "closure_table_wf ?tbl" "registry_wf ?reg" using LibCallback.prems(1) by (simp_all add: closures_linked_def)
  obtain ch1 ch2 where
    ch1: "closure_dispatch_request (e_arch e) ?tbl sv (sb_chan w i) = Some ch1" "ch_state ch1 = PBOX_STATE_CALLBACK"
    and ch2: "pbox_dispatch_callback ?reg ch1 (h_app w) = Some (False, ch2, h1)" "channel_wf ch2"
      "ret_type ch2 = ret_type (sb_chan w i)" "sandbox_channel_addr ch2 = sandbox_channel_addr (sb_chan w i)"
    and res: "closure_dispatch_result ?tbl sv (ch2\<lparr>ch_state := PBOX_STATE_REQUEST\<rparr>) (e_junk e) =
       Some (stub_result (e_junk e) (cb_ret_type cb) res)"
    by (rule callback_step [OF LibCallback.prems(3) sv wf j(1,2) ty(1) fn ty(2)])
  let ?c2 = "ch2\<lparr>ch_state := PBOX_STATE_REQUEST\<rparr>"
  define w1 where "w1 = w\<lparr>sb_chan := (sb_chan w)(i := ch1), sb_worker := (sb_worker w)(i := InCallback sv k)\<rparr>"
  define w2 where "w2 = w\<lparr>sb_chan := (sb_chan w)(i := ?c2), sb_worker := (sb_worker w)(i := InCallback sv k), h_app := h1\<rparr>"
  have run: "run_lib e i (LibCallback sv k) w = w1"
    unfolding w1_def by (rule run_lib_callback [OF ch1(1)])
  have cbk: "host_callback i w1 = Returns (w1\<lparr>sb_chan := (sb_chan w)(i := ch2), h_app := h1\<rparr>)"
    using ch2(1) by (simp add: host_callback_def w1_def)
  have set: "pbox_set_state i PBOX_STATE_REQUEST (w1\<lparr>sb_chan := (sb_chan w)(i := ch2), h_app := h1\<rparr>) = w2"
    by (simp add: pbox_set_state_def w1_def w2_def)
  have turn: "sandbox_run e i w2 = run_lib e i (k (stub_result (e_junk e) (cb_ret_type cb) res)) w2"
    using LibCallback.prems(6) res by (simp add: sandbox_run_def w2_def)
  let ?run = "k (stub_result (e_junk e) (cb_ret_type cb) res)"
  have ih: "ch_state (sb_chan (run_lib e i ?run w2) i) \<noteq> PBOX_STATE_REQUEST \<and>
    (\<exists>c n0. channel_wf c \<and> ch_state c = PBOX_STATE_RESPONSE \<and> mem_storage c = pr_window p \<and>
       sandbox_channel_addr c = sandbox_channel_addr (sb_chan w2 i) \<and>
       take (pbox_type_size rt) (result_storage c) = call_result rt r \<and>
       (\<forall>n\<ge>n0. pbox_wait_for_response n e i (run_lib e i ?run w2) = Returns (after_call i c p h w2)))"
    using LibCallback.prems ch2(2,3) dir
    by (intro LibCallback.IH) (simp_all add: w2_def channel_wf_def)
  then obtain c n0 where ne: "ch_state (sb_chan (run_lib e i ?run w2) i) \<noteq> PBOX_STATE_REQUEST"
    and c: "channel_wf c" "ch_state c = PBOX_STATE_RESPONSE" "mem_storage c = pr_window p"
      "sandbox_channel_addr c = sandbox_channel_addr (sb_chan w2 i)"
      "take (pbox_type_size rt) (result_storage c) = call_result rt r"
    and n0: "\<And>n. n \<ge> n0 \<Longrightarrow> pbox_wait_for_response n e i (run_lib e i ?run w2) = Returns (after_call i c p h w2)"
    by blast
  have final: "after_call i c p h w2 = after_call i c p h w" by (simp add: w2_def)
  have st2: "ch_state (sb_chan w2 i) = PBOX_STATE_REQUEST" by (simp add: w2_def)
  have w2n: "pbox_wait_for_response (Suc n) e i w2 = Returns (after_call i c p h w)" if "n \<ge> n0" for n
    using n0 [OF that] ne st2 by (simp add: turn final Let_def)
  have st1: "ch_state (sb_chan w1 i) = PBOX_STATE_CALLBACK" by (simp add: w1_def ch1(2))
  have "\<forall>n\<ge>Suc (Suc n0). pbox_wait_for_response n e i w1 = Returns (after_call i c p h w)"
  proof (intro allI impI)
    fix n
    assume "Suc (Suc n0) \<le> n"
    then obtain m where m: "n = Suc (Suc m)" "m \<ge> n0" by (metis Suc_le_D Suc_le_mono)
    have "pbox_wait_for_response n e i w1 = pbox_wait_for_response (Suc m) e i w2"
      unfolding m(1) pbox_wait_for_response.simps(2) [of "Suc m"] Let_def st1 cbk using set by (simp del: pbox_wait_for_response.simps)
    then show "pbox_wait_for_response n e i w1 = Returns (after_call i c p h w)" using w2n [OF m(2)] by (rule trans)
  qed
  moreover have "sandbox_channel_addr c = sandbox_channel_addr (sb_chan w i)" using c(4) ch2(4) by (simp add: w2_def)
  moreover have "ch_state (sb_chan w1 i) \<noteq> PBOX_STATE_REQUEST" by (simp add: st1)
  ultimately show ?case
    unfolding run using c(1,2,3,5) by blast
next
  case LibDies
  then show ?case by simp
qed

section \<open>A foreign call\<close>

text \<open>The thread has a channel whose worker waits at the top of its loop, and the tables are linked.\<close>

definition call_ready :: "(u64 \<Rightarrow> byte list list \<Rightarrow> 'h \<Rightarrow> byte list \<times> 'h) \<Rightarrow> nat \<Rightarrow> ('m, 'h) world \<Rightarrow> bool" where
  "call_ready fn i w \<longleftrightarrow>
     h_tls w = Some i \<and> sb_alive w \<and> sb_worker w i = AtLoop \<and> channel_wf (sb_chan w i) \<and>
     closures_linked (b_reg w) (sb_table w i) \<and> registry_typed fn (b_reg w)"

definition call_frame :: "'m sandbox_env \<Rightarrow> u64 \<Rightarrow> PBoxType \<Rightarrow> nat \<Rightarrow> PBoxType list \<Rightarrow> byte list list \<Rightarrow> DyfnCallArgs option" where
  "call_frame e f rt n ts vs = dyfn_prep_call (e_arch e) f (sent_type rt) (int n) (map sent_type ts) vs"

lemma call_result_take:
  assumes "pbox_type_size rt \<le> length xs" "take (pbox_type_size rt) xs = call_result rt r" "pbox_type_size rt \<le> length b"
  shows "memcpy_to b 0 xs (pbox_type_size rt) = Some (blit b 0 (call_result rt r))"
  using assms by (simp add: memcpy_to_def)

lemma call_direct:
  fixes w :: "('m, 'h) world"
  assumes ready: "call_ready fn i w" and ok: "pbox_args_ok n ts vs" and rt: "pbox_type_wf rt"
    and frame: "call_frame e f rt n ts vs = Some frame"
    and dir: "direct_call (e_arch e) (e_junk e) fn (b_reg w) (sb_table w i)
       (e_lib e frame ((sb_proc w)\<lparr>pr_window := mem_storage (sb_chan w i)\<rparr>)) (h_app w) = Some (r, p, h)"
    and win: "length (pr_window p) = PBOX_MEM_STORAGE"
    and ret: "\<forall>b\<in>set_option ret. pbox_type_size rt \<le> length b"
  obtains c turns where "channel_wf c" "ch_state c = PBOX_STATE_IDLE" "mem_storage c = pr_window p"
    "sandbox_channel_addr c = sandbox_channel_addr (sb_chan w i)"
    "\<And>k :: kernel. turns \<le> k_turns k \<Longrightarrow> pbox_call e k f rt n ts vs ret w =
       Returns (map_option (\<lambda>b. blit b 0 (call_result rt r)) ret, after_call i c p h w)"
proof -
  have r: "h_tls w = Some i" "sb_alive w" "sb_worker w i = AtLoop" "channel_wf (sb_chan w i)"
    "closures_linked (b_reg w) (sb_table w i)" "registry_typed fn (b_reg w)"
    using ready by (simp_all add: call_ready_def)
  obtain ch where ch: "pbox_pack_call f rt n ts vs (sb_chan w i) = Some ch" "channel_wf ch"
    "mem_storage ch = mem_storage (sb_chan w i)" "sandbox_channel_addr ch = sandbox_channel_addr (sb_chan w i)"
    "request_type ch = PBOX_REQ_CALL" "ret_type ch = pbox_type_code rt"
    using pbox_pack_call_spec [OF r(4) ok, of f rt] by metis
  let ?c0 = "ch\<lparr>ch_state := PBOX_STATE_REQUEST\<rparr>"
  define w1 where "w1 = put_chan i ?c0 w"
  let ?run = "e_lib e frame ((sb_proc w)\<lparr>pr_window := mem_storage (sb_chan w i)\<rparr>)"
  have start: "pbox_set_state i PBOX_STATE_REQUEST (put_chan i ch w) = w1"
    by (simp add: pbox_set_state_def w1_def)
  have prep: "do_ffi_prepare (e_arch e) ?c0 = Some frame"
  proof -
    have "do_ffi_prepare (e_arch e) ?c0 = do_ffi_prepare (e_arch e) ch"
      by (simp add: do_ffi_prepare_def ffi_arg_values_def)
    also have "\<dots> = Some frame"
      using do_ffi_prepare_packed [OF r(4) ok ch(1)] frame by (simp add: call_frame_def)
    finally show ?thesis .
  qed
  have turn: "sandbox_run e i w1 = run_lib e i ?run w1"
    using r(2,3) prep ch(3,5) by (simp add: sandbox_run_def dispatch_request_def serve_call_def w1_def)
  have "ch_state (sb_chan (run_lib e i ?run w1) i) \<noteq> PBOX_STATE_REQUEST \<and>
    (\<exists>c n0. channel_wf c \<and> ch_state c = PBOX_STATE_RESPONSE \<and> mem_storage c = pr_window p \<and>
       sandbox_channel_addr c = sandbox_channel_addr (sb_chan w1 i) \<and>
       take (pbox_type_size rt) (result_storage c) = call_result rt r \<and>
       (\<forall>n\<ge>n0. pbox_wait_for_response n e i (run_lib e i ?run w1) = Returns (after_call i c p h w1)))"
    using r ch(2,6) rt dir win by (intro wait_direct) (simp_all add: w1_def channel_wf_def)
  then obtain c n0 where ne: "ch_state (sb_chan (run_lib e i ?run w1) i) \<noteq> PBOX_STATE_REQUEST"
    and c: "channel_wf c" "mem_storage c = pr_window p"
      "sandbox_channel_addr c = sandbox_channel_addr (sb_chan w1 i)"
      "take (pbox_type_size rt) (result_storage c) = call_result rt r"
    and wait: "\<And>n. n \<ge> n0 \<Longrightarrow> pbox_wait_for_response n e i (run_lib e i ?run w1) = Returns (after_call i c p h w1)"
    by blast
  have w: "after_call i c p h w1 = after_call i c p h w" by (simp add: w1_def)
  have st: "ch_state (sb_chan w1 i) = PBOX_STATE_REQUEST" by (simp add: w1_def)
  have w1n: "pbox_wait_for_response n e i w1 = Returns (after_call i c p h w)" if "n \<ge> Suc n0" for n
  proof -
    from that obtain m where m: "n = Suc m" "m \<ge> n0" by (metis Suc_le_D Suc_le_mono)
    show ?thesis using wait [OF m(2)] ne st by (simp add: m(1) turn w Let_def)
  qed
  let ?c = "c\<lparr>ch_state := PBOX_STATE_IDLE\<rparr>"
  have idle: "pbox_set_state i PBOX_STATE_IDLE (after_call i c p h w) = after_call i ?c p h w"
    by (simp add: pbox_set_state_def)
  have len: "pbox_type_size rt \<le> length (result_storage c)"
    using c(1) pbox_type_size_le_8 [of rt] by (simp add: channel_wf_def)
  show thesis
  proof (rule that)
    show "channel_wf ?c" "ch_state ?c = PBOX_STATE_IDLE" "mem_storage ?c = pr_window p"
      "sandbox_channel_addr ?c = sandbox_channel_addr (sb_chan w i)"
      using c ch(4) by (simp_all add: channel_wf_def w1_def)
    fix k :: kernel
    assume k: "Suc n0 \<le> k_turns k"
    show "pbox_call e k f rt n ts vs ret w =
       Returns (map_option (\<lambda>b. blit b 0 (call_result rt r)) ret, after_call i ?c p h w)"
      using r(1) ch(1) w1n [OF k] idle call_result_take [OF len c(4)] ret
      by (cases ret) (simp_all add: pbox_call_def get_or_create_channel_def start Let_def)
  qed
qed

section \<open>Registering a callback\<close>

text \<open>The two table updates of a registration, on both sides of the channel.\<close>

definition new_callback :: "u64 \<Rightarrow> 'h dispatch_fn \<Rightarrow> PBoxType \<Rightarrow> int \<Rightarrow> PBoxType list \<Rightarrow> 'h PBoxCallback \<Rightarrow> 'h PBoxCallback" where
  "new_callback f d rt n ts cb =
     cb\<lparr>cb_func_ptr := f, cb_dispatch := d, cb_ret_type := rt, cb_nargs := n,
        cb_arg_types := blit (cb_arg_types cb) 0 (take (nat n) ts)\<rparr>"

lemma callback_publish_Some:
  assumes "callback_count reg < PBOX_MAX_CALLBACKS" "n \<le> int PBOX_MAX_ARGS"
  shows "callback_publish f d rt n ts reg = Returns (Some (callback_count reg,
    reg\<lparr>callbacks := (callbacks reg)[callback_count reg := new_callback f d rt n ts (callbacks reg ! callback_count reg)],
        callback_count := callback_count reg + 1\<rparr>))"
  using assms by (simp add: callback_publish_def new_callback_def Let_def)

lemma closure_request_arg_types:
  assumes "channel_wf ch" "nat n \<le> PBOX_MAX_ARGS" "nat n \<le> length ts" "k < nat n"
  shows "closure_arg_types (closure_request i rt n ts ch) ! k = pbox_type_code (ts ! k)"
  using assms by (simp add: closure_request_def nth_blit_inside channel_wf_def)

lemma closure_request_wf [simp]:
  "channel_wf ch \<Longrightarrow> nat n \<le> PBOX_MAX_ARGS \<Longrightarrow> nat n \<le> length ts \<Longrightarrow> channel_wf (closure_request i rt n ts ch)"
  by (simp add: closure_request_def channel_wf_def)

definition signature_ok :: "PBoxType \<Rightarrow> int \<Rightarrow> PBoxType list \<Rightarrow> bool" where
  "signature_ok rt n ts \<longleftrightarrow>
     0 \<le> n \<and> n \<le> int PBOX_MAX_ARGS \<and> nat n \<le> length ts \<and> pbox_type_wf rt \<and> (\<forall>t\<in>set (take (nat n) ts). pbox_type_wf t)"

lemma closures_linked_extend:
  assumes lk: "closures_linked reg tbl" and sig: "signature_ok rt n ts"
    and room: "callback_count reg < PBOX_MAX_CALLBACKS" "closure_count tbl < DYFN_MAX_CLOSURES"
    and cts: "length cts = PBOX_MAX_ARGS" "\<And>k. k < nat n \<Longrightarrow> cts ! k = sent_type (ts ! k)"
    and reg': "reg' = reg\<lparr>callbacks := (callbacks reg)[callback_count reg := new_callback f d rt n ts (callbacks reg ! callback_count reg)\<lparr>cb_sandbox_closure := addr\<rparr>],
        callback_count := callback_count reg + 1\<rparr>"
    and tbl': "dyfn_closure_alloc stubs (int (callback_count reg)) (sent_type rt) n cts tbl = Some (p, tbl')"
  shows "closures_linked reg' tbl' \<and> linked reg' tbl' (closure_count tbl) (callback_count reg) \<and>
    closure_count tbl' = closure_count tbl + 1 \<and> p = stubs (closure_count tbl)"
proof -
  let ?i = "callback_count reg" and ?s = "closure_count tbl"
  let ?info = "closure_info tbl ! ?s" and ?cb = "callbacks reg ! ?i"
  have wf: "registry_wf reg" "closure_table_wf tbl" using lk by (simp_all add: closures_linked_def)
  have len: "length (callbacks reg) = 64" "length (closure_info tbl) = 64"
    "length (ci_arg_types ?info) = 10" "length (cb_arg_types ?cb) = 10"
    using wf room by (simp_all add: registry_wf_def closure_table_wf_def)
  have n: "0 \<le> n" "nat n \<le> 10" "n \<le> 10" "nat n \<le> length ts" using sig by (auto simp: signature_ok_def)
  have t: "p = stubs ?s" "tbl' = tbl\<lparr>closure_count := ?s + 1, closure_info := (closure_info tbl)[?s :=
      ?info\<lparr>ci_callback_id := int ?i, ci_ret_type := sent_type rt, ci_nargs := n,
        ci_arg_types := blit (ci_arg_types ?info) 0 (take (nat n) cts), ci_active := True\<rparr>]\<rparr>"
    using tbl' room len cts(1) n by (auto simp: dyfn_closure_alloc_def Let_def)
  have tw: "closure_table_wf tbl'" by (rule dyfn_closure_alloc_wf [OF wf(2) tbl'])
  have rw: "registry_wf reg'"
    using wf(1) room len n by (auto simp: registry_wf_def reg' new_callback_def dest!: set_update_subset_insert [THEN subsetD])
  have at: "blit (ci_arg_types ?info) 0 (take (nat n) cts) ! k = sent_type (ts ! k)"
    "blit (cb_arg_types ?cb) 0 (take (nat n) ts) ! k = ts ! k" "pbox_type_wf (ts ! k)" if "k < nat n" for k
  proof -
    show "blit (ci_arg_types ?info) 0 (take (nat n) cts) ! k = sent_type (ts ! k)"
      "blit (cb_arg_types ?cb) 0 (take (nat n) ts) ! k = ts ! k"
      using that n len cts by (simp_all add: nth_blit_inside)
    have "ts ! k \<in> set (take (nat n) ts)" using that n by (metis in_set_conv_nth length_take min.absorb2 nth_take)
    then show "pbox_type_wf (ts ! k)" using sig by (simp add: signature_ok_def)
  qed
  have new: "linked reg' tbl' ?s ?i"
    using room len n at sig by (simp add: linked_def reg' t new_callback_def Let_def signature_ok_def)
  have old: "linked reg' tbl' s (nat (ci_callback_id (closure_info tbl' ! s)))" if "s < ?s" for s
  proof -
    have "linked reg tbl s (nat (ci_callback_id (closure_info tbl ! s)))"
      using lk that by (simp add: closures_linked_def)
    then show ?thesis using that by (auto simp: linked_def reg' t Let_def)
  qed
  have "linked reg' tbl' s (nat (ci_callback_id (closure_info tbl' ! s)))" if "s < closure_count tbl'" for s
  proof (cases "s = ?s")
    case True
    then show ?thesis using new len room by (simp add: t)
  next
    case False
    then show ?thesis using old that by (simp add: t)
  qed
  then show ?thesis using new tw rw t by (simp add: closures_linked_def)
qed

text \<open>A registration on a thread with a channel and room in both tables.\<close>

lemma register_callback_result:
  fixes w :: "('m, 'h) world"
  assumes ready: "call_ready fn i w" and sig: "signature_ok rt n ts"
    and room: "callback_count (b_reg w) < PBOX_MAX_CALLBACKS" "closure_count (sb_table w i) < DYFN_MAX_CLOSURES"
  obtains w' where "pbox_register_callback e k f d rt n ts w = Returns (e_stubs e (closure_count (sb_table w i)), w')"
    "closures_linked (b_reg w') (sb_table w' i)"
    "linked (b_reg w') (sb_table w' i) (closure_count (sb_table w i)) (callback_count (b_reg w))"
    "callback_count (b_reg w') = callback_count (b_reg w) + 1"
    "\<And>j. j < callback_count (b_reg w) \<Longrightarrow> callbacks (b_reg w') ! j = callbacks (b_reg w) ! j"
    "callbacks (b_reg w') ! callback_count (b_reg w) = new_callback f d rt n ts (callbacks (b_reg w) ! callback_count (b_reg w))
       \<lparr>cb_sandbox_closure := e_stubs e (closure_count (sb_table w i))\<rparr>"
    "h_tls w' = Some i" "sb_alive w'" "sb_worker w' i = AtLoop" "channel_wf (sb_chan w' i)"
    "closure_count (sb_table w' i) = closure_count (sb_table w i) + 1"
proof -
  have r: "h_tls w = Some i" "sb_alive w" "sb_worker w i = AtLoop" "channel_wf (sb_chan w i)"
    "closures_linked (b_reg w) (sb_table w i)"
    using ready by (simp_all add: call_ready_def)
  have n: "n \<le> 10" "nat n \<le> 10" "nat n \<le> length ts" using sig by (auto simp: signature_ok_def)
  let ?cid = "callback_count (b_reg w)" and ?tbl = "sb_table w i"
  let ?cb = "new_callback f d rt n ts (callbacks (b_reg w) ! ?cid)"
  let ?reg = "(b_reg w)\<lparr>callbacks := (callbacks (b_reg w))[?cid := ?cb], callback_count := ?cid + 1\<rparr>"
  let ?ch = "closure_request ?cid rt n ts (sb_chan w i)"
  let ?cts = "map dyfn_of_code (closure_arg_types ?ch)"
  have chw: "channel_wf ?ch" using r(4) n by simp
  have cts: "length ?cts = 10" "\<And>k. k < nat n \<Longrightarrow> ?cts ! k = sent_type (ts ! k)"
    using chw closure_request_arg_types [OF r(4) n(2,3)] n by (simp_all add: channel_wf_def)
  have wf: "closure_table_wf ?tbl" "registry_wf (b_reg w)" using r(5) by (simp_all add: closures_linked_def)
  have "\<exists>p tbl'. dyfn_closure_alloc (e_stubs e) (int ?cid) (sent_type rt) n ?cts ?tbl = Some (p, tbl')"
    using wf(1) room(2) cts(1) n(2) by (simp add: dyfn_closure_alloc_def closure_table_wf_def Let_def)
  then obtain p tbl' where alloc: "dyfn_closure_alloc (e_stubs e) (int ?cid) (sent_type rt) n ?cts ?tbl = Some (p, tbl')" by blast
  define addr where "addr = e_stubs e (closure_count ?tbl)"
  let ?reg' = "(b_reg w)\<lparr>callbacks := (callbacks (b_reg w))[?cid := ?cb\<lparr>cb_sandbox_closure := addr\<rparr>], callback_count := ?cid + 1\<rparr>"
  note ext = closures_linked_extend [where f = f and d = d and addr = addr, OF r(5) sig room cts refl alloc]
  define ch' where "ch' = ?ch\<lparr>closure_addr := p, ch_state := PBOX_STATE_IDLE\<rparr>"
  define w' where "w' = w\<lparr>b_reg := ?reg', sb_chan := (sb_chan w)(i := ch'), sb_table := (sb_table w)(i := tbl')\<rparr>"
  have ex: "exchange e i (put_chan i ?ch (w\<lparr>b_reg := ?reg\<rparr>)) =
      Returns (w\<lparr>b_reg := ?reg, sb_chan := (sb_chan w)(i := ch'), sb_table := (sb_table w)(i := tbl')\<rparr>)"
    using r(2,3) alloc
    by (simp add: exchange_def pbox_wait_for_state_def pbox_set_state_def sandbox_run_def dispatch_request_def
        serve_create_closure_def closure_request_def respond_def ch'_def Let_def)
  have "pbox_register_callback e k f d rt n ts w = Returns (p, w')"
    using callback_publish_Some [OF room(1), of n f d rt ts] n(1) r(1) ex ext wf(2) room(1)
    by (simp add: pbox_register_callback_def get_or_create_channel_def w'_def ch'_def addr_def Let_def registry_wf_def)
  moreover have "channel_wf ch'" using chw by (simp add: ch'_def channel_wf_def)
  ultimately show thesis
    using ext r wf(2) room(1) by (intro that [of w']) (simp_all add: w'_def addr_def registry_wf_def)
qed

section \<open>An example box\<close>

text \<open>
  One callback is registered (\<open>uint64_t \<rightarrow> uint64_t\<close>, it adds one and counts its invocations); the
  library function at \<open>0x1000\<close> calls it on its own argument and returns what it returns, every other
  function returns its first integer register.
\<close>

definition example_lib :: "DyfnCallArgs \<Rightarrow> 'm proc \<Rightarrow> 'm proc lib_run" where
  "example_lib call p =
     (if func call = 0x1000
      then LibCallback (example_saved (int_regs call ! 0))
             (\<lambda>res. LibReturns \<lparr>int_val = cr_int_val res, float_val = 0\<rparr> p)
      else LibReturns \<lparr>int_val = int_regs call ! 0, float_val = 0\<rparr> p)"

definition example_env :: "unit sandbox_env" where
  "example_env = \<lparr>e_arch = X86_64, e_stubs = (\<lambda>i. 0x5000 + word_of_nat (16 * i)), e_lib = example_lib,
     e_dlsym = (\<lambda>s. if s = [102] then 0x1000 else 0),
     e_new_fd = (\<lambda>fds. if fds 3 = None then 3 else if fds 4 = None then 4 else - 1),
     e_spawn_ok = True, e_map_file = (\<lambda>f. Mapped), e_filter_ok = True, e_chan_addr = (\<lambda>i. 0x7F0000000000 + word_of_nat (8192 * i)),
     e_junk = \<lparr>cr_int_val = 0, cr_float_val = 0, cr_ret_class = DYFN_CLASS_INT\<rparr>\<rparr>"

definition example_kernel :: kernel where
  "example_kernel = \<lparr>k_ok = (\<lambda>_. True), k_fd = (\<lambda>fds. if fds 5 = None then 5 else 6), k_turns = 10,
     k_addr = 0x7F1000000000, k_fixed = (\<lambda>a. a), k_maps = (\<lambda>_. Some []), k_heap = (\<lambda>_ _. True),
     k_cloexec = (\<lambda>_. False), k_sigpipe_ignored = False\<rparr>"

definition example_world :: "(unit, nat) world" where
  "example_world = \<lparr>
     sb_chan = (\<lambda>_. zero_channel\<lparr>sandbox_channel_addr := 0x7F0000002000\<rparr>),
     sb_worker = (\<lambda>i. if i < 2 then AtLoop else NoWorker), sb_table = (\<lambda>_. example_table),
     sb_proc = \<lparr>pr_mem = (), pr_fds = Map.empty, pr_window = []\<rparr>, sb_sock = [], sb_alive = True,
     h_fds = [3 \<mapsto> HostFile 0, 4 \<mapsto> HostFile 1], h_held = {#}, h_next = 2, h_app = 0, h_tls = Some 1,
     b_sock_fd = 0, b_control_shm_fd = 1, b_channels = [1], b_channel_cap = 4,
     b_tch = (\<lambda>_. \<lparr>tc_channel = 1, tc_shm_fd = 2, idmem_base = 0, idmem_size = 0, idmem_offset = 0\<rparr>),
     b_sym_malloc = 1, b_sym_calloc = 2, b_sym_realloc = 3, b_sym_free = 4, b_sym_mmap = 5, b_sym_munmap = 6,
     b_sym_memcpy = 7, b_sym_close = 8, b_fds = empty_fd_cache,
     b_reg = example_registry\<rparr>"

lemma example_ready: "call_ready example_fn 1 example_world"
proof -
  have "linked (b_reg example_world) example_table 0 0"
    using example_tables(3) by (simp add: example_world_def)
  moreover have "registry_wf (b_reg example_world)"
    using example_tables(1) by (simp add: example_world_def)
  moreover note example_tables(2)
  ultimately have "closures_linked (b_reg example_world) example_table"
    by (simp add: closures_linked_def example_table_def)
  moreover have "registry_typed example_fn (b_reg example_world)"
    using example_registry_ok by (simp add: registry_typed_def example_world_def)
  ultimately show ?thesis
    by (simp add: call_ready_def example_world_def channel_wf_def zero_channel_def)
qed

section \<open>Properties\<close>

text \<open>C1: a sandboxed call is a direct call. For every signature, every argument values and every library
  function (calling back into the host any number of times), \<open>pbox_call\<close> returns, given enough turns,
  the result the function has when it is run on the frame the calling convention prescribes for the
  caller's own arguments and its callbacks are run as plain calls of the registered host functions;
  the host application and the sandbox end in the same states as in that direct run, and the
  channel is idle again.\<close>

theorem pbox_call_is_direct_call:
  fixes w :: "('m, 'h) world"
  assumes "call_ready fn i w" "pbox_args_ok n ts vs" "pbox_type_wf rt" "call_frame e f rt n ts vs = Some frame"
    and "direct_call (e_arch e) (e_junk e) fn (b_reg w) (sb_table w i)
       (e_lib e frame ((sb_proc w)\<lparr>pr_window := mem_storage (sb_chan w i)\<rparr>)) (h_app w) = Some (r, p, h)"
    and "length (pr_window p) = PBOX_MEM_STORAGE" "pbox_type_size rt \<le> length b"
  shows "\<exists>c turns. channel_wf c \<and> ch_state c = PBOX_STATE_IDLE \<and>
    (\<forall>k. turns \<le> k_turns k \<longrightarrow>
       pbox_call e k f rt n ts vs (Some b) w = Returns (Some (blit b 0 (call_result rt r)), after_call i c p h w))"
proof -
  have "\<forall>b'\<in>set_option (Some b). pbox_type_size rt \<le> length b'" using assms(7) by simp
  from call_direct [OF assms(1-6) this] obtain c turns where "channel_wf c" "ch_state c = PBOX_STATE_IDLE"
    "\<And>k :: kernel. turns \<le> k_turns k \<Longrightarrow> pbox_call e k f rt n ts vs (Some b) w =
       Returns (map_option (\<lambda>b. blit b 0 (call_result rt r)) (Some b), after_call i c p h w)" by blast
  then show ?thesis by (intro exI [of _ c] exI [of _ turns]) simp
qed

lemma example_frame:
  "call_frame example_env 0x1000 PBOX_TYPE_UINT64 1 [PBOX_TYPE_UINT64] [to_bytes 41] =
     Some \<lparr>int_regs = 41 # replicate 7 0, float_regs = replicate 8 0, int_count = 1, float_count = 0,
       stack_args = replicate 4 0, stack_count = 0, func = 0x1000, ret_class = DYFN_CLASS_INT\<rparr>"
proof -
  have r: "replicate 8 (0 :: u64) = 0 # replicate 7 0" by (simp flip: replicate_Suc)
  show ?thesis
    by (simp add: call_frame_def example_env_def dyfn_prep_call_def dyfn_prep_arg_def put_reg_def zeroed_call_def
        dyfn_of_code_def r)
qed

theorem pbox_call_is_direct_call_witness:
  "\<exists>c turns. \<forall>k. turns \<le> k_turns k \<longrightarrow>
     pbox_call example_env k 0x1000 PBOX_TYPE_UINT64 1 [PBOX_TYPE_UINT64] [to_bytes 41] (Some (replicate 8 0)) example_world =
       Returns (Some (to_bytes 42), after_call 1 c \<lparr>pr_mem = (), pr_fds = Map.empty, pr_window = replicate 4096 0\<rparr> 1 example_world)"
proof -
  let ?p = "\<lparr>pr_mem = (), pr_fds = Map.empty, pr_window = replicate 4096 0\<rparr> :: unit proc"
  let ?frame = "\<lparr>int_regs = 41 # replicate 7 0, float_regs = replicate 8 0, int_count = 1, float_count = 0,
       stack_args = replicate 4 0, stack_count = 0, func = 0x1000, ret_class = DYFN_CLASS_INT\<rparr> :: DyfnCallArgs"
  have p: "(sb_proc example_world)\<lparr>pr_window := mem_storage (sb_chan example_world 1)\<rparr> = ?p"
    by (simp add: example_world_def zero_channel_def)
  have cb: "stub_callback (b_reg example_world) (sb_table example_world 1) 0 = Some example_callback"
    by (simp add: stub_callback_def example_world_def example_table_def example_registry_def)
  have sv: "saved_wf (example_saved 41)" by (simp add: saved_wf_def example_saved_def)
  have args: "saved_args X86_64 (take (nat (cb_nargs example_callback)) (cb_arg_types example_callback)) (example_saved 41) = [to_bytes 41]"
    by (simp add: saved_args_def example_callback_def example_saved_def abi_loc_def is_float_type_iff dyfn_of_code_def)
  have fn: "example_fn fp [to_bytes 41] 0 = (to_bytes 42, 1)" for fp by (simp add: example_fn_def)
  have stub: "cr_int_val (stub_result (e_junk example_env) (cb_ret_type example_callback) (to_bytes 42)) = 42"
    by (simp add: stub_result_def example_callback_def is_float_type_iff dyfn_of_code_def)
  have app: "h_app example_world = 0" by (simp add: example_world_def)
  have run: "example_lib ?frame ?p = LibCallback (example_saved 41) (\<lambda>res. LibReturns \<lparr>int_val = cr_int_val res, float_val = 0\<rparr> ?p)"
    by (simp add: example_lib_def)
  have idx: "sv_stub_index (example_saved 41) = 0" by (simp add: example_saved_def)
  have "direct_call X86_64 (e_junk example_env) example_fn (b_reg example_world) (sb_table example_world 1)
      (example_lib ?frame ?p) (h_app example_world) = Some (\<lparr>int_val = 42, float_val = 0\<rparr>, ?p, 1)"
    unfolding run app by (simp add: idx cb sv args fn stub del: One_nat_def)
  then have dir: "direct_call (e_arch example_env) (e_junk example_env) example_fn (b_reg example_world) (sb_table example_world 1)
      (e_lib example_env ?frame ((sb_proc example_world)\<lparr>pr_window := mem_storage (sb_chan example_world 1)\<rparr>))
      (h_app example_world) = Some (\<lparr>int_val = 42, float_val = 0\<rparr>, ?p, 1)"
    unfolding p by (simp add: example_env_def)
  have res: "blit (replicate 8 0) 0 (call_result PBOX_TYPE_UINT64 \<lparr>int_val = 42, float_val = 0\<rparr>) = to_bytes 42"
    by (simp add: call_result_def blit_def is_float_type_iff dyfn_of_code_def)
  show ?thesis
    using pbox_call_is_direct_call [OF example_ready _ _ example_frame dir, of "replicate 8 0"]
    by (auto simp: res pbox_args_ok_def)
qed

text \<open>C23: registering a callback on a thread with a channel makes it callable: the pointer returned is the
  stub of the thread's next closure slot, that slot is linked to the new registry entry, every
  earlier link survives, and the thread is again ready for calls, now with one callback more.\<close>

theorem register_callback_ready:
  fixes w :: "('m, 'h) world"
  assumes "call_ready fn i w" "signature_ok rt n ts"
    and "callback_count (b_reg w) < PBOX_MAX_CALLBACKS" "closure_count (sb_table w i) < DYFN_MAX_CLOSURES"
    and "d = callback_dispatch fn (if rt = PBOX_TYPE_VOID then None else Some (pbox_type_size rt)) (map pbox_type_size (take (nat n) ts))"
    and "\<forall>vs h. pbox_type_size rt \<le> length (fst (fn f vs h))"
  shows "\<exists>w'. pbox_register_callback e k f d rt n ts w = Returns (e_stubs e (closure_count (sb_table w i)), w') \<and>
    call_ready fn i w' \<and> stub_callback (b_reg w') (sb_table w' i) (closure_count (sb_table w i)) =
      Some (callbacks (b_reg w') ! callback_count (b_reg w)) \<and>
    cb_func_ptr (callbacks (b_reg w') ! callback_count (b_reg w)) = f \<and>
    (\<forall>j<callback_count (b_reg w). callbacks (b_reg w') ! j = callbacks (b_reg w) ! j)"
proof -
  obtain w' where w': "pbox_register_callback e k f d rt n ts w = Returns (e_stubs e (closure_count (sb_table w i)), w')"
    "closures_linked (b_reg w') (sb_table w' i)"
    "linked (b_reg w') (sb_table w' i) (closure_count (sb_table w i)) (callback_count (b_reg w))"
    "callback_count (b_reg w') = callback_count (b_reg w) + 1"
    "\<And>j. j < callback_count (b_reg w) \<Longrightarrow> callbacks (b_reg w') ! j = callbacks (b_reg w) ! j"
    "callbacks (b_reg w') ! callback_count (b_reg w) = new_callback f d rt n ts (callbacks (b_reg w) ! callback_count (b_reg w))
       \<lparr>cb_sandbox_closure := e_stubs e (closure_count (sb_table w i))\<rparr>"
    "h_tls w' = Some i" "sb_alive w'" "sb_worker w' i = AtLoop" "channel_wf (sb_chan w' i)"
    "closure_count (sb_table w' i) = closure_count (sb_table w i) + 1"
    by (rule register_callback_result [OF assms(1-4)]) blast
  have reg: "registry_wf (b_reg w)" using assms(1) by (simp add: call_ready_def closures_linked_def)
  have len: "length (cb_arg_types (callbacks (b_reg w) ! callback_count (b_reg w))) = 10"
    using reg assms(3) by (simp add: registry_wf_def)
  have sig: "nat n \<le> 10" "nat n \<le> length ts" using assms(2) by (auto simp: signature_ok_def)
  have "registry_typed fn (b_reg w')"
    using assms(1,5,6) w'(4-6) sig len
    by (auto simp: registry_typed_def less_Suc_eq call_ready_def typed_callback_def new_callback_def blit_def)
  moreover have "ci_callback_id (closure_info (sb_table w' i) ! closure_count (sb_table w i)) = int (callback_count (b_reg w))"
    using w'(3) by (simp add: linked_def Let_def)
  ultimately show ?thesis
    using w' by (intro exI [of _ w']) (simp add: call_ready_def stub_callback_def new_callback_def)
qed

theorem register_callback_ready_witness:
  "\<exists>w'. pbox_register_callback example_env example_kernel 0x3000 (callback_dispatch example_fn None [8]) PBOX_TYPE_VOID 1 [PBOX_TYPE_DOUBLE] example_world
      = Returns (0x5010, w') \<and> call_ready example_fn 1 w'"
proof -
  have "signature_ok PBOX_TYPE_VOID 1 [PBOX_TYPE_DOUBLE]" by (simp add: signature_ok_def)
  moreover have "callback_count (b_reg example_world) = 1" "closure_count (sb_table example_world 1) = 1"
    by (simp_all add: example_world_def example_table_def example_registry_def)
  moreover have "e_stubs example_env 1 = 0x5010" by (simp add: example_env_def)
  ultimately show ?thesis
    using register_callback_ready [OF example_ready, of PBOX_TYPE_VOID 1 "[PBOX_TYPE_DOUBLE]" _ "0x3000" example_env example_kernel] by auto
qed

text \<open>what happens when a table is full. A full registry refuses the registration and changes nothing. A
  full closure table makes the sandbox answer with a null stub: the caller gets \<open>NULL\<close>, but the host
  has already published the entry and keeps its slot, so repeated attempts use the registry up.\<close>

theorem register_callback_exhausted:
  fixes w :: "('m, 'h) world"
  assumes "call_ready fn i w" "signature_ok rt n ts"
  shows "(callback_count (b_reg w) = PBOX_MAX_CALLBACKS \<longrightarrow> pbox_register_callback e k f d rt n ts w = Returns (0, w)) \<and>
    (callback_count (b_reg w) < PBOX_MAX_CALLBACKS \<and> closure_count (sb_table w i) = DYFN_MAX_CLOSURES \<longrightarrow>
      (\<exists>w'. pbox_register_callback e k f d rt n ts w = Returns (0, w') \<and>
        callback_count (b_reg w') = callback_count (b_reg w) + 1 \<and> sb_table w' i = sb_table w i))"
proof (intro conjI impI)
  assume "callback_count (b_reg w) = PBOX_MAX_CALLBACKS"
  then show "pbox_register_callback e k f d rt n ts w = Returns (0, w)"
    by (simp add: pbox_register_callback_def callback_publish_def)
next
  assume room: "callback_count (b_reg w) < PBOX_MAX_CALLBACKS \<and> closure_count (sb_table w i) = DYFN_MAX_CLOSURES"
  have r: "h_tls w = Some i" "sb_alive w" "sb_worker w i = AtLoop" using assms(1) by (simp_all add: call_ready_def)
  have n: "n \<le> int PBOX_MAX_ARGS" using assms(2) by (simp add: signature_ok_def)
  show "\<exists>w'. pbox_register_callback e k f d rt n ts w = Returns (0, w') \<and>
        callback_count (b_reg w') = callback_count (b_reg w) + 1 \<and> sb_table w' i = sb_table w i"
    using r room callback_publish_Some [OF conjunct1 [OF room] n, of f d rt ts]
    by (simp add: pbox_register_callback_def get_or_create_channel_def exchange_def pbox_wait_for_state_def
        pbox_set_state_def sandbox_run_def dispatch_request_def serve_create_closure_def closure_request_def
        respond_def dyfn_closure_alloc_def Let_def)
qed

definition example_full_world :: "(unit, nat) world" where
  "example_full_world = example_world\<lparr>sb_table := (\<lambda>_. \<lparr>closure_info = replicate 64 (closure_info example_table ! 0),
     closure_count = 64\<rparr>)\<rparr>"

theorem register_callback_exhausted_witness:
  "\<exists>w'. pbox_register_callback example_env example_kernel 0x3000 (callback_dispatch example_fn None [8]) PBOX_TYPE_VOID 1 [PBOX_TYPE_DOUBLE]
      example_full_world = Returns (0, w') \<and> callback_count (b_reg w') = 2"
proof -
  have eq: "b_reg example_full_world = b_reg example_world" "h_tls example_full_world = Some 1"
    "sb_alive example_full_world" "sb_worker example_full_world 1 = AtLoop"
    "sb_chan example_full_world 1 = sb_chan example_world 1"
    by (simp_all add: example_full_world_def example_world_def)
  have base: "closures_linked (b_reg example_world) example_table"
    using example_ready by (simp add: call_ready_def example_world_def)
  let ?tbl = "sb_table example_full_world 1"
  have info: "closure_info ?tbl ! s = closure_info example_table ! 0" if "s < 64" for s
    using that by (simp add: example_full_world_def)
  have "linked (b_reg example_world) example_table 0 (nat (ci_callback_id (closure_info example_table ! 0)))"
    using base by (simp add: closures_linked_def example_table_def)
  then have "linked (b_reg example_world) ?tbl s (nat (ci_callback_id (closure_info ?tbl ! s)))" if "s < 64" for s
    using info [OF that] that by (simp add: linked_def)
  moreover have "closure_table_wf ?tbl"
    using base by (auto simp: closures_linked_def closure_table_wf_def example_full_world_def example_table_def)
  ultimately have "closures_linked (b_reg example_world) ?tbl"
    using base by (simp add: closures_linked_def example_full_world_def)
  then have ready: "call_ready example_fn 1 example_full_world"
    using example_ready eq by (simp add: call_ready_def)
  have sig: "signature_ok PBOX_TYPE_VOID 1 [PBOX_TYPE_DOUBLE]" by (simp add: signature_ok_def)
  have cnt: "callback_count (b_reg example_full_world) = 1" "closure_count ?tbl = 64"
    by (simp_all add: example_full_world_def example_world_def example_registry_def)
  show ?thesis
    using register_callback_exhausted [OF ready sig, of example_env example_kernel "0x3000" "callback_dispatch example_fn None [8]"] cnt
    by auto
qed

text \<open>C31: closure tables are thread-local, but a stub's address is valid in every thread. A stub created
  through one host thread's channel and called by library code that runs for another thread (whose
  table has no registrations yet) posts callback number 0 with no arguments, whichever stub it was.\<close>

theorem closure_on_other_thread:
  fixes w :: "('m, 'h) world"
  assumes "sb_table w j = dyfn_closure_free_all fresh_table" "saved_wf sv" "channel_wf (sb_chan w j)"
  shows "\<exists>c. run_lib e j (LibCallback sv k) w =
      w\<lparr>sb_chan := (sb_chan w)(j := c), sb_worker := (sb_worker w)(j := InCallback sv k)\<rparr> \<and>
    ch_state c = PBOX_STATE_CALLBACK \<and> callback_id c = 0 \<and> nargs c = 0 \<and>
    args c = args (sb_chan w j) \<and> arg_storage c = arg_storage (sb_chan w j)"
proof -
  have "closure_info (sb_table w j) ! sv_stub_index sv = zero_info" "sv_stub_index sv < length (closure_info (sb_table w j))"
    using assms(1,2) by (simp_all add: dyfn_closure_free_all_def fresh_table_def saved_wf_def)
  then have "closure_dispatch_request (e_arch e) (sb_table w j) sv (sb_chan w j) =
      Some ((sb_chan w j)\<lparr>callback_id := 0, nargs := 0, ch_state := PBOX_STATE_CALLBACK\<rparr>)"
    by (simp add: closure_dispatch_request_def zero_info_def)
  from run_lib_callback [OF this] show ?thesis by auto
qed

theorem closure_on_other_thread_witness:
  "\<exists>c. callback_id c = 0 \<and> nargs c = 0 \<and>
    run_lib example_env 1 (LibCallback (example_saved 41\<lparr>sv_stub_index := 7\<rparr>) (\<lambda>_. LibDies))
      (example_world\<lparr>sb_table := (\<lambda>_. dyfn_closure_free_all fresh_table)\<rparr>) =
    example_world\<lparr>sb_table := (\<lambda>_. dyfn_closure_free_all fresh_table), sb_chan := (sb_chan example_world)(1 := c),
      sb_worker := (sb_worker example_world)(1 := InCallback (example_saved 41\<lparr>sv_stub_index := 7\<rparr>) (\<lambda>_. LibDies))\<rparr>"
proof -
  let ?w = "example_world\<lparr>sb_table := (\<lambda>_. dyfn_closure_free_all fresh_table)\<rparr>"
  have "sb_table ?w 1 = dyfn_closure_free_all fresh_table" "saved_wf (example_saved 41\<lparr>sv_stub_index := 7\<rparr>)"
    "channel_wf (sb_chan ?w 1)"
    by (simp_all add: saved_wf_def example_saved_def example_world_def channel_wf_def zero_channel_def)
  from closure_on_other_thread [OF this, of example_env "\<lambda>_. LibDies"] show ?thesis
    by (auto simp: example_world_def)
qed

text \<open>C29: a call from inside a callback is not a call. While a callback is being served, the worker of the
  thread's channel sits in the closure stub; the \<open>REQUEST\<close> of a nested \<open>pbox_call\<close> is taken for the
  callback's completion. The nested function is never run (the outcome is the same for every function and
  every library); the outer function is resumed with the stale result storage, and if it
  returns, the nested caller receives the outer function's result.\<close>

theorem reentrant_call_misread:
  fixes w :: "('m, 'h) world"
  assumes "h_tls w = Some i" "sb_alive w" "sb_worker w i = InCallback sv cont" "channel_wf (sb_chan w i)"
    and "saved_wf sv" "closure_table_wf (sb_table w i)"
    and "closure_dispatch_result (sb_table w i) sv (sb_chan w i) (e_junk e) = Some res" "cont res = LibReturns r p"
    and "pbox_args_ok n ts vs" "pbox_type_wf rt" "pbox_type_size rt \<le> length b" "2 \<le> k_turns k"
  shows "\<exists>w'. pbox_call e k f rt n ts vs (Some b) w = Returns (Some (blit b 0 (call_result rt r)), w') \<and>
    sb_proc w' = p \<and> sb_worker w' i = AtLoop"
proof -
  obtain ch where ch: "pbox_pack_call f rt n ts vs (sb_chan w i) = Some ch" "channel_wf ch"
    "result_storage ch = result_storage (sb_chan w i)" "ret_type ch = pbox_type_code rt"
    using pbox_pack_call_spec [OF assms(4,9), of f rt] by metis
  let ?c0 = "ch\<lparr>ch_state := PBOX_STATE_REQUEST\<rparr>"
  define w1 where "w1 = put_chan i ?c0 w"
  have start: "pbox_set_state i PBOX_STATE_REQUEST (put_chan i ch w) = w1"
    by (simp add: pbox_set_state_def w1_def)
  have "closure_dispatch_result (sb_table w i) sv ?c0 (e_junk e) = Some res"
    using assms(7) closure_dispatch_result_cong [of ?c0 "sb_chan w i" "sb_table w i" sv "e_junk e"] ch(3) by simp
  then have turn: "sandbox_run e i w1 = run_lib e i (LibReturns r p) w1"
    using assms(2,3,8) by (simp add: sandbox_run_def w1_def)
  have "channel_wf (sb_chan w1 i)" "ret_type (sb_chan w1 i) = pbox_type_code rt"
    using ch(2,4) by (simp_all add: w1_def channel_wf_def)
  from do_ffi_finish_result [OF this assms(10), of r] obtain c where
    c: "do_ffi_finish r (sb_chan w1 i) = Some c" "channel_wf c"
      "take (pbox_type_size rt) (result_storage c) = call_result rt r"
    unfolding call_result_def by metis
  define w2 where "w2 = run_lib e i (LibReturns r p) w1"
  have w2: "ch_state (sb_chan w2 i) = PBOX_STATE_RESPONSE" "sb_proc w2 = p" "sb_worker w2 i = AtLoop"
    "result_storage (sb_chan w2 i) = result_storage c"
    by (simp_all add: w2_def run_lib_returns [OF c(1)])
  have st: "ch_state (sb_chan w1 i) = PBOX_STATE_REQUEST" by (simp add: w1_def)
  have m: "k_turns k = Suc (Suc (k_turns k - 2))" using assms(12) by simp
  have wait: "pbox_wait_for_response (k_turns k) e i w1 = Returns w2"
    using st w2(1) by (subst m) (simp add: turn Let_def flip: w2_def)
  have "pbox_type_size rt \<le> length (result_storage c)"
    using c(2) pbox_type_size_le_8 [of rt] by (simp add: channel_wf_def)
  from call_result_take [OF this c(3) assms(11)] show ?thesis
    using assms(1) ch(1) start wait w2
    by (intro exI [of _ "pbox_set_state i PBOX_STATE_IDLE w2"])
      (simp add: pbox_call_def get_or_create_channel_def Let_def pbox_set_state_def)
qed

definition example_in_callback :: "(unit, nat) world" where
  "example_in_callback = example_world\<lparr>sb_worker := (\<lambda>_. InCallback (example_saved 41)
     (\<lambda>_. LibReturns \<lparr>int_val = 7, float_val = 0\<rparr> \<lparr>pr_mem = (), pr_fds = Map.empty, pr_window = []\<rparr>))\<rparr>"

theorem reentrant_call_misread_witness:
  "\<exists>w'. pbox_call example_env example_kernel 0x4000 PBOX_TYPE_UINT64 1 [PBOX_TYPE_UINT64] [to_bytes 99] (Some (replicate 8 0))
     example_in_callback = Returns (Some (to_bytes 7), w')"
proof -
  have tbl: "closure_table_wf (sb_table example_in_callback 1)"
    by (simp add: example_in_callback_def example_world_def closure_table_wf_def example_table_def zero_info_def)
  have ch: "channel_wf (sb_chan example_in_callback 1)"
    by (simp add: example_in_callback_def example_world_def channel_wf_def zero_channel_def)
  have sv: "saved_wf (example_saved 41)" by (simp add: saved_wf_def example_saved_def)
  have w: "h_tls example_in_callback = Some 1" "sb_alive example_in_callback"
    "sb_worker example_in_callback 1 = InCallback (example_saved 41)
       (\<lambda>_. LibReturns \<lparr>int_val = 7, float_val = 0\<rparr> \<lparr>pr_mem = (), pr_fds = Map.empty, pr_window = []\<rparr>)"
    by (simp_all add: example_in_callback_def example_world_def)
  have info: "ci_ret_type (closure_info (sb_table example_in_callback 1) ! sv_stub_index (example_saved 41)) = sent_type PBOX_TYPE_UINT64"
    by (simp add: example_in_callback_def example_world_def example_table_def example_saved_def dyfn_of_code_def)
  have "closure_dispatch_result (sb_table example_in_callback 1) (example_saved 41) (sb_chan example_in_callback 1) (e_junk example_env)
      = Some (stub_result (e_junk example_env) PBOX_TYPE_UINT64 (result_storage (sb_chan example_in_callback 1)))"
    by (rule closure_dispatch_result_value [OF tbl sv ch info]) simp_all
  from reentrant_call_misread [OF w ch sv tbl this refl, of 1 "[PBOX_TYPE_UINT64]" "[to_bytes 99]" PBOX_TYPE_UINT64 "replicate 8 0" example_kernel "0x4000"]
  show ?thesis
    by (auto simp: pbox_args_ok_def example_kernel_def call_result_def is_float_type_iff dyfn_of_code_def blit_def)
qed

text \<open>C30: when the sandbox process is dead, an operation that needs a worker does not fail, it waits for
  ever: \<open>pbox_wait_for_state\<close> never looks for \<open>DEAD\<close>, and the watcher marks the control channel only, so
  \<open>pbox_wait_for_response\<close> never sees it on a worker channel. Sending an open descriptor on a socket that
  works otherwise ends the host program by \<open>SIGPIPE\<close>, and returns \<open>-1\<close> only in a program that ignores
  or catches that signal. The control channel itself loses the mark with the next request on it, after
  which \<open>pbox_alive\<close> calls the dead process alive.\<close>

theorem operations_after_death_block:
  fixes w :: "('m, 'h) world"
  assumes "h_tls w = Some i" "\<not> sb_alive w" "channel_wf (sb_chan w i)" "pbox_args_ok n ts vs"
  shows "pbox_call e k f rt n ts vs ret w = Blocks \<and> pbox_dlsym e k s w = Blocks \<and>
    pbox_send_fd_on_channel e k i fd w =
      (if h_fds w fd \<noteq> None \<and> k_ok k At_sendmsg \<and> \<not> k_sigpipe_ignored k then Aborts else Returns (- 1, w)) \<and>
    pbox_alive (pbox_set_state 0 PBOX_STATE_REQUEST w)"
proof -
  have wt: "pbox_wait_for_response m e i v = Blocks"
    if "\<not> sb_alive v" "ch_state (sb_chan v i) = PBOX_STATE_REQUEST" for m and v :: "('m, 'h) world"
    using that by (cases m) (simp_all add: sandbox_run_dead Let_def)
  obtain ch where ch: "pbox_pack_call f rt n ts vs (sb_chan w i) = Some ch"
    using pbox_pack_call_spec [OF assms(3,4), of f rt] by metis
  have "pbox_wait_for_response (k_turns k) e i (pbox_set_state i PBOX_STATE_REQUEST (put_chan i ch w)) = Blocks"
    using assms(2) by (intro wt) (simp_all add: pbox_set_state_def)
  moreover have "dlsym_on e i s w = Blocks" using assms(2) by (simp add: dlsym_on_def exchange_dead)
  moreover have "pbox_send_fd_on_channel e k i fd w =
      (if h_fds w fd \<noteq> None \<and> k_ok k At_sendmsg \<and> \<not> k_sigpipe_ignored k then Aborts else Returns (- 1, w))"
    using assms(2) by (auto simp: pbox_send_fd_on_channel_def split: option.splits)
  ultimately show ?thesis
    using assms(1) ch by (simp add: pbox_call_def pbox_dlsym_def get_or_create_channel_def pbox_alive_def)
qed

theorem operations_after_death_block_witness:
  "pbox_call example_env example_kernel 0x1000 PBOX_TYPE_VOID 0 [] [] None (sandbox_dies example_world) = Blocks \<and>
   pbox_send_fd_on_channel example_env example_kernel 1 3 (sandbox_dies example_world) = Aborts \<and>
   \<not> pbox_alive (sandbox_dies example_world) \<and>
   pbox_alive (pbox_set_state 0 PBOX_STATE_REQUEST (sandbox_dies example_world))"
proof -
  have w: "h_tls (sandbox_dies example_world) = Some 1" "\<not> sb_alive (sandbox_dies example_world)"
    "channel_wf (sb_chan (sandbox_dies example_world) 1)" "pbox_args_ok 0 [] []"
    by (simp_all add: sandbox_dies_def example_world_def channel_wf_def zero_channel_def pbox_args_ok_def)
  have "\<not> pbox_alive (sandbox_dies example_world)" "h_fds (sandbox_dies example_world) 3 = Some (HostFile 0)"
    "k_ok example_kernel At_sendmsg" "\<not> k_sigpipe_ignored example_kernel"
    by (simp_all add: pbox_alive_def sandbox_dies_def example_world_def example_kernel_def)
  with operations_after_death_block [OF w, of example_env example_kernel "0x1000" PBOX_TYPE_VOID None "[]" 3]
  show ?thesis by simp
qed

end
