(* ===== verification/Lifecycle.thy ===== *)
theory Lifecycle
  imports Calls
begin

text \<open>
  The life of a box: \<open>pbox_create\<close> with its eleven failing steps, \<open>pbox_destroy\<close>, and the channels of
  threads that come (\<open>create_channel_locked\<close>) and go (\<open>channel_destructor\<close>), all in \<open>src/pbox/pbox.c\<close>. The
  subject is ownership: which descriptors, mappings, heap blocks, locks, threads and processes the
  host holds at each point, and that they are given back exactly once.
\<close>

section \<open>Creating a box\<close>

text \<open>A C string: its characters as bytes.\<close>

definition c_name :: "string \<Rightarrow> byte list" where
  "c_name s = map of_char s"

fun release_all :: "resource list \<Rightarrow> ('m, 'h) world \<Rightarrow> ('m, 'h) world outcome" where
  "release_all [] w = Returns w"
| "release_all (r # rs) w = and_then (release r w) (release_all rs)"

text \<open>
  Which descriptors of the child are marked close-on-exec. Everything a box opens is made with the
  mark, the program's own descriptors (\<open>HostFile\<close>) have the program's choice. The child then marks all
  from 3 on with \<open>close_range\<close>, whose failure (a kernel without it) is not noticed, and takes the mark
  from the control memory and its end of the socket pair.
\<close>

definition fd_cloexec :: "kernel \<Rightarrow> (nat \<Rightarrow> open_file option) \<Rightarrow> nat \<Rightarrow> bool" where
  "fd_cloexec k fds n = (case fds n of Some (HostFile f) \<Rightarrow> k_cloexec k n | _ \<Rightarrow> True)"

definition child_cloexec :: "kernel \<Rightarrow> nat \<Rightarrow> nat \<Rightarrow> (nat \<Rightarrow> open_file option) \<Rightarrow> nat \<Rightarrow> bool" where
  "child_cloexec k shm sock fds =
     (let marks = fd_cloexec k fds;
          marks = (if k_ok k At_close_range then (\<lambda>n. 3 \<le> n \<or> marks n) else marks)
      in (marks(shm := False))(sock := False))"

text \<open>What is open in the sandbox's loop: \<open>execl\<close> closed what was marked, \<open>main\<close> closes the control memory once it is mapped.\<close>

definition inherited_fds :: "kernel \<Rightarrow> nat \<Rightarrow> nat \<Rightarrow> (nat \<Rightarrow> open_file option) \<Rightarrow> int \<Rightarrow> open_file option" where
  "inherited_fds k shm sock fds n =
     (if n < 0 \<or> child_cloexec k shm sock fds (nat n) \<or> nat n = shm then None else fds (nat n))"

text \<open>
  The child after \<open>fork\<close>: \<open>execl\<close>, then \<open>main\<close> of the sandbox maps the channel, closes its descriptor,
  installs the filter, publishes the address and enters the loop. When \<open>execl\<close> or a step of \<open>main\<close>
  fails the child exits.
\<close>

definition sandbox_main :: "'m sandbox_env \<Rightarrow> kernel \<Rightarrow> 'm \<Rightarrow> nat \<Rightarrow> nat \<Rightarrow> ('m, 'h) world \<Rightarrow> ('m, 'h) world" where
  "sandbox_main e k mem shm sock w =
     (let w1 = w\<lparr>sb_proc := \<lparr>pr_mem = mem, pr_fds = inherited_fds k shm sock (h_fds w), pr_window = []\<rparr>,
                 sb_sock := [], sb_alive := True, sb_worker := (\<lambda>_. NoWorker), sb_table := (\<lambda>_. fresh_table)\<rparr>
      in if k_ok k At_exec \<and> k_ok k At_sandbox_setup then start_worker e 0 w1 else sandbox_dies w1)"

text \<open>The eight lookups at the end of \<open>pbox_create\<close>.\<close>

definition cache_symbols :: "'m sandbox_env \<Rightarrow> ('m, 'h) world \<Rightarrow> ('m, 'h) world outcome" where
  "cache_symbols e w =
     and_then (dlsym_on e 0 (c_name ''malloc'') w) (\<lambda>(a, w). and_then (dlsym_on e 0 (c_name ''calloc'') (w\<lparr>b_sym_malloc := a\<rparr>))
     (\<lambda>(a, w). and_then (dlsym_on e 0 (c_name ''realloc'') (w\<lparr>b_sym_calloc := a\<rparr>))
     (\<lambda>(a, w). and_then (dlsym_on e 0 (c_name ''free'') (w\<lparr>b_sym_realloc := a\<rparr>))
     (\<lambda>(a, w). and_then (dlsym_on e 0 (c_name ''mmap'') (w\<lparr>b_sym_free := a\<rparr>))
     (\<lambda>(a, w). and_then (dlsym_on e 0 (c_name ''munmap'') (w\<lparr>b_sym_mmap := a\<rparr>))
     (\<lambda>(a, w). and_then (dlsym_on e 0 (c_name ''memcpy'') (w\<lparr>b_sym_munmap := a\<rparr>))
     (\<lambda>(a, w). and_then (dlsym_on e 0 (c_name ''close'') (w\<lparr>b_sym_memcpy := a\<rparr>))
     (\<lambda>(a, w). Returns (w\<lparr>b_sym_close := a\<rparr>)))))))))"

text \<open>The error returns of \<open>pbox_create\<close>: what was acquired is released, no box.\<close>

definition give_up :: "resource list \<Rightarrow> ('m, 'h) world \<Rightarrow> (bool \<times> ('m, 'h) world) outcome" where
  "give_up rs w = and_then (release_all rs w) (\<lambda>w'. Returns (False, w'))"

abbreviation (input) box_locks :: "resource list" where
  "box_locks \<equiv> [ChannelLock, CallbackLock, FdLock, ChannelKey, BoxMem]"

text \<open>
  \<open>pbox_create\<close> after \<open>fork\<close>: the child becomes the sandbox, the parent keeps its end of the socket
  pair, starts the watcher thread and caches the symbols.
\<close>

definition pbox_start ::
  "'m sandbox_env \<Rightarrow> kernel \<Rightarrow> 'm \<Rightarrow> nat \<Rightarrow> nat \<Rightarrow> nat \<Rightarrow> ('m, 'h) world \<Rightarrow> (bool \<times> ('m, 'h) world) outcome" where
  "pbox_start e k mem shm sock0 sock1 w =
     (let w = sandbox_main e k mem shm sock1 (acquire Process w);
          w = (close_fd sock1 w)\<lparr>b_sock_fd := sock0\<rparr>
      in
      if \<not> k_ok k At_pthread_create then
        give_up ([Process, ChanMap 0] @ box_locks) (close_fd sock0 (close_fd shm (sandbox_dies w)))
      else and_then (cache_symbols e (acquire Watcher w)) (\<lambda>w. Returns (True, w)))"

text \<open>
  \<open>pbox_create\<close>; the Boolean tells whether a box is returned. \<open>mem\<close> is the memory of the process that
  \<open>execl\<close> starts. The fields of the box are those of the world.
\<close>

definition pbox_create :: "'m sandbox_env \<Rightarrow> kernel \<Rightarrow> 'm \<Rightarrow> ('m, 'h) world \<Rightarrow> (bool \<times> ('m, 'h) world) outcome" where
  "pbox_create e k mem w =
     (if \<not> k_ok k At_malloc then give_up [] w else
      let w = acquire BoxMem w in
      if \<not> k_ok k At_mutex_fd then give_up [BoxMem] w else
      let w = (acquire FdLock w)\<lparr>b_fds := empty_fd_cache\<rparr> in
      if \<not> k_ok k At_mutex_callback then give_up [FdLock, BoxMem] w else
      let w = (acquire CallbackLock w)\<lparr>b_reg := (b_reg w)\<lparr>callback_count := 0\<rparr>, b_channels := [], b_channel_cap := 0\<rparr> in
      if \<not> k_ok k At_key_create then give_up [CallbackLock, FdLock, BoxMem] w else
      let w = (acquire ChannelKey w)\<lparr>h_tls := None\<rparr> in
      if \<not> k_ok k At_mutex_channel then give_up [ChannelKey, CallbackLock, FdLock, BoxMem] w else
      let w = acquire ChannelLock w in
      if \<not> k_ok k At_memfd_create then give_up box_locks w else
      let shm = k_fd k (h_fds w);
          w = w\<lparr>b_control_shm_fd := shm, h_fds := (h_fds w)(shm \<mapsto> ChanShm 0)\<rparr>
      in
      if \<not> k_ok k At_ftruncate then give_up box_locks (close_fd shm w) else
      if \<not> k_ok k At_mmap then give_up box_locks (close_fd shm w) else
      let w = acquire (ChanMap 0) (put_chan 0 zero_channel w) in
      if \<not> k_ok k At_socketpair then give_up (ChanMap 0 # box_locks) (close_fd shm w) else
      let sock0 = k_fd k (h_fds w);
          w = w\<lparr>h_fds := (h_fds w)(sock0 \<mapsto> SockEnd True)\<rparr>;
          sock1 = k_fd k (h_fds w);
          w = w\<lparr>h_fds := (h_fds w)(sock1 \<mapsto> SockEnd False)\<rparr>
      in
      if \<not> k_ok k At_fork then give_up (ChanMap 0 # box_locks) (close_fd shm w)
      else pbox_start e k mem shm sock0 sock1 w)"

section \<open>A thread leaves\<close>

text \<open>\<open>channel_destructor\<close> for the current thread's channel \<open>i\<close>.\<close>

definition remove_channel :: "nat \<Rightarrow> nat list \<Rightarrow> nat list" where
  "remove_channel i cs = (case scan_from (\<lambda>c. c = i) 0 cs of None \<Rightarrow> cs | Some j \<Rightarrow> swap_remove cs j)"

definition release_region :: "nat \<Rightarrow> ('m, 'h) world \<Rightarrow> ('m, 'h) world outcome" where
  "release_region i w =
     (if idmem_base (b_tch w i) \<noteq> 0
      then release (RegionMap (idmem_base (b_tch w i)) (idmem_size (b_tch w i))) w else Returns w)"

definition channel_destructor :: "'m sandbox_env \<Rightarrow> nat \<Rightarrow> ('m, 'h) world \<Rightarrow> ('m, 'h) world outcome" where
  "channel_destructor e i w =
     and_then (release_region i (sandbox_run e i (pbox_set_state i PBOX_STATE_EXIT w)))
     (\<lambda>w. and_then (release (ChanMap i) w)
     (\<lambda>w. let w = close_fd (nat (tc_shm_fd (b_tch w i))) w;
              w = w\<lparr>b_channels := remove_channel i (b_channels w)\<rparr>
          in and_then (release (TchMem i) w) (\<lambda>w. Returns (w\<lparr>h_tls := None\<rparr>))))"

section \<open>Destroying a box\<close>

fun destroy_channels :: "nat list \<Rightarrow> ('m, 'h) world \<Rightarrow> ('m, 'h) world outcome" where
  "destroy_channels [] w = Returns w"
| "destroy_channels (j # js) w =
     and_then (release_region j w) (\<lambda>w. and_then (release (ChanMap j) w)
       (\<lambda>w. and_then (release (TchMem j) (close_fd (nat (tc_shm_fd (b_tch w j))) w)) (destroy_channels js)))"

definition pbox_destroy :: "('m, 'h) world \<Rightarrow> ('m, 'h) world outcome" where
  "pbox_destroy w =
     and_then (release_all [Process, Watcher] (sandbox_dies w))
     (\<lambda>w. and_then (destroy_channels (b_channels w) w)
     (\<lambda>w. and_then (release_all (if b_channel_cap w \<noteq> 0 then [ChanVec] else []) w)
     (\<lambda>w. and_then (release (ChanMap 0) (w\<lparr>b_channels := []\<rparr>))
     (\<lambda>w. and_then (release_all [ChannelLock, CallbackLock, FdLock, ChannelKey]
              (close_fd (b_sock_fd w) (close_fd (b_control_shm_fd w) w)))
     (\<lambda>w. release_all ((if fd_overflow_cap (b_fds w) \<noteq> 0 then [FdVec] else []) @ [BoxMem]) w)))))"

section \<open>Ownership\<close>

text \<open>
  What a live box owns. \<open>other\<close> and \<open>user\<close> are what the host process holds and has open besides.
\<close>

definition channel_resources :: "('m, 'h) world \<Rightarrow> nat \<Rightarrow> resource multiset" where
  "channel_resources w j = {#ChanMap j, TchMem j#} +
     (if idmem_base (b_tch w j) \<noteq> 0 then {#RegionMap (idmem_base (b_tch w j)) (idmem_size (b_tch w j))#} else {#})"

definition box_resources :: "('m, 'h) world \<Rightarrow> resource multiset" where
  "box_resources w = {#Process, Watcher, ChanMap 0, ChannelLock, CallbackLock, FdLock, ChannelKey, BoxMem#} +
     (if b_channel_cap w \<noteq> 0 then {#ChanVec#} else {#}) +
     (if fd_overflow_cap (b_fds w) \<noteq> 0 then {#FdVec#} else {#}) +
     (\<Sum>j\<in>#mset (b_channels w). channel_resources w j)"

definition shm_fd :: "('m, 'h) world \<Rightarrow> nat \<Rightarrow> nat" where
  "shm_fd w j = nat (tc_shm_fd (b_tch w j))"

definition own_fds :: "('m, 'h) world \<Rightarrow> nat list" where
  "own_fds w = b_control_shm_fd w # b_sock_fd w # map (shm_fd w) (b_channels w)"

definition box_inv :: "resource multiset \<Rightarrow> (nat \<Rightarrow> open_file option) \<Rightarrow> ('m, 'h) world \<Rightarrow> bool" where
  "box_inv other user w \<longleftrightarrow>
     h_held w = other + box_resources w \<and>
     distinct (own_fds w) \<and> (\<forall>fd\<in>set (own_fds w). h_fds w fd \<noteq> None) \<and>
     user = (\<lambda>fd. if fd \<in> set (own_fds w) then None else h_fds w fd) \<and>
     (\<forall>j\<in>set (b_channels w). j < h_next w) \<and> length (b_channels w) \<le> b_channel_cap w \<and>
     set_option (h_tls w) \<subseteq> set (b_channels w) \<and> finite (dom (h_fds w))"

lemma box_inv_more:
  assumes "sandbox.more w = sandbox.more w'"
  shows "box_inv other user w = box_inv other user w'"
  unfolding box_inv_def box_resources_def channel_resources_def own_fds_def shm_fd_def host_fields [OF assms] ..

lemma release_Returns:
  "release r w = Returns w' \<longleftrightarrow> r \<in># h_held w \<and> w' = w\<lparr>h_held := h_held w - {#r#}\<rparr>"
  by (auto simp: release_def)

lemma release_held: "h_held w = add_mset r rs \<Longrightarrow> release r w = Returns (w\<lparr>h_held := rs\<rparr>)"
  by (simp add: release_def)

lemma release_all_held:
  "h_held w = mset rs + others \<Longrightarrow> release_all rs w = Returns (w\<lparr>h_held := others\<rparr>)"
proof (induction rs arbitrary: w)
  case Nil
  then show ?case by simp
next
  case (Cons r rs)
  have "release r w = Returns (w\<lparr>h_held := mset rs + others\<rparr>)"
    using Cons.prems by (intro release_held) simp
  with Cons.IH [of "w\<lparr>h_held := mset rs + others\<rparr>"] show ?case by simp
qed

text \<open>Channels come.\<close>

lemma create_channel_inv:
  assumes k: "kernel_ok k" and inv: "box_inv other user w" and res: "create_channel_locked e k w = Returns (c, w')"
  shows "box_inv other user w'"
proof -
  have fin: "finite (dom (h_fds w))" using inv by (simp add: box_inv_def)
  note h = create_channel_host [OF k fin res]
  have old: "\<forall>j\<in>set (b_channels w). j < h_next w \<and> b_tch w' j = b_tch w j"
    using inv h by (auto simp: box_inv_def)
  then have ch: "shm_fd w' j = shm_fd w j" "channel_resources w' j = channel_resources w j" if "j \<in> set (b_channels w)" for j
    using that by (simp_all add: shm_fd_def channel_resources_def)
  then have sums: "image_mset (channel_resources w') (mset (b_channels w)) = image_mset (channel_resources w) (mset (b_channels w))"
    "map (shm_fd w') (b_channels w) = map (shm_fd w) (b_channels w)"
    by (auto intro: image_mset_cong)
  show ?thesis
  proof (cases c)
    case None
    with h have tls: "h_tls w' = h_tls w" by simp
    from None h have u: "h_held w' = h_held w" "h_fds w' = h_fds w" "b_channels w' = b_channels w"
      "b_channel_cap w' = b_channel_cap w" "b_fds w' = b_fds w" "b_sock_fd w' = b_sock_fd w"
      "b_control_shm_fd w' = b_control_shm_fd w" "h_next w \<le> h_next w'"
      by auto
    have "box_resources w' = box_resources w" "own_fds w' = own_fds w"
      by (simp_all add: box_resources_def own_fds_def u sums)
    then show ?thesis using inv u(8) by (auto simp: box_inv_def u(1-4) tls)
  next
    case (Some j)
    let ?fd = "k_fd k (h_fds w)"
    have new: "h_fds w ?fd = None" using k fin by (simp add: kernel_ok_def)
    then have fresh: "?fd \<notin> set (own_fds w)" using inv by (auto simp: box_inv_def)
    have j: "j = h_next w" "h_next w' = j + 1" "b_channels w' = b_channels w @ [j]"
      "h_fds w' = (h_fds w)(?fd \<mapsto> ChanShm j)"
      "b_tch w' j = \<lparr>tc_channel = j, tc_shm_fd = int ?fd, idmem_base = 0, idmem_size = 0, idmem_offset = 0\<rparr>"
      "h_held w' = h_held w + {#ChanMap j, TchMem j#} + (if b_channel_cap w = 0 \<and> b_channel_cap w' \<noteq> 0 then {#ChanVec#} else {#})"
      "b_channel_cap w \<noteq> 0 \<Longrightarrow> b_channel_cap w' \<noteq> 0" "length (b_channels w') \<le> b_channel_cap w'"
      using h Some inv by (auto simp: box_inv_def)
    have own: "own_fds w' = own_fds w @ [?fd]"
      using h j(3,5) sums(2) by (simp add: own_fds_def shm_fd_def)
    have "channel_resources w' j = {#ChanMap j, TchMem j#}" by (simp add: channel_resources_def j(5))
    then have "box_resources w' = box_resources w + {#ChanMap j, TchMem j#} +
        (if b_channel_cap w = 0 \<and> b_channel_cap w' \<noteq> 0 then {#ChanVec#} else {#})"
      using h j(3,7) sums(1) by (simp add: box_resources_def)
    moreover have "user = (\<lambda>fd. if fd \<in> set (own_fds w') then None else h_fds w' fd)"
      using inv new fresh by (auto simp: box_inv_def own j(4))
    moreover have "\<forall>i\<in>set (b_channels w'). i < h_next w'"
      using old j(1-3) by auto
    moreover have "set_option (h_tls w') \<subseteq> set (b_channels w')"
      using inv h j(3) by (auto simp: box_inv_def)
    ultimately show ?thesis
      using inv fresh j(4,6,8) by (auto simp: box_inv_def own)
  qed
qed

text \<open>Channels go: at the end of a thread and at the end of the box.\<close>

lemma release_region_held:
  assumes "h_held w = (if idmem_base (b_tch w j) \<noteq> 0 then {#RegionMap (idmem_base (b_tch w j)) (idmem_size (b_tch w j))#} else {#}) + others"
  shows "release_region j w = Returns (w\<lparr>h_held := others\<rparr>)"
  using assms by (auto simp: release_region_def intro: release_held)

lemma channel_resources_upd [simp]:
  "channel_resources (w\<lparr>h_held := x\<rparr>) = channel_resources w" "channel_resources (w\<lparr>h_fds := y\<rparr>) = channel_resources w"
  "shm_fd (w\<lparr>h_held := x\<rparr>) = shm_fd w" "shm_fd (w\<lparr>h_fds := y\<rparr>) = shm_fd w"
  by (simp_all add: channel_resources_def shm_fd_def fun_eq_iff)

lemma destroy_channels_held:
  "h_held w = (\<Sum>j\<in>#mset js. channel_resources w j) + others \<Longrightarrow>
     destroy_channels js w =
       Returns (w\<lparr>h_held := others, h_fds := (\<lambda>fd. if fd \<in> shm_fd w ` set js then None else h_fds w fd)\<rparr>)"
proof (induction js arbitrary: w)
  case Nil
  then show ?case by simp
next
  case (Cons j js)
  let ?rest = "(\<Sum>j\<in>#mset js. channel_resources w j) + others"
  let ?w1 = "w\<lparr>h_held := {#ChanMap j, TchMem j#} + ?rest\<rparr>"
  let ?w2 = "w\<lparr>h_held := {#TchMem j#} + ?rest\<rparr>"
  let ?w3 = "w\<lparr>h_held := ?rest, h_fds := (h_fds w)(shm_fd w j := None)\<rparr>"
  have 1: "release_region j w = Returns ?w1"
    using Cons.prems by (intro release_region_held) (simp add: channel_resources_def)
  have 2: "release (ChanMap j) ?w1 = Returns ?w2" by (simp add: release_def)
  have 3: "release (TchMem j) (close_fd (nat (tc_shm_fd (b_tch ?w2 j))) ?w2) = Returns ?w3"
    by (simp add: release_def close_fd_def shm_fd_def)
  have cr: "channel_resources ?w3 = channel_resources w" "shm_fd ?w3 = shm_fd w"
    by (simp_all add: channel_resources_def shm_fd_def fun_eq_iff)
  have "destroy_channels (j # js) w = destroy_channels js ?w3" by (simp only: destroy_channels.simps 1 2 3 and_then.simps)
  also have "\<dots> = Returns (?w3\<lparr>h_held := others, h_fds := (\<lambda>fd. if fd \<in> shm_fd ?w3 ` set js then None else h_fds ?w3 fd)\<rparr>)"
    by (rule Cons.IH) (simp add: cr)
  also have "\<dots> = Returns (w\<lparr>h_held := others, h_fds := (\<lambda>fd. if fd \<in> shm_fd w ` set (j # js) then None else h_fds w fd)\<rparr>)"
    by (auto simp: cr fun_eq_iff intro!: arg_cong [where f = "\<lambda>x. w\<lparr>h_held := others, h_fds := x\<rparr>"])
  finally show ?case .
qed

lemma remove_channel_mset:
  assumes "i \<in> set cs"
  shows "mset (remove_channel i cs) = mset cs - {#i#}"
proof -
  obtain j where j: "scan_from (\<lambda>c. c = i) 0 cs = Some j"
    using assms scan_from_None [of "\<lambda>c. c = i" 0 cs] by (cases "scan_from (\<lambda>c. c = i) 0 cs") auto
  then have "j < length cs" "cs ! j = i" using scan_0_Some by fastforce+
  then show ?thesis using j mset_swap_remove [of j cs] by (simp add: remove_channel_def)
qed

lemma remove_channel_set:
  assumes "i \<in> set cs" "distinct cs"
  shows "set (remove_channel i cs) = set cs - {i}" "distinct (remove_channel i cs)"
    "length (remove_channel i cs) \<le> length cs"
proof -
  have m: "mset (remove_channel i cs) = mset (remove1 i cs)" using remove_channel_mset [OF assms(1)] by simp
  show "set (remove_channel i cs) = set cs - {i}" using mset_eq_setD [OF m] assms(2) by simp
  show "distinct (remove_channel i cs)" using mset_eq_imp_distinct_iff [OF m] assms(2) by simp
  show "length (remove_channel i cs) \<le> length cs" using mset_eq_length [OF m] by (simp add: length_remove1)
qed

lemma channel_destructor_inv:
  fixes w :: "('m, 'h) world"
  assumes inv: "box_inv other user w" and tls: "h_tls w = Some i"
  shows "\<exists>w'. channel_destructor e i w = Returns w' \<and> box_inv other user w' \<and>
    set (b_channels w') = set (b_channels w) - {i} \<and> h_tls w' = None"
proof -
  define v where "v = sandbox_run e i (pbox_set_state i PBOX_STATE_EXIT w)"
  have more: "sandbox.more v = sandbox.more w" by (simp add: v_def pbox_set_state_def)
  have v: "box_inv other user v" using inv box_inv_more [OF more] by simp
  note f = host_fields [OF more]
  have i: "i \<in> set (b_channels v)" using inv tls f by (auto simp: box_inv_def)
  have dist: "distinct (b_channels v)" "inj_on (shm_fd v) (set (b_channels v))"
    using v by (simp_all add: box_inv_def own_fds_def distinct_map)
  note rm = remove_channel_set [OF i dist(1)] remove_channel_mset [OF i]
  let ?cs = "remove_channel i (b_channels v)"
  define base where "base = {#Process, Watcher, ChanMap 0, ChannelLock, CallbackLock, FdLock, ChannelKey, BoxMem#} +
     (if b_channel_cap v \<noteq> 0 then {#ChanVec#} else {#}) + (if fd_overflow_cap (b_fds v) \<noteq> 0 then {#FdVec#} else {#})"
  define rest where "rest = other + (base + (\<Sum>j\<in>#mset ?cs. channel_resources v j))"
  have "mset (b_channels v) = add_mset i (mset ?cs)" using i by (simp add: rm(4))
  then have held: "h_held v = channel_resources v i + rest"
    using v by (simp add: box_inv_def box_resources_def base_def rest_def)
  define fds where "fds = (h_fds v)(shm_fd v i := None)"
  define w' where "w' = v\<lparr>h_held := rest, h_fds := fds, b_channels := ?cs, h_tls := None\<rparr>"
  have 1: "release_region i v = Returns (v\<lparr>h_held := add_mset (ChanMap i) (add_mset (TchMem i) rest)\<rparr>)"
    using held by (intro release_region_held) (simp add: channel_resources_def)
  have 2: "release (ChanMap i) (v\<lparr>h_held := add_mset (ChanMap i) (add_mset (TchMem i) rest)\<rparr>) =
      Returns (v\<lparr>h_held := add_mset (TchMem i) rest\<rparr>)" by (simp add: release_def)
  have 3: "release (TchMem i) (v\<lparr>h_held := add_mset (TchMem i) rest, h_fds := fds, b_channels := ?cs\<rparr>) =
      Returns (v\<lparr>h_held := rest, h_fds := fds, b_channels := ?cs\<rparr>)" by (simp add: release_def)
  have "channel_destructor e i w = Returns w'"
    unfolding channel_destructor_def v_def [symmetric] 1 and_then.simps 2 Let_def
    by (simp add: close_fd_def fds_def [unfolded shm_fd_def, symmetric] 3 w'_def)
  moreover have "box_inv other user w'"
  proof -
    have res: "channel_resources w' = channel_resources v" "shm_fd w' = shm_fd v"
      by (simp_all add: w'_def channel_resources_def shm_fd_def fun_eq_iff)
    have sub: "shm_fd v ` (set (b_channels v) - {i}) = shm_fd v ` set (b_channels v) - {shm_fd v i}"
      using dist(2) i by (auto simp: inj_on_def)
    have eq: "own_fds w' = b_control_shm_fd v # b_sock_fd v # map (shm_fd v) ?cs"
      by (simp add: own_fds_def res) (simp add: w'_def)
    have own: "set (own_fds w') = set (own_fds v) - {shm_fd v i}"
      using v i by (auto simp: eq own_fds_def [of v] rm(1) sub box_inv_def)
    have "distinct (own_fds w')"
      using v rm(1,2) dist(2) by (auto simp: eq own_fds_def [of v] box_inv_def distinct_map inj_on_def)
    moreover have "h_held w' = other + box_resources w'"
      by (simp add: box_resources_def res) (simp add: w'_def rest_def base_def)
    moreover have "user = (\<lambda>fd. if fd \<in> set (own_fds w') then None else h_fds w' fd)"
      using v i unfolding own by (auto simp: box_inv_def w'_def fds_def own_fds_def [of v] fun_eq_iff)
    moreover have "\<forall>fd\<in>set (own_fds w'). h_fds w' fd \<noteq> None"
      using v unfolding own by (simp add: box_inv_def w'_def fds_def)
    moreover have "\<forall>j\<in>set (b_channels w'). j < h_next w'" "length (b_channels w') \<le> b_channel_cap w'"
      "set_option (h_tls w') \<subseteq> set (b_channels w')" "finite (dom (h_fds w'))"
      using v rm(1,3) by (auto simp: box_inv_def w'_def fds_def)
    ultimately show ?thesis unfolding box_inv_def by blast
  qed
  moreover have "set (b_channels w') = set (b_channels w) - {i}" "h_tls w' = None"
    using rm(1) f by (simp_all add: w'_def)
  ultimately show ?thesis by blast
qed

lemma pbox_destroy_inv:
  assumes inv: "box_inv other user w"
  shows "\<exists>w'. pbox_destroy w = Returns w' \<and> h_held w' = other \<and> h_fds w' = user \<and> \<not> sb_alive w'"
proof -
  define v where "v = sandbox_dies w"
  define vec where "vec = (if 0 < b_channel_cap v then [ChanVec] else [])"
  define fdv where "fdv = (if 0 < fd_overflow_cap (b_fds v) then [FdVec] else []) @ [BoxMem]"
  define r5 where "r5 = mset fdv + other"
  define r4 where "r4 = mset [ChannelLock, CallbackLock, FdLock, ChannelKey] + r5"
  define r3 where "r3 = mset vec + add_mset (ChanMap 0) r4"
  define r2 where "r2 = (\<Sum>j\<in>#mset (b_channels v). channel_resources v j) + r3"
  define fds where "fds = (\<lambda>fd. if fd \<in> shm_fd v ` set (b_channels v) then None else h_fds v fd)"
  define fds' where "fds' = fds(b_control_shm_fd v := None, b_sock_fd v := None)"
  have v: "box_inv other user v" "\<not> sb_alive v"
    using inv box_inv_more [of v w] by (simp_all add: v_def sandbox_dies_def)
  have "h_held v = mset [Process, Watcher] + r2"
    using v by (simp add: box_inv_def box_resources_def vec_def fdv_def r5_def r4_def r3_def r2_def)
  then have 1: "release_all [Process, Watcher] v = Returns (v\<lparr>h_held := r2\<rparr>)" by (rule release_all_held)
  have 2: "destroy_channels (b_channels v) (v\<lparr>h_held := r2\<rparr>) = Returns (v\<lparr>h_held := r3, h_fds := fds\<rparr>)"
    by (subst destroy_channels_held [where others = r3]) (simp_all add: r2_def fds_def cong: if_cong)
  have 3: "release_all vec (v\<lparr>h_held := r3, h_fds := fds\<rparr>) = Returns (v\<lparr>h_held := add_mset (ChanMap 0) r4, h_fds := fds\<rparr>)"
    by (subst release_all_held [where others = "add_mset (ChanMap 0) r4"]) (simp_all add: r3_def)
  have 4: "release (ChanMap 0) (v\<lparr>h_held := add_mset (ChanMap 0) r4, h_fds := fds, b_channels := []\<rparr>) =
      Returns (v\<lparr>h_held := r4, h_fds := fds, b_channels := []\<rparr>)"
    by (subst release_held [where rs = r4]) simp_all
  have 5: "release_all [ChannelLock, CallbackLock, FdLock, ChannelKey] (v\<lparr>h_held := r4, b_channels := [], h_fds := fds'\<rparr>) =
      Returns (v\<lparr>h_held := r5, b_channels := [], h_fds := fds'\<rparr>)"
    by (subst release_all_held [where others = r5]) (simp_all add: r4_def)
  have 6: "release_all fdv (v\<lparr>h_held := r5, b_channels := [], h_fds := fds'\<rparr>) =
      Returns (v\<lparr>h_held := other, b_channels := [], h_fds := fds'\<rparr>)"
    by (subst release_all_held [where others = other]) (simp_all add: r5_def)
  have "fds' = user" using v by (auto simp: box_inv_def own_fds_def fun_eq_iff fds_def fds'_def)
  moreover have "pbox_destroy w = Returns (v\<lparr>h_held := other, b_channels := [], h_fds := fds'\<rparr>)"
    unfolding pbox_destroy_def
    by (simp add: v_def [symmetric] 1 2 3 4 5 6 vec_def [symmetric] fdv_def [symmetric] fds'_def [symmetric]
        close_fd_def del: release_all.simps and_then_Returns append.simps append_Cons append_Nil split del: if_split)
  ultimately show ?thesis using v(2) by simp
qed

section \<open>The outcomes of creating a box\<close>

text \<open>Asking for a symbol on a channel whose thread waits at the top of its loop.\<close>

lemma c_string_symbol_name:
  "c_string ((take 255 (c_string s @ replicate 255 0) @ [0])[255 := 0]) = take 255 (c_string s)"
proof -
  let ?xs = "take 255 (c_string s @ replicate 255 0)"
  have len: "length ?xs = 255" by simp
  have nz: "\<forall>b\<in>set (take 255 (c_string s)). b \<noteq> 0"
    by (auto simp: c_string_def dest!: in_set_takeD dest: set_takeWhileD)
  have "(?xs @ [0])[255 := 0] = ?xs @ [0]" by (simp add: list_update_append)
  also have "\<dots> = take 255 (c_string s) @ (replicate (255 - length (c_string s)) 0 @ [0])" by simp
  also have "c_string \<dots> = take 255 (c_string s) @ takeWhile (\<lambda>b. b \<noteq> 0) (replicate (255 - length (c_string s)) 0 @ [0])"
    using nz by (subst (1) c_string_def) (rule takeWhile_append2, blast)
  also have "takeWhile (\<lambda>b. b \<noteq> 0) (replicate (255 - length (c_string s)) (0 :: byte) @ [0]) = []"
    by (cases "255 - length (c_string s)") simp_all
  finally show ?thesis by simp
qed

lemma dlsym_on_result:
  assumes "sb_alive w" "sb_worker w i = AtLoop"
  shows "dlsym_on e i s w = Returns (e_dlsym e (take 255 (c_string s)),
    put_chan i ((sb_chan w i)\<lparr>request_type := PBOX_REQ_DLSYM, symbol_name := take 255 (c_string s @ replicate 255 0) @ [0],
      symbol_addr := e_dlsym e (take 255 (c_string s)), ch_state := PBOX_STATE_IDLE\<rparr>) w)"
proof -
  let ?n = "take 255 (c_string s @ replicate 255 0) @ [0]"
  have "?n[255 := 0] = ?n" by (simp add: list_update_append)
  then show ?thesis
    using assms c_string_symbol_name [of s]
    by (simp add: dlsym_on_def exchange_def pbox_wait_for_state_def pbox_set_state_def sandbox_run_def
        dispatch_request_def serve_dlsym_def respond_def put_symbol_name_def Let_def)
qed

lemma dlsym_on_more: "dlsym_on e i s w = Returns (a, w') \<Longrightarrow> sandbox.more w' = sandbox.more w"
  by (auto simp: dlsym_on_def dest!: exchange_more)

lemma box_inv_symbols [simp]:
  "box_inv other user (w\<lparr>b_sym_malloc := a\<rparr>) = box_inv other user w"
  "box_inv other user (w\<lparr>b_sym_calloc := a\<rparr>) = box_inv other user w"
  "box_inv other user (w\<lparr>b_sym_realloc := a\<rparr>) = box_inv other user w"
  "box_inv other user (w\<lparr>b_sym_free := a\<rparr>) = box_inv other user w"
  "box_inv other user (w\<lparr>b_sym_mmap := a\<rparr>) = box_inv other user w"
  "box_inv other user (w\<lparr>b_sym_munmap := a\<rparr>) = box_inv other user w"
  "box_inv other user (w\<lparr>b_sym_memcpy := a\<rparr>) = box_inv other user w"
  "box_inv other user (w\<lparr>b_sym_close := a\<rparr>) = box_inv other user w"
  by (simp_all add: box_inv_def box_resources_def channel_resources_def [abs_def] own_fds_def shm_fd_def [abs_def]
      cong: if_cong split del: if_split)

lemma dlsym_on_inv: "dlsym_on e i s w = Returns (a, w') \<Longrightarrow> box_inv other user w' = box_inv other user w"
  by (rule box_inv_more) (rule dlsym_on_more)

lemma cache_symbols_inv: "cache_symbols e w = Returns w' \<Longrightarrow> box_inv other user w' = box_inv other user w"
  by (clarsimp simp: cache_symbols_def dlsym_on_inv)

lemma more_sandbox_main [simp]: "sandbox.more (sandbox_main e k mem shm sock w) = sandbox.more w"
  by (simp add: sandbox_main_def Let_def)

text \<open>Three descriptors in a row are different and were free.\<close>

lemma kernel_three_fds:
  fixes fds :: "nat \<Rightarrow> open_file option"
  assumes k: "kernel_ok k" and fin: "finite (dom fds)"
    and eq: "a = k_fd k fds" "b = k_fd k (fds(a \<mapsto> x))" "c = k_fd k (fds(a \<mapsto> x, b \<mapsto> y))"
  shows "fds a = None" "fds b = None" "fds c = None" "a \<noteq> b" "a \<noteq> c" "b \<noteq> c"
proof -
  have new: "f (k_fd k f) = None" if "finite (dom f)" for f using k that by (simp add: kernel_ok_def)
  have "fds a = None" "(fds(a \<mapsto> x)) b = None" "(fds(a \<mapsto> x, b \<mapsto> y)) c = None"
    using new [of fds] new [of "fds(a \<mapsto> x)"] new [of "fds(a \<mapsto> x, b \<mapsto> y)"] fin
    by (simp_all only: eq dom_fun_upd finite_insert option.distinct if_False)
  then show "fds a = None" "fds b = None" "fds c = None" "a \<noteq> b" "a \<noteq> c" "b \<noteq> c"
    by (auto split: if_splits)
qed

lemma pbox_start_failed:
  fixes w :: "('m, 'h) world"
  assumes "pbox_start e k mem shm s0 s1 w = Returns (False, w')" and held: "h_held w = mset (ChanMap 0 # box_locks) + other"
  shows "h_held w' = other" "h_fds w' = (h_fds w)(s1 := None, shm := None, s0 := None)"
proof -
  let ?v = "sandbox_main e k mem shm s1 (acquire Process w)"
  let ?u = "close_fd s0 (close_fd shm (sandbox_dies ((close_fd s1 ?v)\<lparr>b_sock_fd := s0\<rparr>)))"
  have "sandbox.more ?v = sandbox.more (acquire Process w)" by simp
  note f = host_fields [OF this]
  have u: "h_held ?u = mset ([Process, ChanMap 0] @ box_locks) + other" "h_fds ?u = (h_fds w)(s1 := None, shm := None, s0 := None)"
    using held f by (simp_all add: close_fd_def sandbox_dies_def acquire_def)
  have "give_up ([Process, ChanMap 0] @ box_locks) ?u = Returns (False, w')"
    using assms(1) by (auto simp: pbox_start_def Let_def split: if_splits)
  then have "w' = ?u\<lparr>h_held := other\<rparr>"
    using release_all_held [OF u(1)] by (auto simp: give_up_def simp del: release_all.simps)
  with u(2) show "h_held w' = other" "h_fds w' = (h_fds w)(s1 := None, shm := None, s0 := None)" by simp_all
qed

text \<open>Concrete boxes for the instances below: a kernel that always takes the lowest free descriptor.\<close>

definition example_kernel_with :: "(call_site \<Rightarrow> bool) \<Rightarrow> kernel" where
  "example_kernel_with ok = \<lparr>k_ok = ok, k_fd = (\<lambda>fds. LEAST n. fds n = None), k_turns = 10,
     k_addr = 0x7F1000000000, k_fixed = (\<lambda>a. a), k_maps = (\<lambda>_. Some []), k_heap = (\<lambda>_ _. True),
     k_cloexec = (\<lambda>_. False), k_sigpipe_ignored = False\<rparr>"

lemma example_kernel_with_ok: "kernel_ok (example_kernel_with ok)"
proof -
  have "fds (LEAST n. fds n = None) = None" if "finite (dom fds)" for fds :: "nat \<Rightarrow> open_file option"
  proof -
    have "\<exists>n. fds n = None" using ex_new_if_finite [OF infinite_UNIV_nat that] by (auto simp: dom_def)
    then show ?thesis by (rule LeastI_ex)
  qed
  then show ?thesis by (simp add: kernel_ok_def example_kernel_with_def)
qed

definition example_box :: "(unit, nat) world" where
  "example_box = example_world\<lparr>
     h_fds := [0 \<mapsto> SockEnd True, 1 \<mapsto> ChanShm 0, 2 \<mapsto> ChanShm 1, 7 \<mapsto> HostFile 0],
     h_held := {#Process, Watcher, ChanMap 0, ChannelLock, CallbackLock, FdLock, ChannelKey, BoxMem, ChanVec, ChanMap 1, TchMem 1#}\<rparr>"

lemma example_box_inv: "box_inv {#} [7 \<mapsto> HostFile 0] example_box"
  by (auto simp: box_inv_def box_resources_def channel_resources_def own_fds_def shm_fd_def example_box_def
      example_world_def empty_fd_cache_def fun_eq_iff)

text \<open>C35: a failed \<open>pbox_create\<close> gives back everything it had acquired, at every one of its failing steps,
  with one exception: when \<open>fork\<close> fails, the two ends of the socket pair stay open.\<close>

theorem pbox_create_failure_releases:
  fixes w :: "('m, 'h) world"
  assumes k: "kernel_ok k" and fin: "finite (dom (h_fds w))" and res: "pbox_create e k mem w = Returns (False, w')"
  shows "h_held w' = h_held w \<and>
    (h_fds w' = h_fds w \<or>
     \<not> k_ok k At_fork \<and> (\<exists>s0 s1. s0 \<noteq> s1 \<and> h_fds w s0 = None \<and> h_fds w s1 = None \<and>
       h_fds w' = (h_fds w)(s0 \<mapsto> SockEnd True, s1 \<mapsto> SockEnd False)))"
proof -
  note fds = kernel_three_fds [where fds = "h_fds w" and x = "ChanShm 0" and y = "SockEnd True", OF k fin refl refl refl]
  let ?shm = "k_fd k (h_fds w)"
  let ?s0 = "k_fd k ((h_fds w)(?shm \<mapsto> ChanShm 0))"
  let ?s1 = "k_fd k ((h_fds w)(?shm \<mapsto> ChanShm 0, ?s0 \<mapsto> SockEnd True))"
  have same: "(h_fds w)(?shm := None) = h_fds w" using fds(1) by (simp add: fun_upd_idem)
  show ?thesis
  proof (cases "k_ok k At_malloc \<and> k_ok k At_mutex_fd \<and> k_ok k At_mutex_callback \<and> k_ok k At_key_create \<and>
      k_ok k At_mutex_channel \<and> k_ok k At_memfd_create \<and> k_ok k At_ftruncate \<and> k_ok k At_mmap \<and> k_ok k At_socketpair")
    case False
    with res same show ?thesis
      by (auto simp: pbox_create_def give_up_def Let_def acquire_def release_def close_fd_def split: if_splits)
  next
    case ok: True
    show ?thesis
    proof (cases "k_ok k At_fork")
      case False
      have "h_fds w' = (h_fds w)(?s0 \<mapsto> SockEnd True, ?s1 \<mapsto> SockEnd False)" "h_held w' = h_held w"
        using res ok False fds
        by (auto simp: pbox_create_def give_up_def Let_def acquire_def release_def close_fd_def fun_upd_twist fun_eq_iff split: if_splits)
      with False fds show ?thesis by blast
    next
      case True
      with res ok obtain v where v: "pbox_start e k mem ?shm ?s0 ?s1 v = Returns (False, w')"
        "h_held v = mset (ChanMap 0 # box_locks) + h_held w"
        "h_fds v = (h_fds w)(?shm \<mapsto> ChanShm 0, ?s0 \<mapsto> SockEnd True, ?s1 \<mapsto> SockEnd False)"
        by (auto simp: pbox_create_def Let_def acquire_def)
      have "(h_fds v)(?s1 := None, ?shm := None, ?s0 := None) = h_fds w"
        using fds by (auto simp: v(3) fun_eq_iff)
      then show ?thesis using pbox_start_failed [OF v(1,2)] by simp
    qed
  qed
qed

text \<open>Resolving the eight symbols never fails on a sandbox whose control thread waits.\<close>

definition with_symbols :: "(string \<Rightarrow> u64) \<Rightarrow> ('m, 'h) world \<Rightarrow> ('m, 'h) world" where
  "with_symbols f w = w\<lparr>b_sym_malloc := f ''malloc'', b_sym_calloc := f ''calloc'', b_sym_realloc := f ''realloc'',
     b_sym_free := f ''free'', b_sym_mmap := f ''mmap'', b_sym_munmap := f ''munmap'', b_sym_memcpy := f ''memcpy'',
     b_sym_close := f ''close''\<rparr>"

lemma cache_symbols_result:
  assumes "sb_alive w" "sb_worker w 0 = AtLoop"
  obtains c where "cache_symbols e w = Returns (with_symbols (\<lambda>s. e_dlsym e (take 255 (c_string (c_name s)))) (put_chan 0 c w))"
    "ch_state c = PBOX_STATE_IDLE"
proof
  let ?s = "c_string (c_name ''close'')"
  let ?c = "(sb_chan w 0)\<lparr>request_type := PBOX_REQ_DLSYM, symbol_name := take 255 (?s @ replicate 255 0) @ [0],
      symbol_addr := e_dlsym e (take 255 ?s), ch_state := PBOX_STATE_IDLE\<rparr>"
  show "cache_symbols e w = Returns (with_symbols (\<lambda>s. e_dlsym e (take 255 (c_string (c_name s)))) (put_chan 0 ?c w))"
    using assms by (simp add: cache_symbols_def dlsym_on_result with_symbols_def)
  show "ch_state ?c = PBOX_STATE_IDLE" by simp
qed

lemma symbol_names:
  "\<forall>s\<in>{''malloc'', ''calloc'', ''realloc'', ''free'', ''mmap'', ''munmap'', ''memcpy'', ''close''}.
     take 255 (c_string (c_name s)) = c_name s"
  by code_simp

lemma with_symbols_inv [simp]: "box_inv other user (with_symbols f w) = box_inv other user w"
  by (simp add: with_symbols_def)

text \<open>The steps of \<open>pbox_create\<close> that can fail in the host.\<close>

definition creation_sites :: "call_site list" where
  "creation_sites = [At_malloc, At_mutex_fd, At_mutex_callback, At_key_create, At_mutex_channel, At_memfd_create,
     At_ftruncate, At_mmap, At_socketpair, At_fork, At_pthread_create]"

lemma pbox_create_start:
  fixes w :: "('m, 'h) world"
  assumes k: "kernel_ok k" and fin: "finite (dom (h_fds w))" and ok: "\<forall>c\<in>set creation_sites. k_ok k c"
  obtains v shm s0 s1 where "pbox_create e k mem w = and_then (cache_symbols e (acquire Watcher v)) (\<lambda>w. Returns (True, w))"
    "box_inv (h_held w) (h_fds w) (acquire Watcher v)"
    "sb_proc v = \<lparr>pr_mem = mem, pr_fds = inherited_fds k shm s1 ((h_fds w)(shm \<mapsto> ChanShm 0, s0 \<mapsto> SockEnd True, s1 \<mapsto> SockEnd False)), pr_window = []\<rparr>"
    "h_fds w shm = None" "h_fds w s0 = None" "h_fds w s1 = None"
    "sb_alive v \<longleftrightarrow> k_ok k At_exec \<and> k_ok k At_sandbox_setup"
    "sb_alive v \<longrightarrow> sb_worker v 0 = AtLoop"
    "b_channels v = []" "b_fds v = empty_fd_cache" "callback_count (b_reg v) = 0" "h_tls v = None"
proof -
  note fds = kernel_three_fds [where fds = "h_fds w" and x = "ChanShm 0" and y = "SockEnd True", OF k fin refl refl refl]
  let ?shm = "k_fd k (h_fds w)"
  let ?s0 = "k_fd k ((h_fds w)(?shm \<mapsto> ChanShm 0))"
  let ?s1 = "k_fd k ((h_fds w)(?shm \<mapsto> ChanShm 0, ?s0 \<mapsto> SockEnd True))"
  obtain u where u: "pbox_create e k mem w = pbox_start e k mem ?shm ?s0 ?s1 u"
    "h_held u = mset (ChanMap 0 # box_locks) + h_held w" "b_control_shm_fd u = ?shm"
    "h_fds u = (h_fds w)(?shm \<mapsto> ChanShm 0, ?s0 \<mapsto> SockEnd True, ?s1 \<mapsto> SockEnd False)"
    "b_channels u = []" "b_channel_cap u = 0" "b_fds u = empty_fd_cache" "callback_count (b_reg u) = 0" "h_tls u = None"
    using ok by (simp add: pbox_create_def creation_sites_def Let_def acquire_def)
  define m where "m = sandbox_main e k mem ?shm ?s1 (acquire Process u)"
  define v where "v = (close_fd ?s1 m)\<lparr>b_sock_fd := ?s0\<rparr>"
  have more: "sandbox.more m = sandbox.more (acquire Process u)" by (simp add: m_def)
  note f = host_fields [OF more]
  show thesis
  proof (rule that [of v ?shm ?s1 ?s0])
    show "pbox_create e k mem w = and_then (cache_symbols e (acquire Watcher v)) (\<lambda>w. Returns (True, w))"
      using ok by (simp add: u(1) pbox_start_def creation_sites_def Let_def flip: m_def v_def)
    have fin': "finite (dom (h_fds v))" using fin u(4) f by (simp add: v_def close_fd_def acquire_def)
    show "box_inv (h_held w) (h_fds w) (acquire Watcher v)"
      using fds u(2-) f fin'
      by (auto simp: box_inv_def box_resources_def own_fds_def v_def close_fd_def acquire_def empty_fd_cache_def fun_eq_iff)
    show "b_channels v = []" "b_fds v = empty_fd_cache" "callback_count (b_reg v) = 0" "h_tls v = None"
      using u f by (simp_all add: v_def close_fd_def acquire_def)
    show "sb_alive v \<longleftrightarrow> k_ok k At_exec \<and> k_ok k At_sandbox_setup" "sb_alive v \<longrightarrow> sb_worker v 0 = AtLoop"
      by (simp_all add: v_def close_fd_def m_def sandbox_main_def start_worker_def sandbox_dies_def Let_def)
    show "sb_proc v = \<lparr>pr_mem = mem, pr_fds = inherited_fds k ?shm ?s1
        ((h_fds w)(?shm \<mapsto> ChanShm 0, ?s0 \<mapsto> SockEnd True, ?s1 \<mapsto> SockEnd False)), pr_window = []\<rparr>"
      using u(4) by (simp add: v_def close_fd_def m_def sandbox_main_def start_worker_def sandbox_dies_def Let_def acquire_def)
    show "h_fds w ?shm = None" "h_fds w ?s0 = None" "h_fds w ?s1 = None" using fds by (simp_all split: if_splits)
  qed
qed

theorem pbox_create_failure_releases_witness:
  "\<exists>w' s0 s1. pbox_create example_env (example_kernel_with (\<lambda>c. c \<noteq> At_fork)) () example_world = Returns (False, w') \<and>
     h_held w' = {#} \<and> (h_fds w' = h_fds example_world \<or> h_fds w' s0 = Some (SockEnd True) \<and> h_fds w' s1 = Some (SockEnd False))"
proof -
  let ?k = "example_kernel_with (\<lambda>c. c \<noteq> At_fork)"
  have ok: "k_ok ?k = (\<lambda>c. c \<noteq> At_fork)" by (simp add: example_kernel_with_def)
  have fin: "finite (dom (h_fds example_world))" and held: "h_held example_world = {#}"
    by (simp_all add: example_world_def)
  obtain w' where w': "pbox_create example_env ?k () example_world = Returns (False, w')"
    using held by (simp add: pbox_create_def Let_def ok give_up_def acquire_def release_def close_fd_def)
  from pbox_create_failure_releases [OF example_kernel_with_ok fin this] held w' show ?thesis by auto
qed

lemma pbox_create_True_sites:
  assumes "pbox_create e k mem w = Returns (True, w')"
  shows "\<forall>c\<in>set creation_sites. k_ok k c"
  using assms
  by (simp add: pbox_create_def pbox_start_def give_up_def creation_sites_def Let_def split: if_splits)

lemma pbox_create_inv:
  fixes w :: "('m, 'h) world"
  assumes k: "kernel_ok k" and fin: "finite (dom (h_fds w))" and res: "pbox_create e k mem w = Returns (True, w')"
  shows "box_inv (h_held w) (h_fds w) w'"
proof -
  obtain v where v: "pbox_create e k mem w = and_then (cache_symbols e (acquire Watcher v)) (\<lambda>w. Returns (True, w))"
    "box_inv (h_held w) (h_fds w) (acquire Watcher v)"
    using pbox_create_start [OF k fin pbox_create_True_sites [OF res], of e mem] by metis
  with res cache_symbols_inv [of e "acquire Watcher v"] show ?thesis by auto
qed

lemma pbox_create_returns:
  fixes w :: "('m, 'h) world"
  assumes k: "kernel_ok k" and fin: "finite (dom (h_fds w))" and ok: "\<forall>c\<in>set (At_exec # At_sandbox_setup # creation_sites). k_ok k c"
  shows "\<exists>w'. pbox_create e k mem w = Returns (True, w')"
proof -
  obtain v where v: "pbox_create e k mem w = and_then (cache_symbols e (acquire Watcher v)) (\<lambda>w. Returns (True, w))"
    "sb_alive v" "sb_worker v 0 = AtLoop"
    using pbox_create_start [OF k fin, of e mem] ok by (metis list.set_intros)
  have "sb_alive (acquire Watcher v)" "sb_worker (acquire Watcher v) 0 = AtLoop" using v by (simp_all add: acquire_def)
  from cache_symbols_result [OF this, of e] v(1) show ?thesis by fastforce
qed

text \<open>C36: when nothing fails, \<open>pbox_create\<close> returns a box that owns exactly what it acquired, whose control
  thread waits for requests, with the eight symbols as \<open>dlsym\<close> resolves them, an empty descriptor
  cache and no callbacks; and the sandbox starts with no descriptor of the host but its end of
  the socket pair and the standard streams. The last holds where \<open>close_range\<close> works: its result is
  ignored, and where it fails every descriptor of the host program that is not close-on-exec is
  open in the sandbox.\<close>

theorem pbox_create_ready:
  fixes w :: "('m, 'h) world"
  assumes k: "kernel_ok k" and fin: "finite (dom (h_fds w))" and ok: "\<forall>c\<in>set (At_exec # At_sandbox_setup # creation_sites). k_ok k c"
  shows "\<exists>w'. pbox_create e k mem w = Returns (True, w') \<and> box_inv (h_held w) (h_fds w) w' \<and>
    pbox_alive w' \<and> sb_alive w' \<and> sb_worker w' 0 = AtLoop \<and> h_tls w' = None \<and> b_channels w' = [] \<and>
    b_fds w' = empty_fd_cache \<and> callback_count (b_reg w') = 0 \<and>
    b_sym_malloc w' = e_dlsym e (c_name ''malloc'') \<and> b_sym_calloc w' = e_dlsym e (c_name ''calloc'') \<and>
    b_sym_realloc w' = e_dlsym e (c_name ''realloc'') \<and> b_sym_free w' = e_dlsym e (c_name ''free'') \<and>
    b_sym_mmap w' = e_dlsym e (c_name ''mmap'') \<and> b_sym_munmap w' = e_dlsym e (c_name ''munmap'') \<and>
    b_sym_memcpy w' = e_dlsym e (c_name ''memcpy'') \<and> b_sym_close w' = e_dlsym e (c_name ''close'') \<and>
    (k_ok k At_close_range \<longrightarrow> (\<forall>n\<ge>3. pr_fds (sb_proc w') n \<in> {None, Some (SockEnd False)})) \<and>
    (\<not> k_ok k At_close_range \<longrightarrow>
      (\<forall>n f. h_fds w n = Some (HostFile f) \<and> \<not> k_cloexec k n \<longrightarrow> pr_fds (sb_proc w') (int n) = Some (HostFile f)))"
proof -
  obtain v shm s0 s1 where v: "pbox_create e k mem w = and_then (cache_symbols e (acquire Watcher v)) (\<lambda>w. Returns (True, w))"
    "box_inv (h_held w) (h_fds w) (acquire Watcher v)"
    "sb_proc v = \<lparr>pr_mem = mem, pr_fds = inherited_fds k shm s1 ((h_fds w)(shm \<mapsto> ChanShm 0, s0 \<mapsto> SockEnd True, s1 \<mapsto> SockEnd False)), pr_window = []\<rparr>"
    "sb_alive v" "sb_worker v 0 = AtLoop" "b_channels v = []" "b_fds v = empty_fd_cache"
    "callback_count (b_reg v) = 0" "h_tls v = None" "h_fds w shm = None" "h_fds w s0 = None" "h_fds w s1 = None"
    using pbox_create_start [OF k fin, of e mem] ok by (metis list.set_intros)
  let ?v = "acquire Watcher v"
  have "sb_alive ?v" "sb_worker ?v 0 = AtLoop" using v by (simp_all add: acquire_def)
  then obtain c where c: "cache_symbols e ?v =
      Returns (with_symbols (\<lambda>s. e_dlsym e (take 255 (c_string (c_name s)))) (put_chan 0 c ?v))" "ch_state c = PBOX_STATE_IDLE"
    by (rule cache_symbols_result)
  let ?w = "with_symbols (\<lambda>s. e_dlsym e (take 255 (c_string (c_name s)))) (put_chan 0 c ?v)"
  have "sandbox.more (put_chan 0 c ?v) = sandbox.more ?v" by simp
  from box_inv_more [OF this] have "box_inv (h_held w) (h_fds w) ?w" using v(2) by simp
  moreover have "k_ok k At_close_range \<Longrightarrow> \<forall>n\<ge>3. pr_fds (sb_proc ?w) n \<in> {None, Some (SockEnd False)}"
    using v(3) by (auto simp: with_symbols_def acquire_def inherited_fds_def child_cloexec_def)
  moreover have "pr_fds (sb_proc ?w) (int n) = Some (HostFile f)"
    if "\<not> k_ok k At_close_range" "h_fds w n = Some (HostFile f)" "\<not> k_cloexec k n" for n f
    using v(3,10-12) that by (auto simp: with_symbols_def acquire_def inherited_fds_def child_cloexec_def fd_cloexec_def)
  ultimately show ?thesis
    using v c symbol_names
    by (intro exI [of _ ?w]) (simp add: with_symbols_def acquire_def pbox_alive_def)
qed

theorem pbox_create_ready_witness:
  "\<exists>w'. pbox_create example_env (example_kernel_with (\<lambda>_. True)) () example_world = Returns (True, w') \<and>
     pbox_alive w' \<and> b_sym_malloc w' = 0"
proof -
  have fin: "finite (dom (h_fds example_world))" by (simp add: example_world_def)
  have ok: "\<forall>c\<in>set (At_exec # At_sandbox_setup # creation_sites). k_ok (example_kernel_with (\<lambda>_. True)) c" by (simp add: example_kernel_with_def)
  have "e_dlsym example_env (c_name ''malloc'') = 0" by (simp add: example_env_def c_name_def)
  with pbox_create_ready [OF example_kernel_with_ok fin ok, of example_env "()"] show ?thesis by auto
qed

text \<open>C37: when the executable cannot be started, or the sandbox fails before its loop, \<open>pbox_create\<close> does not
  return \<open>NULL\<close>: it waits for ever for the answer to its first \<open>dlsym\<close>.\<close>

theorem pbox_create_bad_executable:
  fixes w :: "('m, 'h) world"
  assumes k: "kernel_ok k" and fin: "finite (dom (h_fds w))" and ok: "\<forall>c\<in>set creation_sites. k_ok k c"
    and bad: "\<not> (k_ok k At_exec \<and> k_ok k At_sandbox_setup)"
  shows "pbox_create e k mem w = Blocks"
proof -
  obtain v where v: "pbox_create e k mem w = and_then (cache_symbols e (acquire Watcher v)) (\<lambda>w. Returns (True, w))" "\<not> sb_alive v"
    using pbox_create_start [OF k fin ok, of e mem] bad by metis
  then show ?thesis by (simp add: cache_symbols_def dlsym_on_def exchange_dead acquire_def)
qed

theorem pbox_create_bad_executable_witness:
  "pbox_create example_env (example_kernel_with (\<lambda>c. c \<noteq> At_exec)) () example_world = Blocks"
  by (rule pbox_create_bad_executable [OF example_kernel_with_ok]) (simp_all add: example_world_def example_kernel_with_def creation_sites_def)

text \<open>when a host thread exits, its channel's resources are released exactly once, the channel leaves the
  list, every other channel stays, and the box owns exactly what remains.\<close>

theorem thread_exit_releases_channel:
  fixes w :: "('m, 'h) world"
  assumes "box_inv other user w" "h_tls w = Some i"
  shows "\<exists>w'. channel_destructor e i w = Returns w' \<and> box_inv other user w' \<and>
    set (b_channels w') = set (b_channels w) - {i} \<and> h_tls w' = None"
  using assms by (rule channel_destructor_inv)

theorem thread_exit_releases_channel_witness:
  "\<exists>w'. channel_destructor example_env 1 example_box = Returns w' \<and> h_tls w' = None"
proof -
  have "h_tls example_box = Some 1" by (simp add: example_box_def example_world_def)
  from thread_exit_releases_channel [OF example_box_inv this, of example_env] show ?thesis by auto
qed

end
