(* ===== verification/ProcMaps.thy ===== *)
theory ProcMaps
  imports Prelude
begin

text \<open>
  The search for an address range that is free in both processes (\<open>src/pbox/pbox_procmaps.c\<close>):
  reading \<open>/proc/<pid>/maps\<close>, the overlap test, and the scan over the candidate windows.
  The file's content is a string; \<open>fgets\<close> with its 512-byte buffer and the \<open>%lx-%lx\<close> conversion
  of \<open>sscanf\<close> are modelled as the C standard defines them.
\<close>

section \<open>Reading the map file\<close>

text \<open>\<open>fgets(line, 512, f)\<close>: up to 511 characters, through the first newline.\<close>

fun fgets :: "nat \<Rightarrow> string \<Rightarrow> string \<times> string" where
  "fgets 0 cs = ([], cs)"
| "fgets (Suc n) [] = ([], [])"
| "fgets (Suc n) (c # cs) =
     (if c = CHR 0x0A then ([c], cs) else let (l, rest) = fgets n cs in (c # l, rest))"

lemma fgets_append: "fst (fgets n cs) @ snd (fgets n cs) = cs"
  by (induction n cs rule: fgets.induct) (auto simp: case_prod_beta Let_def)

lemma fgets_progress: "cs \<noteq> [] \<Longrightarrow> length (snd (fgets (Suc n) cs)) < length cs"
proof (cases cs)
  case (Cons c cs')
  have "length (snd (fgets n cs')) \<le> length cs'"
    using fgets_append [of n cs'] by (metis le_add2 length_append)
  with Cons show ?thesis by (simp add: case_prod_beta Let_def)
qed simp

function file_lines :: "string \<Rightarrow> string list" where
  "file_lines cs = (if cs = [] then [] else fst (fgets 511 cs) # file_lines (snd (fgets 511 cs)))"
  by pat_completeness auto
termination
  by (relation "measure length") (use fgets_progress [where n = 510] in \<open>auto simp: numeral_eq_Suc\<close>)

declare file_lines.simps [simp del]

text \<open>\<open>%lx\<close>: white space, a sign, an optional \<open>0x\<close>, then at least one hexadecimal digit.\<close>

definition hex_digit :: "char \<Rightarrow> nat option" where
  "hex_digit c =
     (let n = of_char c :: nat in
      if 48 \<le> n \<and> n \<le> 57 then Some (n - 48)
      else if 97 \<le> n \<and> n \<le> 102 then Some (n - 87)
      else if 65 \<le> n \<and> n \<le> 70 then Some (n - 55)
      else None)"

definition is_space :: "char \<Rightarrow> bool" where
  "is_space c \<longleftrightarrow> of_char c \<in> set [32, 9, 10, 11, 12, 13 :: nat]"

fun hex_digits :: "nat \<Rightarrow> string \<Rightarrow> nat \<times> string" where
  "hex_digits acc [] = (acc, [])"
| "hex_digits acc (c # cs) =
     (case hex_digit c of Some d \<Rightarrow> hex_digits (16 * acc + d) cs | None \<Rightarrow> (acc, c # cs))"

text \<open>A \<open>0x\<close> belongs to the number even when no digit follows (then the conversion fails).\<close>

definition strip_0x :: "string \<Rightarrow> string" where
  "strip_0x cs =
     (case cs of
        z # x # rest \<Rightarrow> if z = CHR ''0'' \<and> (x = CHR ''x'' \<or> x = CHR ''X'') then rest else cs
      | _ \<Rightarrow> cs)"

definition scan_lx :: "string \<Rightarrow> (u64 \<times> string) option" where
  "scan_lx cs0 =
     (let cs1 = dropWhile is_space cs0;
          neg = (cs1 \<noteq> [] \<and> hd cs1 = CHR ''-'');
          cs2 = (if cs1 \<noteq> [] \<and> (hd cs1 = CHR ''-'' \<or> hd cs1 = CHR ''+'') then tl cs1 else cs1);
          cs3 = strip_0x cs2
      in case cs3 of
           [] \<Rightarrow> None
         | c # _ \<Rightarrow>
             (case hex_digit c of
                None \<Rightarrow> None
              | Some _ \<Rightarrow>
                  let (v, rest) = hex_digits 0 cs3;
                      w = (if v < 2 ^ 64 then word_of_nat v else - 1 :: u64)
                  in Some (if neg \<and> v < 2 ^ 64 then - w else w, rest)))"

text \<open>\<open>sscanf(line, "%lx-%lx", &start, &end) == 2\<close>.\<close>

definition scan_region :: "string \<Rightarrow> (u64 \<times> u64) option" where
  "scan_region line =
     (case scan_lx line of
        None \<Rightarrow> None
      | Some (s, rest) \<Rightarrow>
          (case rest of
             [] \<Rightarrow> None
           | c # rest' \<Rightarrow>
               if c = CHR ''-'' then
                 (case scan_lx rest' of None \<Rightarrow> None | Some (e, _) \<Rightarrow> Some (s, e))
               else None))"

text \<open>
  \<open>parse_proc_maps\<close>. \<open>file\<close> is \<open>None\<close> when \<open>fopen\<close> fails; \<open>alloc_ok k\<close> is the outcome of the
  \<open>k\<close>-th allocation (the initial \<open>malloc\<close> is number 0). The loop keeps the capacity of the vector.
\<close>

fun parse_lines :: "(nat \<Rightarrow> bool) \<Rightarrow> nat \<Rightarrow> nat \<Rightarrow> (u64 \<times> u64) list \<Rightarrow> string list \<Rightarrow> (u64 \<times> u64) list option" where
  "parse_lines alloc_ok k cp regions [] = Some regions"
| "parse_lines alloc_ok k cp regions (l # ls) =
     (case scan_region l of
        None \<Rightarrow> parse_lines alloc_ok k cp regions ls
      | Some r \<Rightarrow>
          if length regions \<ge> cp then
            (if alloc_ok k then parse_lines alloc_ok (Suc k) (cp * 2) (regions @ [r]) ls else None)
          else parse_lines alloc_ok k cp (regions @ [r]) ls)"

definition parse_proc_maps :: "(nat \<Rightarrow> bool) \<Rightarrow> string option \<Rightarrow> (u64 \<times> u64) list option" where
  "parse_proc_maps alloc_ok file =
     (case file of
        None \<Rightarrow> None
      | Some cs \<Rightarrow> if alloc_ok 0 then parse_lines alloc_ok 1 64 [] (file_lines cs) else None)"

lemma parse_lines_result:
  "parse_lines ok k cp rs ls = Some out \<Longrightarrow> out = rs @ List.map_filter scan_region ls"
proof (induction ls arbitrary: k cp rs)
  case Nil
  then show ?case by simp
next
  case (Cons l ls)
  show ?case
  proof (cases "scan_region l")
    case None
    with Cons show ?thesis by simp
  next
    case (Some r)
    with Cons.prems obtain k' cp' where "parse_lines ok k' cp' (rs @ [r]) ls = Some out"
      by (auto split: if_splits)
    from Cons.IH [OF this] Some show ?thesis by simp
  qed
qed

lemma parse_lines_ok:
  "(\<forall>k. ok k) \<Longrightarrow> parse_lines ok k cp rs ls = Some (rs @ List.map_filter scan_region ls)"
  by (induction ls arbitrary: k cp rs) (auto simp: List.map_filter_simps split: option.splits)

section \<open>Overlap and search\<close>

definition range_overlaps :: "u64 \<Rightarrow> u64 \<Rightarrow> (u64 \<times> u64) list \<Rightarrow> bool" where
  "range_overlaps addr len regions =
     (let end_addr = addr + len in
      list_ex (\<lambda>(r_start, r_end). addr < r_end \<and> end_addr > r_start) regions)"

definition map_candidates :: "u64 list" where
  "map_candidates = [0x700000000000, 0x600000000000, 0x500000000000,
                     0x400000000000, 0x200000000000, 0x100000000000]"

function scan_window :: "(u64 \<Rightarrow> bool) \<Rightarrow> u64 \<Rightarrow> nat \<Rightarrow> u64 option" where
  "scan_window free base offset =
     (if offset < 0x10000000000 then
        let addr = base + word_of_nat offset in
        if free addr then Some addr else scan_window free base (offset + 65536)
      else None)"
  by pat_completeness auto
termination
  by (relation "measure (\<lambda>(free, base, offset). 0x10000000000 - offset)") auto

declare scan_window.simps [simp del]

fun scan_windows :: "(u64 \<Rightarrow> bool) \<Rightarrow> u64 list \<Rightarrow> u64 option" where
  "scan_windows free [] = None"
| "scan_windows free (b # bs) =
     (case scan_window free b 0 of Some a \<Rightarrow> Some a | None \<Rightarrow> scan_windows free bs)"

definition pbox_find_common_free_address ::
  "(u64 \<times> u64) list option \<Rightarrow> (u64 \<times> u64) list option \<Rightarrow> u64 \<Rightarrow> u64 option" where
  "pbox_find_common_free_address regions1 regions2 length0 =
     (case (regions1, regions2) of
        (Some r1, Some r2) \<Rightarrow>
          let len = (length0 + 4096 - 1) AND NOT (4096 - 1) in
          scan_windows (\<lambda>addr. \<not> range_overlaps addr len r1 \<and> \<not> range_overlaps addr len r2) map_candidates
      | _ \<Rightarrow> None)"

lemma scan_window_Some:
  assumes "scan_window free base off = Some a"
  shows "\<exists>k. a = base + word_of_nat (off + 65536 * k) \<and> off + 65536 * k < 0x10000000000 \<and> free a \<and>
    (\<forall>j<k. \<not> free (base + word_of_nat (off + 65536 * j)))"
  using assms
proof (induction free base off rule: scan_window.induct)
  case (1 free base off)
  show ?case
  proof (cases "off < 0x10000000000 \<and> \<not> free (base + word_of_nat off)")
    case True
    with 1 obtain k where k: "a = base + word_of_nat (off + 65536 + 65536 * k)"
      "off + 65536 + 65536 * k < 0x10000000000" "free a"
      "\<forall>j<k. \<not> free (base + word_of_nat (off + 65536 + 65536 * j))"
      by (auto simp: scan_window.simps [of free base off] Let_def)
    have "\<not> free (base + word_of_nat (off + 65536 * j))" if "j < Suc k" for j
      using that True k(4) by (cases j) (simp_all add: algebra_simps)
    with k show ?thesis
      by (intro exI [of _ "Suc k"]) (simp add: algebra_simps)
  next
    case False
    with 1(2) show ?thesis
      by (intro exI [of _ 0]) (auto simp: scan_window.simps [of free base off] Let_def split: if_splits)
  qed
qed

lemma scan_window_None:
  assumes "scan_window free base off = None" "off + 65536 * k < 0x10000000000"
  shows "\<not> free (base + word_of_nat (off + 65536 * k))"
  using assms
proof (induction free base off arbitrary: k rule: scan_window.induct)
  case (1 free base off)
  from 1(3) have lt: "off < 0x10000000000" by simp
  with 1(2) have nf: "\<not> free (base + word_of_nat off)" "scan_window free base (off + 65536) = None"
    by (auto simp: scan_window.simps [of free base off] Let_def split: if_splits)
  show ?case
  proof (cases k)
    case 0
    with nf show ?thesis by simp
  next
    case (Suc j)
    with 1(1) [OF lt refl nf(1) nf(2), of j] 1(3) show ?thesis by (simp add: algebra_simps)
  qed
qed

lemma scan_windows_Some:
  "scan_windows free bs = Some a \<Longrightarrow>
     \<exists>b\<in>set bs. \<exists>k. a = b + word_of_nat (65536 * k) \<and> 65536 * k < 0x10000000000 \<and> free a"
  by (induction bs) (auto split: option.splits dest: scan_window_Some [where off = 0, simplified])

lemma scan_windows_None:
  "scan_windows free bs = None \<Longrightarrow> b \<in> set bs \<Longrightarrow> 65536 * k < 0x10000000000 \<Longrightarrow>
     \<not> free (b + word_of_nat (65536 * k))"
  by (induction bs) (auto split: option.splits dest: scan_window_None [where off = 0, simplified])

text \<open>The overlap test is the intersection of half-open intervals, when the range does not wrap.\<close>

lemma range_overlaps_iff:
  assumes "unat addr + unat len < 2 ^ 64" "0 < len" "\<forall>(s, e)\<in>set rs. s < e"
  shows "range_overlaps addr len rs \<longleftrightarrow>
    (\<exists>(s, e)\<in>set rs. \<exists>x. addr \<le> x \<and> unat x < unat addr + unat len \<and> s \<le> x \<and> x < e)"
proof -
  have u: "unat (addr + len) = unat addr + unat len" using assms(1) by (rule unat_add64)
  have "(addr < e \<and> addr + len > s) \<longleftrightarrow> (\<exists>x. addr \<le> x \<and> unat x < unat addr + unat len \<and> s \<le> x \<and> x < e)"
    if "s < e" for s e
  proof
    assume a: "addr < e \<and> addr + len > s"
    show "\<exists>x. addr \<le> x \<and> unat x < unat addr + unat len \<and> s \<le> x \<and> x < e"
      using a that u assms(2)
      by (intro exI [of _ "max addr s"]) (auto simp: max_def word_less_nat_alt word_le_nat_alt)
  next
    assume "\<exists>x. addr \<le> x \<and> unat x < unat addr + unat len \<and> s \<le> x \<and> x < e"
    then show "addr < e \<and> addr + len > s"
      using u by (auto simp: word_less_nat_alt word_le_nat_alt)
  qed
  with assms(3) show ?thesis
    by (fastforce simp: range_overlaps_def list_ex_iff)
qed

section \<open>The kernel's format\<close>

text \<open>
  What the kernel prints for a mapping: both bounds in lower-case hexadecimal, padded to eight
  digits, then the rest of the line.
\<close>

definition hex_char :: "nat \<Rightarrow> char" where
  "hex_char d = char_of (if d < 10 then 48 + d else 87 + d)"

fun hex_string :: "nat \<Rightarrow> string" where
  "hex_string n = (if n < 16 then [hex_char n] else hex_string (n div 16) @ [hex_char (n mod 16)])"

declare hex_string.simps [simp del]

definition print_lx :: "u64 \<Rightarrow> string" where
  "print_lx w = replicate (8 - length (hex_string (unat w))) (CHR ''0'') @ hex_string (unat w)"

definition maps_line :: "(u64 \<times> u64) \<times> string \<Rightarrow> string" where
  "maps_line m = print_lx (fst (fst m)) @ ''-'' @ print_lx (snd (fst m)) @ '' '' @ snd m @ [CHR 0x0A]"

definition maps_line_ok :: "(u64 \<times> u64) \<times> string \<Rightarrow> bool" where
  "maps_line_ok m \<longleftrightarrow> CHR 0x0A \<notin> set (snd m) \<and> length (maps_line m) \<le> 511"

lemma hex_digit_hex_char: "d < 16 \<Longrightarrow> hex_digit (hex_char d) = Some d"
  by (cases "d < 10") (simp_all add: hex_digit_def hex_char_def Let_def)

lemma hex_char_set: "c \<in> set (hex_string n) \<Longrightarrow> hex_digit c \<noteq> None"
proof (induction n rule: hex_string.induct)
  case (1 n)
  then show ?case
    by (auto simp: hex_string.simps [of n] hex_digit_hex_char split: if_splits)
qed

lemma hex_string_ne [simp]: "hex_string n \<noteq> []"
  by (simp add: hex_string.simps [of n])

lemma hex_digits_append:
  "(\<forall>c\<in>set xs. hex_digit c \<noteq> None) \<Longrightarrow>
     hex_digits acc (xs @ ys) = hex_digits (fst (hex_digits acc xs)) ys"
  by (induction xs arbitrary: acc) auto

lemma hex_digits_hex_string: "fst (hex_digits acc (hex_string n)) = acc * 16 ^ length (hex_string n) + n"
proof (induction n rule: hex_string.induct)
  case (1 n)
  show ?case
  proof (cases "n < 16")
    case True
    then show ?thesis by (simp add: hex_string.simps [of n] hex_digit_hex_char)
  next
    case False
    have "fst (hex_digits acc (hex_string n)) = 16 * fst (hex_digits acc (hex_string (n div 16))) + n mod 16"
      using False hex_char_set [of _ "n div 16"]
      by (simp add: hex_string.simps [of n] hex_digits_append hex_digit_hex_char)
    also have "\<dots> = 16 * (acc * 16 ^ length (hex_string (n div 16))) + n"
      unfolding 1 [OF False] by (simp add: algebra_simps)
    finally show ?thesis using False by (simp add: hex_string.simps [of n])
  qed
qed

lemma hex_digits_zeros: "hex_digits 0 (replicate k (CHR ''0'') @ xs) = hex_digits 0 xs"
  by (induction k) (simp_all add: hex_digit_def)

lemma print_lx_digits: "c \<in> set (print_lx w) \<Longrightarrow> hex_digit c \<noteq> None"
  using hex_char_set by (auto simp: print_lx_def hex_digit_def)

lemma print_lx_ne [simp]: "print_lx w \<noteq> []"
  by (simp add: print_lx_def)

lemma hex_digit_chars:
  "hex_digit c \<noteq> None \<Longrightarrow> \<not> is_space c \<and> c \<noteq> CHR ''-'' \<and> c \<noteq> CHR ''+'' \<and> c \<noteq> CHR ''x'' \<and> c \<noteq> CHR ''X'' \<and> c \<noteq> CHR 0x0A"
  by (auto simp: hex_digit_def is_space_def Let_def split: if_splits)

lemma scan_lx_print:
  assumes "hex_digit c = None" "c \<noteq> CHR ''x''" "c \<noteq> CHR ''X''"
  shows "scan_lx (print_lx w @ c # rest) = Some (w, c # rest)"
proof -
  let ?p = "print_lx w"
  obtain d ds where p: "?p = d # ds" by (cases ?p) (simp_all add: print_lx_def)
  have d: "hex_digit d \<noteq> None" and ds: "\<forall>x\<in>set ds. hex_digit x \<noteq> None"
    using print_lx_digits [of _ w] by (simp_all add: p)
  have strip: "strip_0x (?p @ c # rest) = ?p @ c # rest"
    using ds assms(2,3) hex_digit_chars by (cases ds) (auto simp: strip_0x_def p)
  have v: "hex_digits 0 ?p = hex_digits 0 (hex_string (unat w))"
    by (simp add: print_lx_def hex_digits_zeros)
  have "hex_digits 0 (?p @ c # rest) = hex_digits (unat w) (c # rest)"
    using hex_digits_append [of ?p 0 "c # rest"] print_lx_digits [of _ w] hex_digits_hex_string [of 0 "unat w"] v
    by simp
  then have digits: "hex_digits 0 (?p @ c # rest) = (unat w, c # rest)" using assms(1) by simp
  have sp: "dropWhile is_space (?p @ c # rest) = ?p @ c # rest" "d \<noteq> CHR ''-''" "d \<noteq> CHR ''+''"
    using hex_digit_chars [OF d] by (simp_all add: p)
  have lt: "unat w < 2 ^ 64" using unsigned_less [of w, where ?'a = nat] by simp
  from d obtain k where k: "hex_digit d = Some k" by auto
  show ?thesis
    unfolding scan_lx_def Let_def sp(1)
    using sp(2,3) strip digits lt k by (simp add: p)
qed

lemma scan_region_line: "scan_region (maps_line m) = Some (fst m)"
proof -
  have h: "hex_digit (CHR ''-'') = None" "hex_digit (CHR '' '') = None" by (simp_all add: hex_digit_def)
  show ?thesis
    using scan_lx_print [OF h(1), of "fst (fst m)"] scan_lx_print [OF h(2), of "snd (fst m)"]
    by (simp add: scan_region_def maps_line_def)
qed

lemma fgets_line:
  "CHR 0x0A \<notin> set xs \<Longrightarrow> length xs < n \<Longrightarrow> fgets n (xs @ CHR 0x0A # ys) = (xs @ [CHR 0x0A], ys)"
proof (induction xs arbitrary: n)
  case Nil
  then show ?case by (cases n) auto
next
  case (Cons x xs)
  then show ?case by (cases n) auto
qed

lemma file_lines_maps:
  assumes "\<forall>m\<in>set ms. maps_line_ok m"
  shows "file_lines (concat (map maps_line ms)) = map maps_line ms"
  using assms
proof (induction ms)
  case Nil
  then show ?case by (simp add: file_lines.simps)
next
  case (Cons m ms)
  let ?x = "print_lx (fst (fst m)) @ ''-'' @ print_lx (snd (fst m)) @ '' '' @ snd m"
  have l: "maps_line m = ?x @ [CHR 0x0A]" by (simp add: maps_line_def)
  have "CHR 0x0A \<notin> set ?x"
    using Cons.prems print_lx_digits hex_digit_chars by (fastforce simp: maps_line_ok_def)
  moreover have "length ?x < 511" using Cons.prems l by (simp add: maps_line_ok_def)
  ultimately have "fgets 511 (?x @ CHR 0x0A # concat (map maps_line ms)) = (maps_line m, concat (map maps_line ms))"
    unfolding l by (rule fgets_line)
  then have "fgets 511 (maps_line m @ concat (map maps_line ms)) = (maps_line m, concat (map maps_line ms))"
    unfolding l by simp
  moreover have "maps_line m \<noteq> []" by (simp add: maps_line_def)
  ultimately show ?case using Cons by (simp add: file_lines.simps [of "maps_line m @ _"])
qed

lemma parse_maps:
  assumes "\<forall>m\<in>set ms. maps_line_ok m" "parse_proc_maps ok (Some (concat (map maps_line ms))) = Some rs"
  shows "rs = map fst ms"
proof -
  have "List.map_filter scan_region (map maps_line ms) = map fst ms"
    by (induction ms) (simp_all add: scan_region_line)
  with assms show ?thesis
    by (auto simp: parse_proc_maps_def file_lines_maps split: if_splits dest!: parse_lines_result)
qed

section \<open>The search is sound and complete\<close>

text \<open>The addresses of \<open>[addr, addr + len)\<close> rounded up to whole pages, against a process's mappings.\<close>

definition range_free :: "u64 \<Rightarrow> u64 \<Rightarrow> ((u64 \<times> u64) \<times> string) list \<Rightarrow> bool" where
  "range_free addr len ms \<longleftrightarrow>
     (\<forall>m\<in>set ms. unat (snd (fst m)) \<le> unat addr \<or> unat addr + round_up 4096 (unat len) \<le> unat (fst (fst m)))"

lemma page_round: "unat len < 2 ^ 63 \<Longrightarrow> unat ((len + 4096 - 1) AND NOT (4096 - 1 :: u64)) = round_up 4096 (unat len)"
  using unat_round_up64 [of len 12] by (simp add: add.commute add_diff_eq)

lemma range_free_iff:
  assumes "unat len < 2 ^ 63" "unat addr < 2 ^ 62"
  shows "\<not> range_overlaps addr ((len + 4096 - 1) AND NOT (4096 - 1)) (map fst ms) \<longleftrightarrow> range_free addr len ms"
proof -
  let ?len = "(len + 4096 - 1) AND NOT (4096 - 1 :: u64)"
  have l: "unat ?len = round_up 4096 (unat len)" using assms(1) by (rule page_round)
  have "round_up 4096 (unat len) < unat len + 4096" by (rule round_up_less) simp
  then have "unat (addr + ?len) = unat addr + round_up 4096 (unat len)"
    using assms l by (simp add: unat_add64)
  then show ?thesis
    by (auto simp: range_overlaps_def range_free_def list_ex_iff Let_def word_less_nat_alt not_less)
qed

lemma candidate_address:
  assumes "b \<in> set map_candidates" "65536 * k < 0x10000000000"
  shows "unat (b + word_of_nat (65536 * k)) = unat b + 65536 * k" "unat b + 65536 * k < 2 ^ 47"
    "65536 dvd unat b" "0x100000000000 \<le> unat b"
proof -
  have k: "unat (word_of_nat (65536 * k) :: u64) = 65536 * k"
    using assms(2) by (simp only: unat_of_nat) simp
  have b: "unat b \<le> 0x700000000000" "65536 dvd unat b" "0x100000000000 \<le> unat b"
    using assms(1) by (auto simp: map_candidates_def)
  then show "65536 dvd unat b" "0x100000000000 \<le> unat b" "unat b + 65536 * k < 2 ^ 47"
    using assms(2) by simp_all
  show "unat (b + word_of_nat (65536 * k)) = unat b + 65536 * k"
    using k b assms(2) by (subst unat_add64) simp_all
qed

lemma common_address_nonnull:
  assumes "pbox_find_common_free_address r1 r2 len = Some a"
  shows "a \<noteq> 0"
proof -
  from assms obtain b k where b: "b \<in> set map_candidates" "65536 * k < 0x10000000000" "a = b + word_of_nat (65536 * k)"
    by (auto simp: pbox_find_common_free_address_def Let_def split: option.splits dest!: scan_windows_Some)
  from candidate_address [OF b(1,2)] have "unat a \<noteq> 0" by (simp add: b(3))
  then show ?thesis by auto
qed

text \<open>C26: an address returned by \<open>pbox_find_common_free_address\<close> is free in both processes: it is a
  non-null multiple of 64 KiB in the lower half of the address space, and no mapping listed in either
  \<open>/proc/<pid>/maps\<close> shares an address with the page-rounded request placed there.\<close>

theorem find_common_free_address_sound:
  assumes "\<forall>m\<in>set ms1 \<union> set ms2. maps_line_ok m" "unat len < 2 ^ 63"
    and "pbox_find_common_free_address (parse_proc_maps ok1 (Some (concat (map maps_line ms1))))
           (parse_proc_maps ok2 (Some (concat (map maps_line ms2)))) len = Some addr"
  shows "range_free addr len ms1 \<and> range_free addr len ms2 \<and> addr \<noteq> 0 \<and>
    65536 dvd unat addr \<and> unat addr < 2 ^ 47"
proof -
  from assms(3) obtain r1 r2 where
    r: "parse_proc_maps ok1 (Some (concat (map maps_line ms1))) = Some r1"
       "parse_proc_maps ok2 (Some (concat (map maps_line ms2))) = Some r2"
    by (auto simp: pbox_find_common_free_address_def split: option.splits)
  then have e: "r1 = map fst ms1" "r2 = map fst ms2"
    using parse_maps [of ms1 ok1 r1] parse_maps [of ms2 ok2 r2] assms(1) by auto
  let ?len = "(len + 4096 - 1) AND NOT (4096 - 1 :: u64)"
  from assms(3) obtain b k where b: "b \<in> set map_candidates" "65536 * k < 0x10000000000"
      "addr = b + word_of_nat (65536 * k)"
    and fr: "\<not> range_overlaps addr ?len (map fst ms1)" "\<not> range_overlaps addr ?len (map fst ms2)"
    unfolding pbox_find_common_free_address_def r e by (auto simp: Let_def dest!: scan_windows_Some)
  note c = candidate_address [OF b(1,2)]
  have lt: "unat addr < 2 ^ 62" using c(1,2) b(3) by simp
  have "range_free addr len ms1" "range_free addr len ms2"
    using fr range_free_iff [OF assms(2) lt] by blast+
  moreover have "unat addr \<noteq> 0" using c(1,4) b(3) by simp
  then have "addr \<noteq> 0" by auto
  ultimately show ?thesis using c b(3) by (simp add: dvd_add)
qed

theorem find_common_free_address_sound_witness:
  "pbox_find_common_free_address
     (parse_proc_maps (\<lambda>_. True) (Some (concat (map maps_line [((0x700000000000, 0x700000020000), ''rw-p'')]))))
     (parse_proc_maps (\<lambda>_. True) (Some (concat (map maps_line [])))) 8192 = Some 0x700000020000 \<and>
   range_free 0x700000020000 8192 [((0x700000000000, 0x700000020000), ''rw-p'')]"
proof -
  let ?m = "((0x700000000000, 0x700000020000), ''rw-p'') :: (u64 \<times> u64) \<times> string"
  have ok: "maps_line_ok ?m"
    by (simp add: maps_line_ok_def maps_line_def print_lx_def hex_string.simps hex_char_def)
  have "parse_proc_maps (\<lambda>_. True) (Some (concat (map maps_line [?m]))) = Some [(0x700000000000, 0x700000020000)]"
    using parse_lines_ok [of "\<lambda>_. True" 1 64 "[]" "map maps_line [?m]"] file_lines_maps [of "[?m]"] ok
    by (simp add: parse_proc_maps_def scan_region_line)
  moreover have "parse_proc_maps (\<lambda>_. True) (Some (concat (map maps_line []))) = Some []"
    by (simp add: parse_proc_maps_def file_lines.simps)
  ultimately have res: "pbox_find_common_free_address
     (parse_proc_maps (\<lambda>_. True) (Some (concat (map maps_line [?m]))))
     (parse_proc_maps (\<lambda>_. True) (Some (concat (map maps_line [])))) 8192 = Some 0x700000020000"
    by (simp add: pbox_find_common_free_address_def map_candidates_def scan_window.simps range_overlaps_def)
  then show ?thesis
    using find_common_free_address_sound [OF _ _ res] ok by simp
qed

text \<open>C27: the search misses nothing: when both map files are read and it still returns \<open>NULL\<close>, every
  64 KiB-aligned address of the six candidate windows collides with a mapping of one of the processes.\<close>

theorem find_common_free_address_complete:
  assumes "\<forall>m\<in>set ms1 \<union> set ms2. maps_line_ok m" "unat len < 2 ^ 63"
    and "pbox_find_common_free_address (parse_proc_maps (\<lambda>_. True) (Some (concat (map maps_line ms1))))
           (parse_proc_maps (\<lambda>_. True) (Some (concat (map maps_line ms2)))) len = None"
    and "b \<in> set map_candidates" "65536 * k < 0x10000000000"
  shows "\<not> (range_free (b + word_of_nat (65536 * k)) len ms1 \<and> range_free (b + word_of_nat (65536 * k)) len ms2)"
proof -
  have r: "parse_proc_maps (\<lambda>_. True) (Some (concat (map maps_line ms))) = Some (map fst ms)"
    if "\<forall>m\<in>set ms. maps_line_ok m" for ms
  proof -
    have "List.map_filter scan_region (map maps_line ms) = map fst ms"
      by (induction ms) (simp_all add: scan_region_line)
    then show ?thesis
      using that by (simp add: parse_proc_maps_def file_lines_maps parse_lines_ok)
  qed
  let ?a = "b + word_of_nat (65536 * k)"
  have lt: "unat ?a < 2 ^ 62" using candidate_address(1,2) [OF assms(4,5)] by simp
  have "scan_windows (\<lambda>addr. \<not> range_overlaps addr ((len + 4096 - 1) AND NOT (4096 - 1)) (map fst ms1) \<and>
      \<not> range_overlaps addr ((len + 4096 - 1) AND NOT (4096 - 1)) (map fst ms2)) map_candidates = None"
    using assms(1,3) r [of ms1] r [of ms2] by (simp add: pbox_find_common_free_address_def Let_def)
  from scan_windows_None [OF this assms(4,5)] show ?thesis
    using range_free_iff [OF assms(2) lt] by blast
qed

theorem find_common_free_address_complete_witness:
  "\<not> (range_free 0x700000000000 8192 [((0, 0x7fffffffffff), ''r'')] \<and> range_free 0x700000000000 8192 [])"
proof -
  let ?m = "((0, 0x7fffffffffff), ''r'') :: (u64 \<times> u64) \<times> string"
  have ok: "maps_line_ok ?m"
    by (simp add: maps_line_ok_def maps_line_def print_lx_def hex_string.simps hex_char_def)
  have p: "parse_proc_maps (\<lambda>_. True) (Some (concat (map maps_line [?m]))) = Some [(0, 0x7fffffffffff)]"
    using parse_lines_ok [of "\<lambda>_. True" 1 64 "[]" "map maps_line [?m]"] file_lines_maps [of "[?m]"] ok
    by (simp add: parse_proc_maps_def scan_region_line)
  have q: "parse_proc_maps (\<lambda>_. True) (Some (concat (map maps_line []))) = Some []"
    by (simp add: parse_proc_maps_def file_lines.simps)
  have hit: "range_overlaps (b + word_of_nat (65536 * k)) 8192 [(0, 0x7fffffffffff)]"
    if "b \<in> set map_candidates" "65536 * k < 0x10000000000" for b k
  proof -
    note c = candidate_address [OF that]
    have "unat b \<le> 0x700000000000" using that(1) by (auto simp: map_candidates_def)
    moreover define x where "x = b + word_of_nat (65536 * k)"
    ultimately have x: "unat x < 0x7fffffffffff" "unat x < 2 ^ 48" using c that(2) by simp_all
    then have "unat (x + 8192) = unat x + 8192" by (subst unat_add64) simp_all
    with x(1) have "range_overlaps x 8192 [(0, 0x7fffffffffff)]"
      by (simp add: range_overlaps_def word_less_nat_alt)
    then show ?thesis by (simp only: x_def)
  qed
  let ?free = "\<lambda>addr. \<not> range_overlaps addr 8192 [(0, 0x7fffffffffff)] \<and> \<not> range_overlaps addr 8192 []"
  have "scan_windows ?free map_candidates = None"
  proof (rule ccontr)
    assume "scan_windows ?free map_candidates \<noteq> None"
    then obtain a where "scan_windows ?free map_candidates = Some a" by blast
    from scan_windows_Some [OF this] hit show False by blast
  qed
  then have n: "pbox_find_common_free_address (parse_proc_maps (\<lambda>_. True) (Some (concat (map maps_line [?m]))))
      (parse_proc_maps (\<lambda>_. True) (Some (concat (map maps_line [])))) 8192 = None"
    unfolding p q by (simp add: pbox_find_common_free_address_def)
  show ?thesis
    using find_common_free_address_complete [OF _ _ n, where b = "0x700000000000" and k = 0] ok by (simp add: map_candidates_def)
qed

end
