(* ===== verification/Seccomp.thy ===== *)
theory Seccomp
  imports Prelude
begin

text \<open>
  The system-call filters of the sandbox (\<open>src/pbox/pbox_seccomp.c\<close>): the BPF programs the two install
  functions build, an interpreter for the instructions they use, and the kernel's combination of
  stacked filters. The system-call numbers come from the kernel's headers, so the table \<open>nr\<close> is a
  parameter: \<open>nr s = None\<close> where the header does not define \<open>__NR_s\<close>.
\<close>

section \<open>The filter machine\<close>

datatype seccomp_action = KILL_PROCESS | ERRNO nat | ALLOW

text \<open>
  The kernel compares the decisions of several filters by their kind only:
  \<open>SECCOMP_RET_KILL_PROCESS\<close> before \<open>SECCOMP_RET_ERRNO\<close> before \<open>SECCOMP_RET_ALLOW\<close>. That is the order of the kinds.
\<close>

datatype action_kind = Kill_kind | Errno_kind | Allow_kind

fun kind_of :: "seccomp_action \<Rightarrow> action_kind" where
  "kind_of KILL_PROCESS = Kill_kind"
| "kind_of (ERRNO n) = Errno_kind"
| "kind_of ALLOW = Allow_kind"

instantiation action_kind :: linorder
begin

fun less_eq_action_kind :: "action_kind \<Rightarrow> action_kind \<Rightarrow> bool" where
  "Kill_kind \<le> k \<longleftrightarrow> True"
| "Errno_kind \<le> k \<longleftrightarrow> k \<noteq> Kill_kind"
| "Allow_kind \<le> k \<longleftrightarrow> k = Allow_kind"

definition less_action_kind :: "action_kind \<Rightarrow> action_kind \<Rightarrow> bool" where
  "less_action_kind a b \<longleftrightarrow> a \<le> b \<and> \<not> b \<le> (a :: action_kind)"

instance
proof
  fix a b c :: action_kind
  show "a < b \<longleftrightarrow> a \<le> b \<and> \<not> b \<le> a" by (rule less_action_kind_def)
  show "a \<le> a" by (cases a) simp_all
  show "a \<le> b \<Longrightarrow> b \<le> c \<Longrightarrow> a \<le> c" by (cases a; cases b; cases c) simp_all
  show "a \<le> b \<Longrightarrow> b \<le> a \<Longrightarrow> a = b" by (cases a; cases b) simp_all
  show "a \<le> b \<or> b \<le> a" by (cases a; cases b) simp_all
qed

end

text \<open>
  The decision of a newer filter together with that of the older ones: an older decision counts only
  if it is of a stricter kind, so of two errors the program sees the newer filter's.
\<close>

definition stricter :: "seccomp_action \<Rightarrow> seccomp_action \<Rightarrow> seccomp_action" where
  "stricter newer older = (if kind_of older < kind_of newer then older else newer)"

lemma stricter_simps [simp]:
  "stricter KILL_PROCESS a = KILL_PROCESS" "stricter (ERRNO n) KILL_PROCESS = KILL_PROCESS" "stricter (ERRNO n) (ERRNO m) = ERRNO n"
  "stricter (ERRNO n) ALLOW = ERRNO n" "stricter ALLOW a = a" "stricter a ALLOW = a"
  by (cases a; simp add: stricter_def less_action_kind_def)+

lemma stricter_kind:
  "kind_of (stricter a b) \<le> kind_of a" "kind_of (stricter a b) \<le> kind_of b"
  by (auto simp: stricter_def)

text \<open>\<open>struct seccomp_data\<close>, as far as the filters read it.\<close>

record seccomp_data =
  sd_nr :: u32
  sd_arch :: u32
  sd_args :: "u64 list"

text \<open>The instructions used. A 32-bit load of an argument reads its low word (little endian).\<close>

datatype bpf = LoadNr | LoadArch | LoadArg nat | JumpEq u32 nat nat | Return seccomp_action

definition low_word :: "u64 \<Rightarrow> u32" where
  "low_word x = ucast x"

text \<open>
  Jumps go forward only, so a program is run on its remaining instructions. \<open>None\<close> is a program that
  runs off its end, which the kernel would refuse to load.
\<close>

function bpf_run :: "seccomp_data \<Rightarrow> u32 \<Rightarrow> bpf list \<Rightarrow> seccomp_action option" where
  "bpf_run d acc [] = None"
| "bpf_run d acc (LoadNr # is) = bpf_run d (sd_nr d) is"
| "bpf_run d acc (LoadArch # is) = bpf_run d (sd_arch d) is"
| "bpf_run d acc (LoadArg n # is) = bpf_run d (low_word (sd_args d ! n)) is"
| "bpf_run d acc (JumpEq k jt jf # is) = bpf_run d acc (drop (if acc = k then jt else jf) is)"
| "bpf_run d acc (Return a # is) = Some a"
  by pat_completeness auto
termination
  by (relation "measure (\<lambda>(d, acc, is). length is)") auto

section \<open>The programs\<close>

datatype syscall =
    NR_brk | NR_mmap | NR_munmap | NR_mprotect | NR_mremap | NR_madvise
  | NR_close | NR_recvmsg | NR_socketcall
  | NR_futex | NR_futex_waitv | NR_set_tid_address | NR_set_robust_list | NR_get_robust_list | NR_rseq
  | NR_rt_sigaction | NR_rt_sigprocmask | NR_rt_sigreturn | NR_sigaltstack
  | NR_exit | NR_exit_group | NR_arch_prctl | NR_prctl
  | NR_getpid | NR_gettid | NR_getuid | NR_geteuid | NR_getgid | NR_getegid
  | NR_getrandom | NR_clock_gettime | NR_clock_getres | NR_gettimeofday | NR_nanosleep | NR_clock_nanosleep
  | NR_sched_yield | NR_sched_getaffinity | NR_clone | NR_clone3 | NR_tgkill | NR_membarrier
  | NR_other nat

type_synonym nr_table = "syscall \<Rightarrow> u32 option"

abbreviation (input) ENOSYS :: nat where "ENOSYS \<equiv> 38"
abbreviation (input) PR_SET_SECCOMP :: u32 where "PR_SET_SECCOMP \<equiv> 22"
abbreviation (input) SYS_RECVMSG :: u32 where "SYS_RECVMSG \<equiv> 17"

text \<open>\<open>BPF_SYSCALL_ALLOW\<close> and \<open>BPF_SYSCALL_BLOCK\<close>; an undefined number drops the lines (\<open>#ifdef\<close>).\<close>

definition BPF_SYSCALL_ALLOW :: "nr_table \<Rightarrow> syscall \<Rightarrow> bpf list" where
  "BPF_SYSCALL_ALLOW nr s = (case nr s of None \<Rightarrow> [] | Some n \<Rightarrow> [JumpEq n 0 1, Return ALLOW])"

definition BPF_SYSCALL_BLOCK :: "nr_table \<Rightarrow> syscall \<Rightarrow> bpf list" where
  "BPF_SYSCALL_BLOCK nr s = (case nr s of None \<Rightarrow> [] | Some n \<Rightarrow> [JumpEq n 0 1, Return (ERRNO ENOSYS)])"

text \<open>The five instructions that admit a call only with a given first argument.\<close>

definition BPF_ALLOW_IF_ARG0 :: "nr_table \<Rightarrow> syscall \<Rightarrow> u32 \<Rightarrow> bpf list" where
  "BPF_ALLOW_IF_ARG0 nr s v =
     (case nr s of
        None \<Rightarrow> []
      | Some n \<Rightarrow> [JumpEq n 0 3, LoadArg 0, JumpEq v 0 1, Return ALLOW, LoadNr])"

definition allow_1 :: "syscall list" where
  "allow_1 = [NR_brk, NR_mmap, NR_munmap, NR_mprotect, NR_mremap, NR_madvise, NR_close, NR_recvmsg]"

definition allow_2 :: "syscall list" where
  "allow_2 = [NR_futex, NR_futex_waitv, NR_set_tid_address, NR_set_robust_list, NR_get_robust_list, NR_rseq,
     NR_rt_sigaction, NR_rt_sigprocmask, NR_rt_sigreturn, NR_sigaltstack, NR_exit, NR_exit_group, NR_arch_prctl]"

definition allow_3 :: "syscall list" where
  "allow_3 = [NR_getpid, NR_gettid, NR_getuid, NR_geteuid, NR_getgid, NR_getegid,
     NR_getrandom, NR_clock_gettime, NR_clock_getres, NR_gettimeofday, NR_nanosleep, NR_clock_nanosleep,
     NR_sched_yield, NR_sched_getaffinity, NR_clone, NR_clone3, NR_tgkill, NR_membarrier]"

definition seccomp_filter :: "nr_table \<Rightarrow> u32 \<Rightarrow> bpf list" where
  "seccomp_filter nr audit_arch =
     [LoadArch, JumpEq audit_arch 1 0, Return KILL_PROCESS, LoadNr] @
     concat (map (BPF_SYSCALL_ALLOW nr) allow_1) @
     BPF_ALLOW_IF_ARG0 nr NR_socketcall SYS_RECVMSG @
     concat (map (BPF_SYSCALL_ALLOW nr) allow_2) @
     BPF_ALLOW_IF_ARG0 nr NR_prctl PR_SET_SECCOMP @
     concat (map (BPF_SYSCALL_ALLOW nr) allow_3) @
     [Return (ERRNO ENOSYS)]"

definition seccomp_worker_filter :: "nr_table \<Rightarrow> bpf list" where
  "seccomp_worker_filter nr =
     LoadNr # BPF_SYSCALL_BLOCK nr NR_clone @ BPF_SYSCALL_BLOCK nr NR_clone3 @ [Return ALLOW]"

text \<open>
  The install functions on a thread's filter stack (innermost first), with the outcomes of the
  two \<open>prctl\<close> calls; a filter that is installed governs the later calls.
\<close>

definition pbox_install_seccomp :: "nr_table \<Rightarrow> u32 \<Rightarrow> bool \<Rightarrow> bool \<Rightarrow> bpf list list \<Rightarrow> int \<times> bpf list list" where
  "pbox_install_seccomp nr audit_arch no_new_privs_ok set_ok fs =
     (if \<not> no_new_privs_ok then (- 1, fs)
      else if \<not> set_ok then (- 1, fs)
      else (0, seccomp_filter nr audit_arch # fs))"

definition pbox_install_seccomp_worker :: "nr_table \<Rightarrow> bool \<Rightarrow> bpf list list \<Rightarrow> int \<times> bpf list list" where
  "pbox_install_seccomp_worker nr set_ok fs =
     (if \<not> set_ok then (- 1, fs) else (0, seccomp_worker_filter nr # fs))"

text \<open>
  A system call under a stack of filters. The kernel runs them all, the newest first, and starts from
  \<open>ALLOW\<close>.
\<close>

fun seccomp_run :: "seccomp_data \<Rightarrow> bpf list list \<Rightarrow> seccomp_action option" where
  "seccomp_run d [] = Some ALLOW"
| "seccomp_run d (f # fs) =
     (case (bpf_run d 0 f, seccomp_run d fs) of (Some a, Some b) \<Rightarrow> Some (stricter a b) | _ \<Rightarrow> None)"

section \<open>Running the programs block by block\<close>

lemma run_allow [simp]:
  "bpf_run d acc (BPF_SYSCALL_ALLOW nr s @ is) = (if nr s = Some acc then Some ALLOW else bpf_run d acc is)"
  by (cases "nr s") (auto simp: BPF_SYSCALL_ALLOW_def)

lemma run_block [simp]:
  "bpf_run d acc (BPF_SYSCALL_BLOCK nr s @ is) = (if nr s = Some acc then Some (ERRNO ENOSYS) else bpf_run d acc is)"
  by (cases "nr s") (auto simp: BPF_SYSCALL_BLOCK_def)

lemma run_allow_if [simp]:
  "bpf_run d (sd_nr d) (BPF_ALLOW_IF_ARG0 nr s v @ is) =
     (if nr s = Some (sd_nr d) \<and> low_word (sd_args d ! 0) = v then Some ALLOW else bpf_run d (sd_nr d) is)"
  by (cases "nr s") (auto simp: BPF_ALLOW_IF_ARG0_def numeral_eq_Suc)

lemma run_allow_all [simp]:
  "bpf_run d acc (concat (map (BPF_SYSCALL_ALLOW nr) ss) @ is) =
     (if Some acc \<in> nr ` set ss then Some ALLOW else bpf_run d acc is)"
  by (induction ss) auto

text \<open>What the main filter admits.\<close>

definition syscall_allowed :: "nr_table \<Rightarrow> seccomp_data \<Rightarrow> bool" where
  "syscall_allowed nr d \<longleftrightarrow>
     Some (sd_nr d) \<in> nr ` set (allow_1 @ allow_2 @ allow_3) \<or>
     nr NR_prctl = Some (sd_nr d) \<and> low_word (sd_args d ! 0) = PR_SET_SECCOMP \<or>
     nr NR_socketcall = Some (sd_nr d) \<and> low_word (sd_args d ! 0) = SYS_RECVMSG"

lemma seccomp_filter_run:
  "bpf_run d acc (seccomp_filter nr audit_arch) =
     Some (if sd_arch d \<noteq> audit_arch then KILL_PROCESS else if syscall_allowed nr d then ALLOW else ERRNO ENOSYS)"
  by (auto simp: seccomp_filter_def syscall_allowed_def)

lemma seccomp_worker_run:
  "bpf_run d acc (seccomp_worker_filter nr) =
     Some (if nr NR_clone = Some (sd_nr d) \<or> nr NR_clone3 = Some (sd_nr d) then ERRNO ENOSYS else ALLOW)"
  by (auto simp: seccomp_worker_filter_def)

lemma seccomp_run_le:
  "f \<in> set fs \<Longrightarrow> seccomp_run d fs = Some a \<Longrightarrow> \<exists>b. bpf_run d 0 f = Some b \<and> kind_of a \<le> kind_of b"
proof (induction fs arbitrary: a)
  case (Cons g fs)
  obtain x y where xy: "bpf_run d 0 g = Some x" "seccomp_run d fs = Some y" "a = stricter x y"
    using Cons.prems(2) by (auto split: option.splits)
  show ?case
  proof (cases "f = g")
    case False
    with Cons xy obtain b where "bpf_run d 0 f = Some b" "kind_of y \<le> kind_of b" by auto
    then show ?thesis using stricter_kind(2) [of x y] xy(3) by (auto intro: order_trans)
  qed (use xy stricter_kind(1) in auto)
qed simp

section \<open>Properties\<close>

text \<open>The numbers of the x86-64 headers, for the examples.\<close>

fun nr_x86_64 :: nr_table where
  "nr_x86_64 NR_socketcall = None" | "nr_x86_64 NR_brk = Some 12" | "nr_x86_64 NR_mmap = Some 9"
| "nr_x86_64 NR_munmap = Some 11" | "nr_x86_64 NR_mprotect = Some 10" | "nr_x86_64 NR_mremap = Some 25"
| "nr_x86_64 NR_madvise = Some 28" | "nr_x86_64 NR_close = Some 3" | "nr_x86_64 NR_recvmsg = Some 47"
| "nr_x86_64 NR_futex = Some 202" | "nr_x86_64 NR_futex_waitv = Some 449" | "nr_x86_64 NR_set_tid_address = Some 218"
| "nr_x86_64 NR_set_robust_list = Some 273" | "nr_x86_64 NR_get_robust_list = Some 274" | "nr_x86_64 NR_rseq = Some 334"
| "nr_x86_64 NR_rt_sigaction = Some 13" | "nr_x86_64 NR_rt_sigprocmask = Some 14" | "nr_x86_64 NR_rt_sigreturn = Some 15"
| "nr_x86_64 NR_sigaltstack = Some 131" | "nr_x86_64 NR_exit = Some 60" | "nr_x86_64 NR_exit_group = Some 231"
| "nr_x86_64 NR_arch_prctl = Some 158" | "nr_x86_64 NR_prctl = Some 157" | "nr_x86_64 NR_getpid = Some 39"
| "nr_x86_64 NR_gettid = Some 186" | "nr_x86_64 NR_getuid = Some 102" | "nr_x86_64 NR_geteuid = Some 107"
| "nr_x86_64 NR_getgid = Some 104" | "nr_x86_64 NR_getegid = Some 108" | "nr_x86_64 NR_getrandom = Some 318"
| "nr_x86_64 NR_clock_gettime = Some 228" | "nr_x86_64 NR_clock_getres = Some 229" | "nr_x86_64 NR_gettimeofday = Some 96"
| "nr_x86_64 NR_nanosleep = Some 35" | "nr_x86_64 NR_clock_nanosleep = Some 230" | "nr_x86_64 NR_sched_yield = Some 24"
| "nr_x86_64 NR_sched_getaffinity = Some 204" | "nr_x86_64 NR_clone = Some 56" | "nr_x86_64 NR_clone3 = Some 435"
| "nr_x86_64 NR_tgkill = Some 234" | "nr_x86_64 NR_membarrier = Some 324" | "nr_x86_64 (NR_other k) = Some (word_of_nat k)"

abbreviation AUDIT_ARCH_X86_64 :: u32 where "AUDIT_ARCH_X86_64 \<equiv> 0xC000003E"

text \<open>C32: what the main filter decides. \<open>pbox_install_seccomp\<close> installs a program that never
  runs off its end and whose decision on every system call is: kill the process if the call is not of
  the native architecture, allow it if it is on the allow list (\<open>prctl\<close> only with \<open>PR_SET_SECCOMP\<close>,
  \<open>socketcall\<close> only with \<open>SYS_RECVMSG\<close>), and let it fail with \<open>ENOSYS\<close> otherwise, without killing anything.
  Filters installed before keep their say where they are stricter: a call they allow is decided by
  this filter, a call for which they kill still kills, and of two errors \<open>ENOSYS\<close> is returned.\<close>

theorem seccomp_main_policy:
  "fst (pbox_install_seccomp nr audit_arch True True fs) = 0 \<and>
   seccomp_run d (snd (pbox_install_seccomp nr audit_arch True True fs)) =
     map_option (\<lambda>older.
       if sd_arch d \<noteq> audit_arch then KILL_PROCESS
       else if syscall_allowed nr d then older
       else if older = KILL_PROCESS then KILL_PROCESS else ERRNO ENOSYS) (seccomp_run d fs)"
proof -
  have "stricter (ERRNO n) a = (if a = KILL_PROCESS then KILL_PROCESS else ERRNO n)" for n a by (cases a) simp_all
  then show ?thesis by (simp add: pbox_install_seccomp_def seccomp_filter_run split: option.splits)
qed

text \<open>C33: a worker's policy is the main policy without thread creation. On a thread that has installed both
  filters a call is allowed exactly when the main filter allows it and it is neither \<open>clone\<close> nor
  \<open>clone3\<close>; every other call, these two and \<open>open\<close> among them, returns \<open>ENOSYS\<close> and leaves the sandbox
  running; only foreign-architecture calls kill the process. (The example \<open>blocked\<close> expects
  \<open>open\<close> to kill it.)\<close>

theorem seccomp_worker_policy:
  "seccomp_run d (snd (pbox_install_seccomp_worker nr True (snd (pbox_install_seccomp nr audit_arch True True [])))) =
     Some (if sd_arch d \<noteq> audit_arch then KILL_PROCESS
           else if syscall_allowed nr d \<and> nr NR_clone \<noteq> Some (sd_nr d) \<and> nr NR_clone3 \<noteq> Some (sd_nr d)
           then ALLOW else ERRNO ENOSYS)"
  by (simp add: pbox_install_seccomp_worker_def pbox_install_seccomp_def seccomp_filter_run seccomp_worker_run)

text \<open>The call of the example \<open>blocked\<close> on the thread that serves it: \<open>openat\<close>, to which the C library's \<open>open\<close>
  comes down, fails with \<open>ENOSYS\<close>.\<close>

lemma blocked_example_survives:
  "seccomp_run \<lparr>sd_nr = 257, sd_arch = AUDIT_ARCH_X86_64, sd_args = xs\<rparr>
     [seccomp_worker_filter nr_x86_64, seccomp_filter nr_x86_64 AUDIT_ARCH_X86_64] = Some (ERRNO ENOSYS)"
  by (simp add: seccomp_filter_run seccomp_worker_run syscall_allowed_def allow_1_def allow_2_def allow_3_def)

text \<open>C34: the filters cannot be loosened from inside. Although sandboxed code may call
  \<open>prctl(PR_SET_SECCOMP)\<close>, no stack of filters that contains the main one allows a call the main filter
  does not allow, whatever programs were stacked on it.\<close>

theorem seccomp_cannot_be_loosened:
  assumes "seccomp_filter nr audit_arch \<in> set fs" "sd_arch d \<noteq> audit_arch \<or> \<not> syscall_allowed nr d"
  shows "seccomp_run d fs \<noteq> Some ALLOW"
proof
  assume "seccomp_run d fs = Some ALLOW"
  from seccomp_run_le [OF assms(1) this] assms(2) show False
    by (auto simp: seccomp_filter_run split: if_splits)
qed

theorem seccomp_cannot_be_loosened_witness:
  "seccomp_run \<lparr>sd_nr = 59, sd_arch = AUDIT_ARCH_X86_64, sd_args = replicate 6 0\<rparr>
     [[Return ALLOW], seccomp_filter nr_x86_64 AUDIT_ARCH_X86_64] \<noteq> Some ALLOW"
proof -
  let ?d = "\<lparr>sd_nr = 59, sd_arch = AUDIT_ARCH_X86_64, sd_args = replicate 6 0\<rparr>"
  have "\<not> syscall_allowed nr_x86_64 ?d"
    by (simp add: syscall_allowed_def allow_1_def allow_2_def allow_3_def)
  then show ?thesis
    using seccomp_cannot_be_loosened [of nr_x86_64 AUDIT_ARCH_X86_64 "[[Return ALLOW], seccomp_filter nr_x86_64 AUDIT_ARCH_X86_64]" ?d]
    by simp
qed

text \<open>the filters leave the sandbox able to run. Every system call the sandbox program itself makes
  after the main filter is in place passes it: waiting and waking, receiving a descriptor, mapping and
  unmapping a channel, closing its descriptor, starting a worker, installing the worker's filter; on a
  worker all of these but thread creation.\<close>

theorem seccomp_own_calls_allowed:
  assumes "s \<in> {NR_futex, NR_recvmsg, NR_mmap, NR_munmap, NR_mprotect, NR_close, NR_exit, NR_exit_group, NR_clone, NR_clone3}
      \<or> s = NR_prctl \<and> low_word (sd_args d ! 0) = PR_SET_SECCOMP"
    and "nr s = Some (sd_nr d)" "sd_arch d = audit_arch"
  shows "seccomp_run d [seccomp_filter nr audit_arch] = Some ALLOW \<and>
    (nr NR_clone \<noteq> Some (sd_nr d) \<and> nr NR_clone3 \<noteq> Some (sd_nr d) \<longrightarrow>
       seccomp_run d [seccomp_worker_filter nr, seccomp_filter nr audit_arch] = Some ALLOW)"
proof -
  have "syscall_allowed nr d"
    using assms(1,2)
    by (elim disjE conjE insertE emptyE; hypsubst; simp add: syscall_allowed_def allow_1_def allow_2_def allow_3_def)
  with assms(3) show ?thesis by (simp add: seccomp_filter_run seccomp_worker_run)
qed

theorem seccomp_own_calls_allowed_witness:
  "seccomp_run \<lparr>sd_nr = 157, sd_arch = AUDIT_ARCH_X86_64, sd_args = [22, 2, 0, 0, 0, 0]\<rparr>
     [seccomp_filter nr_x86_64 AUDIT_ARCH_X86_64] = Some ALLOW"
  using seccomp_own_calls_allowed [of NR_prctl "\<lparr>sd_nr = 157, sd_arch = AUDIT_ARCH_X86_64, sd_args = [22, 2, 0, 0, 0, 0]\<rparr>"
      nr_x86_64 AUDIT_ARCH_X86_64] by (simp add: low_word_def)

text \<open>the filters look at the arguments of \<open>prctl\<close> and \<open>socketcall\<close> only. In particular \<open>tgkill\<close> is allowed for
  every target, so sandboxed code may signal any process of the same user, the host included.\<close>

theorem seccomp_tgkill_any_target:
  assumes "nr NR_tgkill = Some (sd_nr d)" "sd_arch d = audit_arch"
    and "nr NR_clone \<noteq> Some (sd_nr d)" "nr NR_clone3 \<noteq> Some (sd_nr d)"
  shows "seccomp_run (d\<lparr>sd_args := xs\<rparr>) [seccomp_worker_filter nr, seccomp_filter nr audit_arch] = Some ALLOW"
proof -
  have "syscall_allowed nr (d\<lparr>sd_args := xs\<rparr>)" using assms(1) by (auto simp: syscall_allowed_def allow_3_def)
  then show ?thesis using assms(2-4) by (simp add: seccomp_filter_run seccomp_worker_run)
qed

theorem seccomp_tgkill_any_target_witness:
  "seccomp_run \<lparr>sd_nr = 234, sd_arch = AUDIT_ARCH_X86_64, sd_args = [1000, 1000, 9, 0, 0, 0]\<rparr>
     [seccomp_worker_filter nr_x86_64, seccomp_filter nr_x86_64 AUDIT_ARCH_X86_64] = Some ALLOW"
  using seccomp_tgkill_any_target [of nr_x86_64 "\<lparr>sd_nr = 234, sd_arch = AUDIT_ARCH_X86_64, sd_args = []\<rparr>"
      AUDIT_ARCH_X86_64 "[1000, 1000, 9, 0, 0, 0]"] by simp

end
