(* ===== verification/Memory.thy ===== *)
theory Memory
  imports Calls ProcMaps
begin

text \<open>
  The memory operations of the host library (\<open>src/pbox/pbox.c\<close>): mapping memory in the sandbox
  (\<open>pbox_mmap\<close>, \<open>pbox_munmap\<close>), identity mappings (the same pages at the same address on both
  sides), the sandbox's heap, the bump arena over an identity mapping, and the two copy loops
  through the channel's \<open>mem_storage\<close>. Pointers and sizes are \<open>u64\<close>, an \<open>int\<close> is an \<open>int\<close> in range.
  \<open>junk\<close> is the content of the uninitialised local \<open>result\<close> of these functions.
\<close>

section \<open>Mapping memory in the sandbox\<close>

abbreviation MAP_FAILED :: u64 where "MAP_FAILED \<equiv> - 1"

text \<open>A call of a cached symbol that returns a pointer into an uninitialised local.\<close>

definition call_for_pointer ::
  "'m sandbox_env \<Rightarrow> kernel \<Rightarrow> byte list \<Rightarrow> u64 \<Rightarrow> PBoxType list \<Rightarrow> byte list list \<Rightarrow> ('m, 'h) world \<Rightarrow>
     (u64 \<times> ('m, 'h) world) outcome" where
  "call_for_pointer e k junk f ts vs w =
     and_then (pbox_call e k f PBOX_TYPE_POINTER (length ts) ts vs (Some junk) w)
       (\<lambda>(r, w1). Returns (of_bytes (the r), w1))"

abbreviation mmap_types :: "PBoxType list" where
  "mmap_types \<equiv> [PBOX_TYPE_POINTER, PBOX_TYPE_UINT64, PBOX_TYPE_SINT32, PBOX_TYPE_SINT32, PBOX_TYPE_SINT32, PBOX_TYPE_SINT64]"

definition mmap_args :: "u64 \<Rightarrow> u64 \<Rightarrow> int \<Rightarrow> int \<Rightarrow> int \<Rightarrow> int \<Rightarrow> byte list list" where
  "mmap_args addr len prot flags fd off =
     [to_bytes addr, to_bytes len, int_object prot, int_object flags, int_object fd, to_bytes (word_of_int off)]"

definition pbox_mmap_box_fd ::
  "'m sandbox_env \<Rightarrow> kernel \<Rightarrow> byte list \<Rightarrow> u64 \<Rightarrow> u64 \<Rightarrow> int \<Rightarrow> int \<Rightarrow> int \<Rightarrow> int \<Rightarrow> ('m, 'h) world \<Rightarrow>
     (u64 \<times> ('m, 'h) world) outcome" where
  "pbox_mmap_box_fd e k junk addr len prot flags sfd off w =
     (if b_sym_mmap w = 0 then Returns (MAP_FAILED, w)
      else call_for_pointer e k junk (b_sym_mmap w) mmap_types (mmap_args addr len prot flags sfd off) w)"

definition pbox_mmap ::
  "'m sandbox_env \<Rightarrow> kernel \<Rightarrow> byte list \<Rightarrow> u64 \<Rightarrow> u64 \<Rightarrow> int \<Rightarrow> int \<Rightarrow> int \<Rightarrow> int \<Rightarrow> ('m, 'h) world \<Rightarrow>
     (u64 \<times> ('m, 'h) world) outcome" where
  "pbox_mmap e k junk addr len prot flags fd off w =
     and_then (pbox_send_fd e k fd w) (\<lambda>(sfd, w1).
       if fd \<ge> 0 \<and> sfd < 0 then Returns (MAP_FAILED, w1)
       else pbox_mmap_box_fd e k junk addr len prot flags sfd off w1)"

definition pbox_munmap ::
  "'m sandbox_env \<Rightarrow> kernel \<Rightarrow> byte list \<Rightarrow> u64 \<Rightarrow> u64 \<Rightarrow> ('m, 'h) world \<Rightarrow> (int \<times> ('m, 'h) world) outcome" where
  "pbox_munmap e k junk addr len w =
     (if b_sym_munmap w = 0 then Returns (- 1, w)
      else
        and_then (pbox_call e k (b_sym_munmap w) PBOX_TYPE_SINT32 2 [PBOX_TYPE_POINTER, PBOX_TYPE_UINT64]
            [to_bytes addr, to_bytes len] (Some junk) w)
          (\<lambda>(r, w1). Returns (c_int (the r), w1)))"

section \<open>The sandbox's heap\<close>

definition pbox_malloc :: "'m sandbox_env \<Rightarrow> kernel \<Rightarrow> byte list \<Rightarrow> u64 \<Rightarrow> ('m, 'h) world \<Rightarrow> (u64 \<times> ('m, 'h) world) outcome" where
  "pbox_malloc e k junk sz w =
     (if b_sym_malloc w = 0 then Returns (0, w)
      else call_for_pointer e k junk (b_sym_malloc w) [PBOX_TYPE_UINT64] [to_bytes sz] w)"

definition pbox_calloc ::
  "'m sandbox_env \<Rightarrow> kernel \<Rightarrow> byte list \<Rightarrow> u64 \<Rightarrow> u64 \<Rightarrow> ('m, 'h) world \<Rightarrow> (u64 \<times> ('m, 'h) world) outcome" where
  "pbox_calloc e k junk nmemb sz w =
     (if b_sym_calloc w = 0 then Returns (0, w)
      else call_for_pointer e k junk (b_sym_calloc w) [PBOX_TYPE_UINT64, PBOX_TYPE_UINT64] [to_bytes nmemb, to_bytes sz] w)"

definition pbox_realloc ::
  "'m sandbox_env \<Rightarrow> kernel \<Rightarrow> byte list \<Rightarrow> u64 \<Rightarrow> u64 \<Rightarrow> ('m, 'h) world \<Rightarrow> (u64 \<times> ('m, 'h) world) outcome" where
  "pbox_realloc e k junk p sz w =
     (if b_sym_realloc w = 0 then Returns (0, w)
      else call_for_pointer e k junk (b_sym_realloc w) [PBOX_TYPE_POINTER, PBOX_TYPE_UINT64] [to_bytes p, to_bytes sz] w)"

definition pbox_free :: "'m sandbox_env \<Rightarrow> kernel \<Rightarrow> u64 \<Rightarrow> ('m, 'h) world \<Rightarrow> ('m, 'h) world outcome" where
  "pbox_free e k p w =
     (if b_sym_free w = 0 then Returns w
      else
        and_then (pbox_call e k (b_sym_free w) PBOX_TYPE_VOID 1 [PBOX_TYPE_POINTER] [to_bytes p] None w)
          (\<lambda>(r, w1). Returns w1))"

section \<open>Identity mappings\<close>

text \<open>
  \<open>pbox_mmap_identity\<close>. The memory object gets the next number; \<open>unmap_in_box\<close> is the cleanup after
  a sandbox mapping at a wrong address. The answers of \<open>mmap\<close> and \<open>munmap\<close> in the sandbox are
  whatever the sandbox says.
\<close>

definition unmap_in_box :: "'m sandbox_env \<Rightarrow> kernel \<Rightarrow> byte list \<Rightarrow> u64 \<Rightarrow> u64 \<Rightarrow> ('m, 'h) world \<Rightarrow> ('m, 'h) world outcome" where
  "unmap_in_box e k junk addr len w =
     (if addr \<noteq> MAP_FAILED then and_then (pbox_munmap e k junk addr len w) (\<lambda>(r, w1). Returns w1) else Returns w)"

text \<open>The error returns: the host's mapping and the descriptor of the memory go.\<close>

definition drop_region :: "u64 \<Rightarrow> u64 \<Rightarrow> nat \<Rightarrow> ('m, 'h) world \<Rightarrow> (u64 \<times> ('m, 'h) world) outcome" where
  "drop_region addr len memfd w =
     and_then (release (RegionMap addr len) w) (\<lambda>w1. Returns (0, close_fd memfd w1))"

abbreviation MAP_SHARED_FIXED_NOREPLACE :: int where "MAP_SHARED_FIXED_NOREPLACE \<equiv> 0x100001"

text \<open>The second attempt: a range that is free in both processes.\<close>

definition map_common ::
  "'m sandbox_env \<Rightarrow> kernel \<Rightarrow> byte list \<Rightarrow> u64 \<Rightarrow> int \<Rightarrow> nat \<Rightarrow> int \<Rightarrow> ('m, 'h) world \<Rightarrow> (u64 \<times> ('m, 'h) world) outcome" where
  "map_common e k junk len prot memfd sfd w =
     (case pbox_find_common_free_address (parse_proc_maps (k_heap k False) (k_maps k False))
             (parse_proc_maps (k_heap k True) (k_maps k True)) len of
        None \<Rightarrow> Returns (0, close_fd memfd w)
      | Some common_addr \<Rightarrow>
          if k_fixed k common_addr \<noteq> common_addr then Returns (0, close_fd memfd w)
          else
            and_then (call_for_pointer e k junk (b_sym_mmap w) mmap_types
                (mmap_args common_addr len prot MAP_SHARED_FIXED_NOREPLACE sfd 0)
                (acquire (RegionMap common_addr len) w))
              (\<lambda>(sandbox_addr, w1).
                 if sandbox_addr \<noteq> common_addr then
                   and_then (unmap_in_box e k junk sandbox_addr len w1) (drop_region common_addr len memfd)
                 else Returns (common_addr, close_fd memfd w1)))"

text \<open>The first attempt, once the thread has its channel: the host's mapping is at \<open>k_addr k\<close>.\<close>

definition map_on_channel ::
  "'m sandbox_env \<Rightarrow> kernel \<Rightarrow> byte list \<Rightarrow> u64 \<Rightarrow> int \<Rightarrow> nat \<Rightarrow> nat \<Rightarrow> ('m, 'h) world \<Rightarrow> (u64 \<times> ('m, 'h) world) outcome" where
  "map_on_channel e k junk len prot memfd i w =
     and_then (pbox_send_fd_on_channel e k i memfd w)
     (\<lambda>(sfd, w1).
        if sfd < 0 then drop_region (k_addr k) len memfd w1
        else
          and_then (call_for_pointer e k junk (b_sym_mmap w1) mmap_types
              (mmap_args (k_addr k) len prot MAP_SHARED_FIXED_NOREPLACE sfd 0) w1)
          (\<lambda>(sandbox_addr, w2).
             if sandbox_addr = k_addr k then Returns (k_addr k, close_fd memfd w2)
             else
               and_then (unmap_in_box e k junk sandbox_addr len w2)
               (\<lambda>w3. and_then (release (RegionMap (k_addr k) len) w3)
                      (map_common e k (to_bytes sandbox_addr) len prot memfd sfd))))"

definition pbox_mmap_identity ::
  "'m sandbox_env \<Rightarrow> kernel \<Rightarrow> byte list \<Rightarrow> u64 \<Rightarrow> int \<Rightarrow> ('m, 'h) world \<Rightarrow> (u64 \<times> ('m, 'h) world) outcome" where
  "pbox_mmap_identity e k junk len prot w =
     (if b_sym_mmap w = 0 \<or> \<not> k_ok k At_memfd_region then Returns (0, w)
      else
        let memfd = k_fd k (h_fds w);
            w1 = w\<lparr>h_fds := (h_fds w)(memfd \<mapsto> SharedMem (h_next w)), h_next := h_next w + 1\<rparr>
        in
        if \<not> k_ok k At_ftruncate_region \<or> \<not> k_ok k At_mmap_region then Returns (0, close_fd memfd w1)
        else
          and_then (get_or_create_channel e k (acquire (RegionMap (k_addr k) len) w1))
          (\<lambda>(c, w2). case c of
             None \<Rightarrow> drop_region (k_addr k) len memfd w2
           | Some i \<Rightarrow> map_on_channel e k junk len prot memfd i w2))"

text \<open>\<open>pbox_munmap_identity\<close>, of a range that the host has mapped (\<open>munmap\<close> of such a range succeeds).\<close>

definition pbox_munmap_identity ::
  "'m sandbox_env \<Rightarrow> kernel \<Rightarrow> byte list \<Rightarrow> u64 \<Rightarrow> u64 \<Rightarrow> ('m, 'h) world \<Rightarrow> (int \<times> ('m, 'h) world) outcome" where
  "pbox_munmap_identity e k junk addr len w =
     and_then (pbox_munmap e k junk addr len w)
       (\<lambda>(sandbox_result, w1). and_then (release (RegionMap addr len) w1)
          (\<lambda>w2. Returns (if sandbox_result = 0 then 0 else - 1, w2)))"

section \<open>The arena of a thread\<close>

definition get_or_create_thread_channel ::
  "'m sandbox_env \<Rightarrow> kernel \<Rightarrow> ('m, 'h) world \<Rightarrow> (nat option \<times> ('m, 'h) world) outcome" where
  "get_or_create_thread_channel e k w =
     (case h_tls w of
        Some i \<Rightarrow> Returns (Some i, w)
      | None \<Rightarrow>
          and_then (create_channel_locked e k w)
            (\<lambda>(c, w1). Returns (c, if c = None then w1 else w1\<lparr>h_tls := c\<rparr>)))"

text \<open>The region is mapped when the thread first allocates.\<close>

definition idmem_init ::
  "'m sandbox_env \<Rightarrow> kernel \<Rightarrow> byte list \<Rightarrow> nat \<Rightarrow> ('m, 'h) world \<Rightarrow> (bool \<times> ('m, 'h) world) outcome" where
  "idmem_init e k junk i w =
     (if idmem_base (b_tch w i) \<noteq> 0 then Returns (True, w)
      else
        and_then (pbox_mmap_identity e k junk (word_of_nat PBOX_IDMEM_DEFAULT_SIZE) 3 w)
          (\<lambda>(a, w1).
             if a = 0 then Returns (False, w1\<lparr>b_tch := (b_tch w1)(i := (b_tch w1 i)\<lparr>idmem_base := 0\<rparr>)\<rparr>)
             else Returns (True, w1\<lparr>b_tch := (b_tch w1)(i := (b_tch w1 i)
               \<lparr>idmem_base := a, idmem_size := word_of_nat PBOX_IDMEM_DEFAULT_SIZE, idmem_offset := 0\<rparr>)\<rparr>)))"

definition pbox_idmem_alloc ::
  "'m sandbox_env \<Rightarrow> kernel \<Rightarrow> byte list \<Rightarrow> u64 \<Rightarrow> ('m, 'h) world \<Rightarrow> (u64 \<times> ('m, 'h) world) outcome" where
  "pbox_idmem_alloc e k junk sz w =
     and_then (get_or_create_thread_channel e k w)
       (\<lambda>(c, w1). case c of
          None \<Rightarrow> Returns (0, w1)
        | Some i \<Rightarrow>
            and_then (idmem_init e k junk i w1)
              (\<lambda>(ok, w2).
                 if \<not> ok then Returns (0, w2)
                 else let (p, t) = idmem_take sz (b_tch w2 i) in Returns (p, w2\<lparr>b_tch := (b_tch w2)(i := t)\<rparr>)))"

definition pbox_idmem_reset :: "('m, 'h) world \<Rightarrow> ('m, 'h) world" where
  "pbox_idmem_reset w =
     (case h_tls w of None \<Rightarrow> w | Some i \<Rightarrow> w\<lparr>b_tch := (b_tch w)(i := idmem_rewind (b_tch w i))\<rparr>)"

section \<open>Copying\<close>

text \<open>\<open>offsetof(struct PBoxChannel, mem_storage)\<close> added to the channel's address in the sandbox.\<close>

definition sandbox_mem_storage :: "PBoxChannel \<Rightarrow> u64" where
  "sandbox_mem_storage c = sandbox_channel_addr c + 1556"

definition call_memcpy :: "'m sandbox_env \<Rightarrow> kernel \<Rightarrow> u64 \<Rightarrow> u64 \<Rightarrow> nat \<Rightarrow> ('m, 'h) world \<Rightarrow> ('m, 'h) world outcome" where
  "call_memcpy e k d s n w =
     and_then (pbox_call e k (b_sym_memcpy w) PBOX_TYPE_POINTER 3 [PBOX_TYPE_POINTER, PBOX_TYPE_POINTER, PBOX_TYPE_UINT64]
         [to_bytes d, to_bytes s, to_bytes (word_of_nat n)] None w)
       (\<lambda>(r, w1). Returns w1)"

function copy_to_loop :: "'m sandbox_env \<Rightarrow> kernel \<Rightarrow> nat \<Rightarrow> u64 \<Rightarrow> u64 \<Rightarrow> byte list \<Rightarrow> ('m, 'h) world \<Rightarrow> ('m, 'h) world outcome" where
  "copy_to_loop e k i storage d s w =
     (if s = [] then Returns w
      else
        let chunk = min (length s) PBOX_MEM_STORAGE; c = sb_chan w i in
        and_then (checked (memcpy_to (mem_storage c) 0 s chunk))
        (\<lambda>m. and_then (call_memcpy e k d storage chunk (put_chan i (c\<lparr>mem_storage := m\<rparr>) w))
          (copy_to_loop e k i storage (d + word_of_nat chunk) (drop chunk s))))"
  by pat_completeness auto
termination
  by (relation "measure (\<lambda>(e, k, i, storage, d, s, w). length s)") auto

declare copy_to_loop.simps [simp del]

text \<open>\<open>s\<close> is the \<open>n\<close> bytes at \<open>src\<close>.\<close>

definition pbox_copy_to :: "'m sandbox_env \<Rightarrow> kernel \<Rightarrow> u64 \<Rightarrow> byte list \<Rightarrow> ('m, 'h) world \<Rightarrow> ('m, 'h) world outcome" where
  "pbox_copy_to e k dest s w =
     (if b_sym_memcpy w = 0 then Returns w
      else
        and_then (get_or_create_channel e k w)
        (\<lambda>(c, w1). case c of
           None \<Rightarrow> Returns w1
         | Some i \<Rightarrow>
             if ch_state (sb_chan w1 i) = PBOX_STATE_CALLBACK then Aborts
             else copy_to_loop e k i (sandbox_mem_storage (sb_chan w1 i)) dest s w1))"

text \<open>The bytes the loop stores at \<open>dest\<close>, \<open>n\<close> of them.\<close>

function copy_from_loop ::
  "'m sandbox_env \<Rightarrow> kernel \<Rightarrow> nat \<Rightarrow> u64 \<Rightarrow> u64 \<Rightarrow> nat \<Rightarrow> ('m, 'h) world \<Rightarrow> (byte list \<times> ('m, 'h) world) outcome" where
  "copy_from_loop e k i storage s n w =
     (if n = 0 then Returns ([], w)
      else
        let chunk = min n PBOX_MEM_STORAGE in
        and_then (call_memcpy e k storage s chunk w)
        (\<lambda>w1. and_then (copy_from_loop e k i storage (s + word_of_nat chunk) (n - chunk) w1)
          (\<lambda>(bs, w2). Returns (take chunk (mem_storage (sb_chan w1 i)) @ bs, w2))))"
  by pat_completeness auto
termination
  by (relation "measure (\<lambda>(e, k, i, storage, s, n, w). n)") auto

declare copy_from_loop.simps [simp del]

text \<open>\<open>dest\<close> is the \<open>n\<close> bytes of the destination before the call; the result is what they are after it.\<close>

definition pbox_copy_from :: "'m sandbox_env \<Rightarrow> kernel \<Rightarrow> byte list \<Rightarrow> u64 \<Rightarrow> ('m, 'h) world \<Rightarrow> (byte list \<times> ('m, 'h) world) outcome" where
  "pbox_copy_from e k dest src w =
     (if b_sym_memcpy w = 0 then Returns (dest, w)
      else
        and_then (get_or_create_channel e k w)
        (\<lambda>(c, w1). case c of
           None \<Rightarrow> Returns (dest, w1)
         | Some i \<Rightarrow>
             if ch_state (sb_chan w1 i) = PBOX_STATE_CALLBACK then Aborts
             else copy_from_loop e k i (sandbox_mem_storage (sb_chan w1 i)) src (length dest) w1))"

end
