(* ===== verification/Copying.thy ===== *)
theory Copying
  imports Memory
begin

text \<open>
  The copy loops are a \<open>memcpy\<close>: under the documented behaviour of the sandbox's \<open>memcpy\<close> (a hypothesis
  on the library, which is not part of the repository), \<open>pbox_copy_to\<close> writes the given bytes to the
  sandbox's memory and nothing else, \<open>pbox_copy_from\<close> reads them, for every length and every
  number of 4096-byte chunks.
\<close>

section \<open>A byte-addressed sandbox\<close>

type_synonym memory = "u64 \<Rightarrow> byte"

definition in_range :: "u64 \<Rightarrow> nat \<Rightarrow> u64 \<Rightarrow> bool" where
  "in_range d n a \<longleftrightarrow> unat (a - d) < n"

definition write_bytes :: "memory \<Rightarrow> u64 \<Rightarrow> byte list \<Rightarrow> memory" where
  "write_bytes m d bs = (\<lambda>a. if in_range d (length bs) a then bs ! unat (a - d) else m a)"

definition read_bytes :: "memory \<Rightarrow> u64 \<Rightarrow> nat \<Rightarrow> byte list" where
  "read_bytes m s n = map (\<lambda>j. m (s + word_of_nat j)) [0..<n]"

lemma length_read_bytes [simp]: "length (read_bytes m s n) = n"
  by (simp add: read_bytes_def)

lemma in_range_add:
  assumes "in_range (d + word_of_nat c) n a" "c + n < 2 ^ 64"
  shows "in_range d (c + n) a" "unat (a - d) = c + unat (a - (d + word_of_nat c))"
proof -
  have c: "unat (word_of_nat c :: u64) = c" using assms(2) by (simp add: unat_of_nat)
  have "a - d = word_of_nat c + (a - (d + word_of_nat c))" by simp
  then have "unat (a - d) = unat (word_of_nat c + (a - (d + word_of_nat c)))" by metis
  also have "\<dots> = c + unat (a - (d + word_of_nat c))"
    using assms c by (subst unat_add64) (simp_all add: in_range_def)
  finally show "unat (a - d) = c + unat (a - (d + word_of_nat c))" .
  then show "in_range d (c + n) a" using assms(1) by (simp add: in_range_def)
qed

lemma in_range_split:
  assumes "c + n < 2 ^ 64"
  shows "in_range d (c + n) a \<longleftrightarrow> in_range d c a \<or> in_range (d + word_of_nat c) n a"
proof
  assume l: "in_range d (c + n) a"
  show "in_range d c a \<or> in_range (d + word_of_nat c) n a"
  proof (cases "unat (a - d) < c")
    case False
    have c: "unat (word_of_nat c :: u64) = c" using assms by (simp add: unat_of_nat)
    have "unat (a - (d + word_of_nat c)) = unat (a - d - word_of_nat c)" by (simp add: algebra_simps)
    also have "\<dots> = unat (a - d) - c" using False c by (subst unat_sub) (simp_all add: word_le_nat_alt)
    finally show ?thesis using l False by (simp add: in_range_def)
  qed (simp add: in_range_def)
next
  assume "in_range d c a \<or> in_range (d + word_of_nat c) n a"
  then show "in_range d (c + n) a" using in_range_add(1) [OF _ assms] by (auto simp: in_range_def)
qed

lemma write_bytes_append:
  assumes "length xs + length ys < 2 ^ 64"
  shows "write_bytes (write_bytes m d xs) (d + word_of_nat (length xs)) ys = write_bytes m d (xs @ ys)"
proof
  fix a
  show "write_bytes (write_bytes m d xs) (d + word_of_nat (length xs)) ys a = write_bytes m d (xs @ ys) a"
  proof (cases "in_range (d + word_of_nat (length xs)) (length ys) a")
    case True
    from in_range_add [OF this assms] True show ?thesis
      by (simp add: write_bytes_def nth_append in_range_def)
  next
    case False
    then show ?thesis
      using in_range_split [OF assms, of d a] by (auto simp: write_bytes_def nth_append in_range_def)
  qed
qed

lemma read_bytes_append:
  "read_bytes m s (c + n) = read_bytes m s c @ read_bytes m (s + word_of_nat c) n"
proof (rule nth_equalityI)
  fix j
  assume "j < length (read_bytes m s (c + n))"
  then have j: "j < c + n" by simp
  show "read_bytes m s (c + n) ! j = (read_bytes m s c @ read_bytes m (s + word_of_nat c) n) ! j"
  proof (cases "j < c")
    case True
    with j show ?thesis by (simp add: read_bytes_def nth_append)
  next
    case False
    then have "word_of_nat c + word_of_nat (j - c) = (word_of_nat j :: u64)" by (simp flip: of_nat_add)
    then show ?thesis using j False by (simp add: read_bytes_def nth_append add.assoc)
  qed
qed simp

lemma read_write_bytes:
  assumes "length bs < 2 ^ 64"
  shows "read_bytes (write_bytes m d bs) d (length bs) = bs"
proof (rule nth_equalityI)
  fix j
  assume "j < length (read_bytes (write_bytes m d bs) d (length bs))"
  then have j: "j < length bs" by simp
  then have "unat (word_of_nat j :: u64) = j" using assms by (simp add: unat_of_nat)
  with j show "read_bytes (write_bytes m d bs) d (length bs) ! j = bs ! j"
    by (simp add: read_bytes_def write_bytes_def in_range_def)
qed simp

lemma read_write_other:
  assumes "unat p + n \<le> unat d" "unat d + length bs \<le> 2 ^ 64"
  shows "read_bytes (write_bytes m d bs) p n = read_bytes m p n"
proof (rule nth_equalityI)
  fix j
  assume "j < length (read_bytes (write_bytes m d bs) p n)"
  then have j: "j < n" by simp
  have "unat d < 2 ^ 64" using unsigned_less [of d, where ?'a = nat] by simp
  then have u: "unat (p + word_of_nat j) = unat p + j"
    using assms(1) j by (subst unat_add64) (simp_all add: unat_of_nat)
  have "\<not> in_range d (length bs) (p + word_of_nat j)"
  proof
    assume r: "in_range d (length bs) (p + word_of_nat j)"
    define x where "x = p + word_of_nat j - d"
    have x: "unat x < length bs" using r by (simp add: in_range_def x_def)
    have "unat (d + x) = unat d + unat x" using x assms(2) by (intro unat_add64) simp
    moreover have "d + x = p + word_of_nat j" by (simp add: x_def)
    ultimately show False using u assms(1) j by simp
  qed
  then show "read_bytes (write_bytes m d bs) p n ! j = read_bytes m p n ! j"
    using j by (simp add: read_bytes_def write_bytes_def)
qed simp

lemma read_write_above:
  assumes "unat d + length bs \<le> unat p" "unat p + n \<le> 2 ^ 64"
  shows "read_bytes (write_bytes m d bs) p n = read_bytes m p n"
proof (rule nth_equalityI)
  fix j
  assume "j < length (read_bytes (write_bytes m d bs) p n)"
  then have j: "j < n" by simp
  then have u: "unat (p + word_of_nat j) = unat p + j"
    using assms(2) by (subst unat_add64) (simp_all add: unat_of_nat)
  then have "d \<le> p + word_of_nat j" using assms(1) by (simp add: word_le_nat_alt)
  then have "unat (p + word_of_nat j - d) = unat p + j - unat d" using u by (simp add: unat_sub)
  then have "\<not> in_range d (length bs) (p + word_of_nat j)"
    using assms(1) by (simp add: in_range_def)
  then show "read_bytes (write_bytes m d bs) p n ! j = read_bytes m p n ! j"
    using j by (simp add: read_bytes_def write_bytes_def)
qed simp

lemma read_write_4: "read_bytes (write_bytes m d [a, b, c, x]) d 4 = [a, b, c, x]"
proof -
  have l: "length [a, b, c, x] = 4" by simp
  show ?thesis using read_write_bytes [of "[a, b, c, x]" m d] unfolding l by simp
qed

text \<open>What a thread sees: its channel's \<open>mem_storage\<close> at \<open>W\<close>, everything else elsewhere.\<close>

definition thread_view :: "u64 \<Rightarrow> memory proc \<Rightarrow> memory" where
  "thread_view W p = (\<lambda>a. if in_range W PBOX_MEM_STORAGE a then pr_window p ! unat (a - W) else pr_mem p a)"

definition set_view :: "u64 \<Rightarrow> memory \<Rightarrow> memory proc \<Rightarrow> memory proc" where
  "set_view W f p = p\<lparr>pr_mem := (\<lambda>a. if in_range W PBOX_MEM_STORAGE a then pr_mem p a else f a),
     pr_window := read_bytes f W PBOX_MEM_STORAGE\<rparr>"

definition memcpy_effect :: "u64 \<Rightarrow> u64 \<Rightarrow> u64 \<Rightarrow> nat \<Rightarrow> memory proc \<Rightarrow> memory proc" where
  "memcpy_effect W d s n p = set_view W (write_bytes (thread_view W p) d (read_bytes (thread_view W p) s n)) p"

text \<open>
  The documented behaviour of \<open>memcpy\<close>: on ranges that do not overlap it copies, touches nothing
  else and returns.
\<close>

definition memcpy_documented :: "memory sandbox_env \<Rightarrow> u64 \<Rightarrow> u64 \<Rightarrow> bool" where
  "memcpy_documented e f W \<longleftrightarrow>
     (\<forall>call p. func call = f \<and>
        (\<forall>a. \<not> (in_range (int_regs call ! 0) (unat (int_regs call ! 2)) a \<and> in_range (int_regs call ! 1) (unat (int_regs call ! 2)) a)) \<longrightarrow>
        (\<exists>r. e_lib e call p =
           LibReturns r (memcpy_effect W (int_regs call ! 0) (int_regs call ! 1) (unat (int_regs call ! 2)) p)))"

lemma read_bytes_window:
  assumes "length m = PBOX_MEM_STORAGE" "n \<le> PBOX_MEM_STORAGE"
  shows "read_bytes (thread_view W (p\<lparr>pr_window := m\<rparr>)) W n = take n m"
  using assms by (intro nth_equalityI) (simp_all add: read_bytes_def thread_view_def in_range_def unat_of_nat)

lemma read_bytes_outside:
  assumes "\<And>a. in_range s n a \<Longrightarrow> \<not> in_range W PBOX_MEM_STORAGE a" "n < 2 ^ 64"
  shows "read_bytes (thread_view W p) s n = read_bytes (pr_mem p) s n"
proof (rule nth_equalityI)
  fix j
  assume "j < length (read_bytes (thread_view W p) s n)"
  then have j: "j < n" by simp
  then have "in_range s n (s + word_of_nat j)" using assms(2) by (simp add: in_range_def unat_of_nat)
  from assms(1) [OF this] j show "read_bytes (thread_view W p) s n ! j = read_bytes (pr_mem p) s n ! j"
    by (simp add: read_bytes_def thread_view_def)
qed simp

text \<open>One chunk in each direction.\<close>

lemma memcpy_out:
  assumes "length m = PBOX_MEM_STORAGE" "n \<le> PBOX_MEM_STORAGE"
    and "\<And>a. in_range d n a \<Longrightarrow> \<not> in_range W PBOX_MEM_STORAGE a"
  shows "pr_mem (memcpy_effect W d W n (p\<lparr>pr_window := m\<rparr>)) = write_bytes (pr_mem p) d (take n m)"
  unfolding memcpy_effect_def read_bytes_window [OF assms(1,2)] set_view_def
  using assms by (auto simp: write_bytes_def thread_view_def fun_eq_iff)

lemma memcpy_in:
  assumes "n \<le> PBOX_MEM_STORAGE" "\<And>a. in_range s n a \<Longrightarrow> \<not> in_range W PBOX_MEM_STORAGE a"
  shows "pr_mem (memcpy_effect W W s n p) = pr_mem p"
    "take n (pr_window (memcpy_effect W W s n p)) = read_bytes (pr_mem p) s n"
proof -
  have n: "n < 2 ^ 64" using assms(1) by simp
  have sub: "in_range W PBOX_MEM_STORAGE a" if "in_range W n a" for a
    using that assms(1) by (simp add: in_range_def)
  have r: "read_bytes (thread_view W p) s n = read_bytes (pr_mem p) s n"
    using assms(2) n by (rule read_bytes_outside)
  show "pr_mem (memcpy_effect W W s n p) = pr_mem p"
    using sub by (auto simp: memcpy_effect_def set_view_def r write_bytes_def thread_view_def fun_eq_iff)
  have "take n (pr_window (memcpy_effect W W s n p)) = read_bytes (write_bytes (thread_view W p) W (read_bytes (pr_mem p) s n)) W n"
    using assms(1) by (simp add: memcpy_effect_def set_view_def r) (simp add: read_bytes_def take_map)
  also have "\<dots> = read_bytes (pr_mem p) s n"
    using read_write_bytes [of "read_bytes (pr_mem p) s n" "thread_view W p" W] n by simp
  finally show "take n (pr_window (memcpy_effect W W s n p)) = read_bytes (pr_mem p) s n" .
qed

section \<open>One call of \<open>memcpy\<close>\<close>

lemma call_frame_memcpy:
  obtains frame where
    "call_frame e f PBOX_TYPE_POINTER 3 [PBOX_TYPE_POINTER, PBOX_TYPE_POINTER, PBOX_TYPE_UINT64] [to_bytes a, to_bytes b, to_bytes c] = Some frame"
    "func frame = f" "int_regs frame ! 0 = a" "int_regs frame ! 1 = b" "int_regs frame ! 2 = c"
proof -
  have "\<exists>frame. call_frame e f PBOX_TYPE_POINTER 3 [PBOX_TYPE_POINTER, PBOX_TYPE_POINTER, PBOX_TYPE_UINT64]
      [to_bytes a, to_bytes b, to_bytes c] = Some frame \<and>
    func frame = f \<and> int_regs frame ! 0 = a \<and> int_regs frame ! 1 = b \<and> int_regs frame ! 2 = c"
    by (cases "e_arch e")
      (simp_all add: call_frame_def dyfn_prep_call_def dyfn_prep_arg_def put_reg_def zeroed_call_def
        dyfn_of_code_def numeral_2_eq_2 Let_def)
  then show thesis using that by blast
qed

text \<open>The thread of a call finds its world as before, but for the library's effect on the process.\<close>

lemma call_ready_after:
  "call_ready fn i w \<Longrightarrow> channel_wf c \<Longrightarrow> h = h_app w \<Longrightarrow> call_ready fn i (after_call i c p h w)"
  by (simp add: call_ready_def)

lemma call_ready_window:
  "call_ready fn i w \<Longrightarrow> length m = PBOX_MEM_STORAGE \<Longrightarrow> call_ready fn i (put_chan i ((sb_chan w i)\<lparr>mem_storage := m\<rparr>) w)"
  by (simp add: call_ready_def channel_wf_def)

lemma call_memcpy_result:
  fixes w :: "(memory, 'h) world"
  assumes ready: "call_ready fn i w" and doc: "memcpy_documented e (b_sym_memcpy w) W" and n: "n < 2 ^ 64"
    and disj: "\<And>a. \<not> (in_range d n a \<and> in_range s n a)"
  defines "p \<equiv> memcpy_effect W d s n ((sb_proc w)\<lparr>pr_window := mem_storage (sb_chan w i)\<rparr>)"
  obtains c turns where "channel_wf c" "ch_state c = PBOX_STATE_IDLE" "mem_storage c = pr_window p"
    "sandbox_channel_addr c = sandbox_channel_addr (sb_chan w i)"
    "\<And>k :: kernel. turns \<le> k_turns k \<Longrightarrow> call_memcpy e k d s n w = Returns (after_call i c p (h_app w) w)"
proof -
  let ?ts = "[PBOX_TYPE_POINTER, PBOX_TYPE_POINTER, PBOX_TYPE_UINT64]"
  let ?vs = "[to_bytes d, to_bytes s, to_bytes (word_of_nat n)]"
  obtain frame where frame: "call_frame e (b_sym_memcpy w) PBOX_TYPE_POINTER 3 ?ts ?vs = Some frame"
    "func frame = b_sym_memcpy w" "int_regs frame ! 0 = d" "int_regs frame ! 1 = s" "int_regs frame ! 2 = word_of_nat n"
    by (rule call_frame_memcpy)
  have un: "unat (word_of_nat n :: u64) = n" using n by (simp add: unat_of_nat)
  have "\<exists>r. e_lib e frame ((sb_proc w)\<lparr>pr_window := mem_storage (sb_chan w i)\<rparr>) = LibReturns r p"
    using doc [unfolded memcpy_documented_def, rule_format, of frame] frame(2-) un disj by (simp add: p_def)
  then obtain r where r: "e_lib e frame ((sb_proc w)\<lparr>pr_window := mem_storage (sb_chan w i)\<rparr>) = LibReturns r p" by blast
  have ok: "pbox_args_ok 3 ?ts ?vs" by (auto simp: pbox_args_ok_def less_Suc_eq numeral_3_eq_3)
  have rt: "pbox_type_wf PBOX_TYPE_POINTER" by simp
  have dir: "direct_call (e_arch e) (e_junk e) fn (b_reg w) (sb_table w i)
      (e_lib e frame ((sb_proc w)\<lparr>pr_window := mem_storage (sb_chan w i)\<rparr>)) (h_app w) = Some (r, p, h_app w)"
    by (simp add: r)
  have win: "length (pr_window p) = PBOX_MEM_STORAGE" by (simp add: p_def memcpy_effect_def set_view_def)
  obtain c turns where c: "channel_wf c" "ch_state c = PBOX_STATE_IDLE" "mem_storage c = pr_window p"
    "sandbox_channel_addr c = sandbox_channel_addr (sb_chan w i)"
    "\<And>k :: kernel. turns \<le> k_turns k \<Longrightarrow> pbox_call e k (b_sym_memcpy w) PBOX_TYPE_POINTER 3 ?ts ?vs None w =
       Returns (map_option (\<lambda>b. blit b 0 (call_result PBOX_TYPE_POINTER r)) None, after_call i c p (h_app w) w)"
    by (rule call_direct [OF ready ok rt frame(1) dir win, of None]) auto
  show thesis
    by (rule that [of c turns]) (use c in \<open>simp_all add: call_memcpy_def\<close>)
qed

section \<open>The loops\<close>

text \<open>What a copy needs: a ready thread, its window at \<open>W\<close>, and \<open>memcpy\<close>.\<close>

definition copy_ready :: "memory sandbox_env \<Rightarrow> (u64 \<Rightarrow> byte list list \<Rightarrow> 'h \<Rightarrow> byte list \<times> 'h) \<Rightarrow> nat \<Rightarrow> u64 \<Rightarrow> (memory, 'h) world \<Rightarrow> bool" where
  "copy_ready e fn i W w \<longleftrightarrow>
     call_ready fn i w \<and> b_sym_memcpy w \<noteq> 0 \<and> memcpy_documented e (b_sym_memcpy w) W \<and>
     sandbox_mem_storage (sb_chan w i) = W \<and> ch_state (sb_chan w i) = PBOX_STATE_IDLE"

definition outside_window :: "u64 \<Rightarrow> u64 \<Rightarrow> nat \<Rightarrow> bool" where
  "outside_window W d n \<longleftrightarrow> (\<forall>a. in_range d n a \<longrightarrow> \<not> in_range W PBOX_MEM_STORAGE a)"

lemma outside_window_split:
  "c + n < 2 ^ 64 \<Longrightarrow> outside_window W d (c + n) \<longleftrightarrow> outside_window W d c \<and> outside_window W (d + word_of_nat c) n"
  unfolding outside_window_def by (simp add: in_range_split) blast

lemma copy_to_loop_result:
  fixes w :: "(memory, 'h) world"
  assumes "copy_ready e fn i W w" "length s < 2 ^ 64" "outside_window W d (length s)"
  shows "\<exists>w' turns. (\<forall>k. turns \<le> k_turns k \<longrightarrow> copy_to_loop e k i W d s w = Returns w') \<and>
    copy_ready e fn i W w' \<and> pr_mem (sb_proc w') = write_bytes (pr_mem (sb_proc w)) d s"
  using assms
proof (induction "length s" arbitrary: s d w rule: less_induct)
  case less
  show ?case
  proof (cases "s = []")
    case True
    then have "pr_mem (sb_proc w) = write_bytes (pr_mem (sb_proc w)) d s"
      by (simp add: write_bytes_def in_range_def)
    then show ?thesis using less.prems(1) True
      by (intro exI [of _ w] exI [of _ 0]) (simp add: copy_to_loop.simps)
  next
    case False
    define chunk where "chunk = min (length s) PBOX_MEM_STORAGE"
    have ch: "chunk \<le> PBOX_MEM_STORAGE" "chunk \<le> length s" "0 < chunk" "chunk < 2 ^ 64"
      using False less.prems(2) by (auto simp: chunk_def)
    have ready: "call_ready fn i w" "memcpy_documented e (b_sym_memcpy w) W"
      using less.prems(1) by (simp_all add: copy_ready_def)
    define m where "m = blit (mem_storage (sb_chan w i)) 0 (take chunk s)"
    have lm: "length (mem_storage (sb_chan w i)) = PBOX_MEM_STORAGE" using ready(1) by (simp add: call_ready_def channel_wf_def)
    then have m: "length m = PBOX_MEM_STORAGE" "take chunk m = take chunk s"
      "memcpy_to (mem_storage (sb_chan w i)) 0 s chunk = Some m"
      using ch by (simp_all add: m_def memcpy_to_def) (simp add: blit_def)
    define w1 where "w1 = put_chan i ((sb_chan w i)\<lparr>mem_storage := m\<rparr>) w"
    have w1: "call_ready fn i w1" "b_sym_memcpy w1 = b_sym_memcpy w" "h_app w1 = h_app w" "sb_proc w1 = sb_proc w"
      "mem_storage (sb_chan w1 i) = m" "sandbox_channel_addr (sb_chan w1 i) = sandbox_channel_addr (sb_chan w i)"
      using call_ready_window [OF ready(1) m(1)] by (simp_all add: w1_def)
    have split: "length s = chunk + (length s - chunk)" "chunk + (length s - chunk) < 2 ^ 64" using ch less.prems(2) by simp_all
    have out: "outside_window W d chunk" "outside_window W (d + word_of_nat chunk) (length s - chunk)"
      using less.prems(3) outside_window_split [OF split(2)] split(1) by metis+
    have disj: "\<not> (in_range d chunk a \<and> in_range W chunk a)" for a
      using out(1) ch(1) by (auto simp: outside_window_def in_range_def)
    let ?p = "memcpy_effect W d W chunk ((sb_proc w1)\<lparr>pr_window := mem_storage (sb_chan w1 i)\<rparr>)"
    obtain c turns1 where c: "channel_wf c" "ch_state c = PBOX_STATE_IDLE"
      "sandbox_channel_addr c = sandbox_channel_addr (sb_chan w1 i)"
      "\<And>k :: kernel. turns1 \<le> k_turns k \<Longrightarrow> call_memcpy e k d W chunk w1 = Returns (after_call i c ?p (h_app w1) w1)"
      by (rule call_memcpy_result [OF w1(1) _ ch(4) disj]) (use ready(2) w1(2) in auto)
    define w2 where "w2 = after_call i c ?p (h_app w1) w1"
    have mem: "pr_mem ?p = write_bytes (pr_mem (sb_proc w)) d (take chunk s)"
      using memcpy_out [OF m(1) ch(1), of d W "sb_proc w"] out(1) m(2) w1(4,5) by (simp add: outside_window_def)
    have "copy_ready e fn i W w2"
      using less.prems(1) call_ready_after [OF w1(1) c(1) refl, of ?p] c(2,3) w1(2,6)
      by (simp add: copy_ready_def w2_def sandbox_mem_storage_def)
    moreover have "length (drop chunk s) < length s" "length (drop chunk s) < 2 ^ 64"
      using ch(2,3) less.prems(2) by auto
    moreover have "outside_window W (d + word_of_nat chunk) (length (drop chunk s))" using out(2) by simp
    ultimately obtain w' turns2 where ih: "\<And>k. turns2 \<le> k_turns k \<Longrightarrow> copy_to_loop e k i W (d + word_of_nat chunk) (drop chunk s) w2 = Returns w'"
      "copy_ready e fn i W w'" "pr_mem (sb_proc w') = write_bytes (pr_mem (sb_proc w2)) (d + word_of_nat chunk) (drop chunk s)"
      using less.hyps [of "drop chunk s" w2 "d + word_of_nat chunk"] by blast
    have "copy_to_loop e k i W d s w = Returns w'" if "max turns1 turns2 \<le> k_turns k" for k
      using False that c(4) [of k] ih(1) [of k] m(3)
      by (subst copy_to_loop.simps) (simp add: chunk_def [symmetric] w1_def [symmetric] w2_def [symmetric] Let_def)
    moreover have "pr_mem (sb_proc w') = write_bytes (pr_mem (sb_proc w)) d s"
    proof -
      have "pr_mem (sb_proc w') = write_bytes (write_bytes (pr_mem (sb_proc w)) d (take chunk s)) (d + word_of_nat (length (take chunk s))) (drop chunk s)"
        using ch by (simp add: ih(3) w2_def mem min_absorb2)
      also have "\<dots> = write_bytes (pr_mem (sb_proc w)) d (take chunk s @ drop chunk s)"
        using ch less.prems(2) by (intro write_bytes_append) simp
      finally show ?thesis by simp
    qed
    ultimately show ?thesis using ih(2) by blast
  qed
qed

lemma copy_from_loop_result:
  fixes w :: "(memory, 'h) world"
  assumes "copy_ready e fn i W w" "n < 2 ^ 64" "outside_window W s n"
  shows "\<exists>w' turns. (\<forall>k. turns \<le> k_turns k \<longrightarrow>
      copy_from_loop e k i W s n w = Returns (read_bytes (pr_mem (sb_proc w)) s n, w')) \<and>
    copy_ready e fn i W w' \<and> pr_mem (sb_proc w') = pr_mem (sb_proc w)"
  using assms
proof (induction n arbitrary: s w rule: less_induct)
  case (less n)
  show ?case
  proof (cases "n = 0")
    case True
    then show ?thesis using less.prems(1)
      by (intro exI [of _ w] exI [of _ 0]) (simp add: copy_from_loop.simps read_bytes_def)
  next
    case False
    define chunk where "chunk = min n PBOX_MEM_STORAGE"
    have ch: "chunk \<le> PBOX_MEM_STORAGE" "chunk \<le> n" "0 < chunk" "chunk < 2 ^ 64"
      using False less.prems(2) by (auto simp: chunk_def)
    have ready: "call_ready fn i w" "memcpy_documented e (b_sym_memcpy w) W"
      using less.prems(1) by (simp_all add: copy_ready_def)
    have split: "n = chunk + (n - chunk)" "chunk + (n - chunk) < 2 ^ 64" using ch less.prems(2) by simp_all
    have out: "outside_window W s chunk" "outside_window W (s + word_of_nat chunk) (n - chunk)"
      using less.prems(3) outside_window_split [OF split(2)] split(1) by metis+
    have disj: "\<not> (in_range W chunk a \<and> in_range s chunk a)" for a
      using out(1) ch(1) by (auto simp: outside_window_def in_range_def)
    let ?p = "memcpy_effect W W s chunk ((sb_proc w)\<lparr>pr_window := mem_storage (sb_chan w i)\<rparr>)"
    obtain c turns1 where c: "channel_wf c" "ch_state c = PBOX_STATE_IDLE" "mem_storage c = pr_window ?p"
      "sandbox_channel_addr c = sandbox_channel_addr (sb_chan w i)"
      "\<And>k :: kernel. turns1 \<le> k_turns k \<Longrightarrow> call_memcpy e k W s chunk w = Returns (after_call i c ?p (h_app w) w)"
      by (rule call_memcpy_result [OF ready ch(4) disj]) blast
    define w1 where "w1 = after_call i c ?p (h_app w) w"
    have mem: "pr_mem ?p = pr_mem (sb_proc w)" "take chunk (pr_window ?p) = read_bytes (pr_mem (sb_proc w)) s chunk"
      using memcpy_in [OF ch(1), of s W "(sb_proc w)\<lparr>pr_window := mem_storage (sb_chan w i)\<rparr>"] out(1)
      by (simp_all add: outside_window_def)
    have "copy_ready e fn i W w1"
      using less.prems(1) call_ready_after [OF ready(1) c(1) refl, of ?p] c(2,4)
      by (simp add: copy_ready_def w1_def sandbox_mem_storage_def)
    moreover have "n - chunk < n" "n - chunk < 2 ^ 64" using ch(2,3) less.prems(2) by auto
    ultimately obtain w' turns2 where ih: "\<And>k. turns2 \<le> k_turns k \<Longrightarrow> copy_from_loop e k i W (s + word_of_nat chunk) (n - chunk) w1 =
        Returns (read_bytes (pr_mem (sb_proc w1)) (s + word_of_nat chunk) (n - chunk), w')"
      "copy_ready e fn i W w'" "pr_mem (sb_proc w') = pr_mem (sb_proc w1)"
      using less.IH [of "n - chunk" w1 "s + word_of_nat chunk"] out(2) by blast
    have same: "pr_mem (sb_proc w1) = pr_mem (sb_proc w)" "mem_storage (sb_chan w1 i) = pr_window ?p"
      by (simp_all add: w1_def mem c(3))
    have all: "read_bytes (pr_mem (sb_proc w)) s n =
        read_bytes (pr_mem (sb_proc w)) s chunk @ read_bytes (pr_mem (sb_proc w)) (s + word_of_nat chunk) (n - chunk)"
      using read_bytes_append [of _ s chunk "n - chunk"] split(1) by simp
    have "copy_from_loop e k i W s n w = Returns (read_bytes (pr_mem (sb_proc w)) s n, w')" if "max turns1 turns2 \<le> k_turns k" for k
      using False that c(5) [of k] ih(1) [of k]
      by (subst copy_from_loop.simps)
        (simp add: chunk_def [symmetric] w1_def [symmetric] same mem(2) all Let_def)
    then show ?thesis using ih(2,3) same(1) by (intro exI [of _ w'] exI [of _ "max turns1 turns2"]) simp
  qed
qed

lemma pbox_copy_to_loop:
  assumes "copy_ready e fn i W w"
  shows "pbox_copy_to e k d s w = copy_to_loop e k i W d s w"
  using assms by (simp add: pbox_copy_to_def get_or_create_channel_def copy_ready_def call_ready_def)

lemma pbox_copy_from_loop:
  assumes "copy_ready e fn i W w"
  shows "pbox_copy_from e k dest src w = copy_from_loop e k i W src (length dest) w"
  using assms by (simp add: pbox_copy_from_def get_or_create_channel_def copy_ready_def call_ready_def)

text \<open>A sandbox whose library is \<open>memcpy\<close>.\<close>

definition copy_env :: "memory sandbox_env" where
  "copy_env = \<lparr>e_arch = X86_64, e_stubs = (\<lambda>_. 0),
     e_lib = (\<lambda>call p. LibReturns \<lparr>int_val = int_regs call ! 0, float_val = 0\<rparr>
       (memcpy_effect 0x7F0000002614 (int_regs call ! 0) (int_regs call ! 1) (unat (int_regs call ! 2)) p)),
     e_dlsym = (\<lambda>_. 7), e_new_fd = (\<lambda>_. - 1), e_spawn_ok = True, e_map_file = (\<lambda>f. Mapped), e_filter_ok = True, e_chan_addr = (\<lambda>_. 0x7F0000002000),
     e_junk = \<lparr>cr_int_val = 0, cr_float_val = 0, cr_ret_class = DYFN_CLASS_INT\<rparr>\<rparr>"

definition copy_world :: "(memory, nat) world" where
  "copy_world = \<lparr>
     sb_chan = sb_chan example_world, sb_worker = (\<lambda>_. AtLoop), sb_table = sb_table example_world,
     sb_proc = \<lparr>pr_mem = (\<lambda>_. 0), pr_fds = Map.empty, pr_window = []\<rparr>, sb_sock = [], sb_alive = True,
     h_fds = Map.empty, h_held = {#}, h_next = 2, h_app = 0, h_tls = Some 1,
     b_sock_fd = 0, b_control_shm_fd = 1, b_channels = [1], b_channel_cap = 4, b_tch = b_tch example_world,
     b_sym_malloc = 7, b_sym_calloc = 7, b_sym_realloc = 7, b_sym_free = 7, b_sym_mmap = 7, b_sym_munmap = 7,
     b_sym_memcpy = 7, b_sym_close = 7, b_fds = empty_fd_cache, b_reg = b_reg example_world\<rparr>"

lemma copy_world_ready: "copy_ready copy_env example_fn 1 0x7F0000002614 copy_world"
proof -
  have "call_ready example_fn 1 copy_world"
    using example_ready by (simp add: call_ready_def copy_world_def)
  moreover have "memcpy_documented copy_env (b_sym_memcpy copy_world) 0x7F0000002614"
    by (simp add: memcpy_documented_def copy_env_def)
  moreover have "sandbox_mem_storage (sb_chan copy_world 1) = 0x7F0000002614" "ch_state (sb_chan copy_world 1) = PBOX_STATE_IDLE"
    by (simp_all add: sandbox_mem_storage_def copy_world_def example_world_def zero_channel_def)
  ultimately show ?thesis by (simp add: copy_ready_def copy_world_def)
qed

lemma outside_example: "n \<le> 65536 \<Longrightarrow> outside_window 0x7F0000002614 0x10000 n"
proof -
  assume n: "n \<le> 65536"
  have "\<not> in_range 0x7F0000002614 PBOX_MEM_STORAGE a" if "in_range 0x10000 n a" for a
  proof
    assume w: "in_range 0x7F0000002614 PBOX_MEM_STORAGE a"
    define x where "x = unat (a - 0x10000)"
    define y where "y = unat (a - 0x7F0000002614)"
    have "word_of_nat x + 0x10000 = (word_of_nat y + 0x7F0000002614 :: u64)" by (simp add: x_def y_def)
    then have "(word_of_nat (x + 0x10000) :: u64) = word_of_nat (y + 0x7F0000002614)" by simp
    then have "unat (word_of_nat (x + 0x10000) :: u64) = unat (word_of_nat (y + 0x7F0000002614) :: u64)" by (rule arg_cong)
    moreover have "x < 65536" "y < 4096" using that n w by (simp_all add: in_range_def x_def y_def)
    ultimately show False by (simp only: unat_of_nat) simp
  qed
  then show ?thesis by (simp add: outside_window_def)
qed

section \<open>The copies\<close>

text \<open>C16: \<open>pbox_copy_to\<close> is a \<open>memcpy\<close> into the sandbox: for every length below \<open>2 ^ 64\<close>, the chunked
  transfer through \<open>mem_storage\<close> leaves the sandbox's memory as one direct copy of the bytes would,
  it changes nothing else there, and the thread is ready for the next operation.\<close>

theorem copy_to_is_memcpy:
  fixes w :: "(memory, 'h) world"
  assumes "copy_ready e fn i W w" "length s < 2 ^ 64" "outside_window W d (length s)"
  shows "\<exists>w' turns. (\<forall>k. turns \<le> k_turns k \<longrightarrow> pbox_copy_to e k d s w = Returns w') \<and>
    copy_ready e fn i W w' \<and> pr_mem (sb_proc w') = write_bytes (pr_mem (sb_proc w)) d s"
  using copy_to_loop_result [OF assms] pbox_copy_to_loop [OF assms(1)] by simp

theorem copy_to_is_memcpy_witness:
  "\<exists>w' turns. (\<forall>k. turns \<le> k_turns k \<longrightarrow> pbox_copy_to copy_env k 0x10000 (replicate 5000 9) copy_world = Returns w') \<and>
    pr_mem (sb_proc w') 0x11000 = 9"
proof -
  have "length (replicate 5000 9) < 2 ^ 64" "outside_window 0x7F0000002614 0x10000 (length (replicate 5000 9))"
    using outside_example [of 5000] by simp_all
  from copy_to_is_memcpy [OF copy_world_ready this] obtain w' turns where
    r: "\<forall>k. turns \<le> k_turns k \<longrightarrow> pbox_copy_to copy_env k 0x10000 (replicate 5000 9) copy_world = Returns w'"
    "pr_mem (sb_proc w') = write_bytes (pr_mem (sb_proc copy_world)) 0x10000 (replicate 5000 9)"
    by blast
  have "pr_mem (sb_proc w') 0x11000 = 9" by (simp add: r(2) write_bytes_def in_range_def)
  with r(1) show ?thesis by blast
qed

text \<open>bytes copied into the sandbox and copied back arrive unchanged, over any number of chunks, and
  copying back does not change the sandbox's memory.\<close>

theorem copy_roundtrip:
  fixes w :: "(memory, 'h) world"
  assumes "copy_ready e fn i W w" "length s < 2 ^ 64" "outside_window W d (length s)" "length dest = length s"
  shows "\<exists>w1 w2 turns. (\<forall>k. turns \<le> k_turns k \<longrightarrow> pbox_copy_to e k d s w = Returns w1 \<and>
      pbox_copy_from e k dest d w1 = Returns (s, w2)) \<and> pr_mem (sb_proc w2) = pr_mem (sb_proc w1)"
proof -
  obtain w1 t1 where 1: "\<And>k. t1 \<le> k_turns k \<Longrightarrow> pbox_copy_to e k d s w = Returns w1"
    "copy_ready e fn i W w1" "pr_mem (sb_proc w1) = write_bytes (pr_mem (sb_proc w)) d s"
    using copy_to_loop_result [OF assms(1-3)] pbox_copy_to_loop [OF assms(1)] by metis
  obtain w2 t2 where 2: "\<And>k. t2 \<le> k_turns k \<Longrightarrow> pbox_copy_from e k dest d w1 = Returns (read_bytes (pr_mem (sb_proc w1)) d (length s), w2)"
    "pr_mem (sb_proc w2) = pr_mem (sb_proc w1)"
    using copy_from_loop_result [OF 1(2) assms(2,3)] pbox_copy_from_loop [OF 1(2)] assms(4) by metis
  have "read_bytes (pr_mem (sb_proc w1)) d (length s) = s"
    using read_write_bytes [OF assms(2)] by (simp add: 1(3))
  with 1(1) 2 show ?thesis by (intro exI [of _ w1] exI [of _ w2] exI [of _ "max t1 t2"]) simp
qed

theorem copy_roundtrip_witness:
  "\<exists>w1 w2 turns. \<forall>k. turns \<le> k_turns k \<longrightarrow> pbox_copy_to copy_env k 0x10000 [1, 2, 3] copy_world = Returns w1 \<and>
     pbox_copy_from copy_env k [0, 0, 0] 0x10000 w1 = Returns ([1, 2, 3], w2)"
proof -
  have "length [1, 2, 3 :: byte] < 2 ^ 64" "outside_window 0x7F0000002614 0x10000 (length [1, 2, 3 :: byte])"
    "length [0, 0, 0 :: byte] = length [1, 2, 3 :: byte]"
    using outside_example [of "length [1, 2, 3 :: byte]"] by simp_all
  from copy_roundtrip [OF copy_world_ready this] show ?thesis by blast
qed

end
