(* ===== verification/Ownership.thy ===== *)
theory Ownership
  imports Lifecycle Memory
begin

text \<open>
  Every operation of the interface keeps the ownership invariant \<open>box_inv\<close> of theory \<open>Lifecycle\<close>:
  whatever it acquires belongs to the box, is handed to the application, or is given back before it
  returns. From creation to destruction, through any sequence of operations of any of the host's
  threads, nothing leaks and nothing is released twice.
\<close>

section \<open>What the box owns\<close>

text \<open>The fields of the world on which the invariant depends.\<close>

definition owned where
  "owned w = (h_fds w, h_held w, h_next w, h_tls w, b_sock_fd w, b_control_shm_fd w, b_channels w, b_channel_cap w, b_tch w, b_fds w)"

lemma owned_eq:
  "owned w' = owned w \<longleftrightarrow>
     h_fds w' = h_fds w \<and> h_held w' = h_held w \<and> h_next w' = h_next w \<and> h_tls w' = h_tls w \<and> b_sock_fd w' = b_sock_fd w \<and>
     b_control_shm_fd w' = b_control_shm_fd w \<and> b_channels w' = b_channels w \<and> b_channel_cap w' = b_channel_cap w \<and>
     b_tch w' = b_tch w \<and> b_fds w' = b_fds w"
  by (simp add: owned_def)

lemma owned_more: "sandbox.more w' = sandbox.more w \<Longrightarrow> owned w' = owned w"
  using host_fields [of w' w] by (simp add: owned_def)

lemma box_inv_owned: "owned w' = owned w \<Longrightarrow> box_inv other user w' = box_inv other user w"
proof -
  assume "owned w' = owned w"
  then have eq: "h_fds w' = h_fds w" "h_held w' = h_held w" "h_next w' = h_next w" "h_tls w' = h_tls w" "b_sock_fd w' = b_sock_fd w"
    "b_control_shm_fd w' = b_control_shm_fd w" "b_channels w' = b_channels w" "b_channel_cap w' = b_channel_cap w"
    "b_tch w' = b_tch w" "b_fds w' = b_fds w"
    by (simp_all add: owned_eq)
  show ?thesis
    unfolding box_inv_def box_resources_def channel_resources_def [abs_def] own_fds_def shm_fd_def [abs_def] eq ..
qed

lemma owned_exchange: "exchange e i w = Returns w' \<Longrightarrow> owned w' = owned w"
  by (rule owned_more) (rule exchange_more)

lemma owned_send_fd_on_channel: "pbox_send_fd_on_channel e k i fd w = Returns (s, w') \<Longrightarrow> owned w' = owned w"
  by (rule owned_more) (rule send_fd_on_channel_more)

lemma owned_put_chan [simp]: "owned (put_chan i c w) = owned w"
  by (simp add: owned_def)

lemma owned_set_state [simp]: "owned (pbox_set_state i s w) = owned w"
  by (simp add: pbox_set_state_def)

lemma owned_dies [simp]: "owned (sandbox_dies w) = owned w"
  by (rule owned_more) simp

lemma owned_run [simp]: "owned (sandbox_run e i w) = owned w"
  by (rule owned_more) simp

lemma owned_callback: "host_callback i w = Returns w' \<Longrightarrow> owned w' = owned w"
  by (auto simp: host_callback_def Let_def owned_eq split: option.splits if_splits)
    (simp_all add: sandbox_dies_def)

lemma owned_wait: "pbox_wait_for_response n e i w = Returns w' \<Longrightarrow> owned w' = owned w"
proof (induction n arbitrary: w)
  case 0
  then show ?case by simp
next
  case (Suc n)
  let ?s = "ch_state (sb_chan w i)"
  consider "?s = PBOX_STATE_RESPONSE \<or> ?s = PBOX_STATE_DEAD" | "?s = PBOX_STATE_CALLBACK"
    | "?s \<noteq> PBOX_STATE_RESPONSE" "?s \<noteq> PBOX_STATE_DEAD" "?s \<noteq> PBOX_STATE_CALLBACK" by blast
  then show ?case
  proof cases
    case 1
    with Suc.prems show ?thesis by auto
  next
    case 2
    with Suc.prems obtain v where "host_callback i w = Returns v"
      "pbox_wait_for_response n e i (pbox_set_state i PBOX_STATE_REQUEST v) = Returns w'" by (auto simp: Let_def)
    then show ?thesis using Suc.IH owned_callback by fastforce
  next
    case 3
    with Suc.prems have "pbox_wait_for_response n e i (sandbox_run e i w) = Returns w'"
      by (auto simp: Let_def split: if_splits)
    then show ?thesis using Suc.IH by fastforce
  qed
qed

section \<open>Calls\<close>

text \<open>The kernels of this theory hand out free descriptors, and \<open>mmap\<close> never picks address 0.\<close>

definition kernel_sane :: "kernel \<Rightarrow> bool" where
  "kernel_sane k \<longleftrightarrow> kernel_ok k \<and> k_addr k \<noteq> 0"

lemma box_inv_tls:
  "box_inv other user w \<Longrightarrow> set_option t \<subseteq> set (b_channels w) \<Longrightarrow> box_inv other user (w\<lparr>h_tls := t\<rparr>)"
  unfolding box_inv_def box_resources_def channel_resources_def [abs_def] own_fds_def shm_fd_def [abs_def]
  by (simp cong: if_cong split del: if_split)

lemma get_or_create_inv:
  assumes k: "kernel_sane k" and inv: "box_inv other user w" and res: "get_or_create_channel e k w = Returns (c, w')"
  shows "box_inv other user w'" "c = Some i \<Longrightarrow> h_tls w' = Some i"
proof -
  have "box_inv other user w' \<and> (c = Some i \<longrightarrow> h_tls w' = Some i)"
  proof (cases "h_tls w")
    case (Some j)
    with res inv show ?thesis by (auto simp: get_or_create_channel_def)
  next
    case None
    with res obtain v where v: "create_channel_locked e k w = Returns (c, v)"
      "w' = (case c of None \<Rightarrow> v | Some j \<Rightarrow> v\<lparr>h_tls := Some j\<rparr>)"
      by (auto simp: get_or_create_channel_def split: option.splits)
    have kok: "kernel_ok k" using k by (simp add: kernel_sane_def)
    have vi: "box_inv other user v" by (rule create_channel_inv [OF kok inv v(1)])
    have fin: "finite (dom (h_fds w))" using inv by (simp add: box_inv_def)
    show ?thesis
    proof (cases c)
      case None
      with v vi show ?thesis by simp
    next
      case (Some j)
      then have "j \<in> set (b_channels v)" using create_channel_host [OF kok fin v(1)] by simp
      then have "box_inv other user (v\<lparr>h_tls := Some j\<rparr>)" using box_inv_tls [OF vi, of "Some j"] by simp
      then show ?thesis using v(2) Some by simp
    qed
  qed
  then show "box_inv other user w'" "c = Some i \<Longrightarrow> h_tls w' = Some i" by simp_all
qed

text \<open>A call on a thread that has its channel leaves everything in its place.\<close>

lemma owned_call:
  assumes "pbox_call e k f rt n ts vs ret w = Returns (r, w')" "h_tls w = Some i"
  shows "owned w' = owned w"
proof -
  from assms obtain ch w2 where w2: "pbox_wait_for_response (k_turns k) e i (pbox_set_state i PBOX_STATE_REQUEST (put_chan i ch w)) = Returns w2"
    "w' = pbox_set_state i PBOX_STATE_IDLE w2"
    by (cases "pbox_pack_call f rt n ts vs (sb_chan w i)"; cases ret)
      (auto simp: pbox_call_def get_or_create_channel_def Let_def)
  from owned_wait [OF w2(1)] show ?thesis by (simp add: w2(2))
qed

lemma pbox_call_inv:
  assumes k: "kernel_sane k" and inv: "box_inv other user w" and res: "pbox_call e k f rt n ts vs ret w = Returns (r, w')"
  shows "box_inv other user w'"
proof -
  from res obtain c w1 where c: "get_or_create_channel e k w = Returns (c, w1)" by (auto simp: pbox_call_def)
  note i = get_or_create_inv [OF k inv c]
  show ?thesis
  proof (cases c)
    case None
    with res c i(1) show ?thesis by (auto simp: pbox_call_def)
  next
    case (Some j)
    with i(2) have tls: "h_tls w1 = Some j" by simp
    then have w1: "get_or_create_channel e k w1 = Returns (Some j, w1)" by (simp add: get_or_create_channel_def)
    have "pbox_call e k f rt n ts vs ret w1 = pbox_call e k f rt n ts vs ret w"
      unfolding pbox_call_def w1 c [unfolded Some] ..
    from this res have "pbox_call e k f rt n ts vs ret w1 = Returns (r, w')" by (rule trans)
    from owned_call [OF this tls] have "box_inv other user w' = box_inv other user w1" by (rule box_inv_owned)
    then show ?thesis using i(1) by simp
  qed
qed

lemma call_for_pointer_inv:
  assumes "kernel_sane k" "box_inv other user w" "call_for_pointer e k junk f ts vs w = Returns (a, w')"
  shows "box_inv other user w'"
  using assms pbox_call_inv by (fastforce simp: call_for_pointer_def)

lemma owned_call_for_pointer:
  assumes "call_for_pointer e k junk f ts vs w = Returns (a, w')" "h_tls w = Some i"
  shows "owned w' = owned w"
  using assms owned_call by (fastforce simp: call_for_pointer_def)

lemma owned_tls: "owned w' = owned w \<Longrightarrow> h_tls w' = h_tls w"
  by (simp add: owned_eq)

lemma owned_munmap:
  assumes "pbox_munmap e k junk a len w = Returns (r, w')" "h_tls w = Some i"
  shows "owned w' = owned w"
  using assms owned_call by (fastforce simp: pbox_munmap_def split: if_splits)

lemma owned_unmap_in_box:
  assumes "unmap_in_box e k junk a len w = Returns w'" "h_tls w = Some i"
  shows "owned w' = owned w"
  using assms owned_munmap by (fastforce simp: unmap_in_box_def split: if_splits)

text \<open>The operations that are one call.\<close>

lemma simple_calls_inv:
  assumes "kernel_sane k" "box_inv other user w"
  shows "pbox_mmap_box_fd e k junk a len prot flags s off w = Returns (p, w') \<Longrightarrow> box_inv other user w'"
    "pbox_munmap e k junk a len w = Returns (r, w') \<Longrightarrow> box_inv other user w'"
    "pbox_malloc e k junk n w = Returns (p, w') \<Longrightarrow> box_inv other user w'"
    "pbox_calloc e k junk m n w = Returns (p, w') \<Longrightarrow> box_inv other user w'"
    "pbox_realloc e k junk q n w = Returns (p, w') \<Longrightarrow> box_inv other user w'"
    "pbox_free e k q w = Returns w' \<Longrightarrow> box_inv other user w'"
  using assms call_for_pointer_inv [OF assms] pbox_call_inv [OF assms]
  by (fastforce simp: pbox_mmap_box_fd_def pbox_munmap_def pbox_malloc_def pbox_calloc_def pbox_realloc_def pbox_free_def
      split: if_splits)+

lemma call_memcpy_inv:
  assumes "kernel_sane k" "box_inv other user w" "call_memcpy e k d s n w = Returns w'"
  shows "box_inv other user w'"
  using assms pbox_call_inv by (fastforce simp: call_memcpy_def)

lemma box_inv_put_chan [simp]: "box_inv other user (put_chan i c w) = box_inv other user w"
  by (rule box_inv_owned) simp

lemma copy_to_loop_inv:
  assumes "kernel_sane k"
  shows "box_inv other user w \<Longrightarrow> copy_to_loop e k i W d s w = Returns w' \<Longrightarrow> box_inv other user w'"
proof (induction "length s" arbitrary: s d w rule: less_induct)
  case less
  show ?case
  proof (cases "s = []")
    case True
    with less.prems show ?thesis by (simp add: copy_to_loop.simps)
  next
    case False
    let ?n = "min (length s) PBOX_MEM_STORAGE"
    from less.prems(2) False obtain m v where
      "call_memcpy e k d W ?n (put_chan i ((sb_chan w i)\<lparr>mem_storage := m\<rparr>) w) = Returns v"
      "copy_to_loop e k i W (d + word_of_nat ?n) (drop ?n s) v = Returns w'"
      by (subst (asm) copy_to_loop.simps) (auto simp: Let_def)
    moreover have "length (drop ?n s) < length s" using False by (cases s) simp_all
    ultimately show ?thesis using less.hyps call_memcpy_inv [OF assms] less.prems(1) by (metis box_inv_put_chan)
  qed
qed

lemma copy_from_loop_inv:
  assumes "kernel_sane k"
  shows "box_inv other user w \<Longrightarrow> copy_from_loop e k i W s n w = Returns (bs, w') \<Longrightarrow> box_inv other user w'"
proof (induction n arbitrary: s w bs rule: less_induct)
  case (less n)
  show ?case
  proof (cases "n = 0")
    case True
    with less.prems show ?thesis by (simp add: copy_from_loop.simps)
  next
    case False
    let ?c = "min n PBOX_MEM_STORAGE"
    from less.prems(2) False obtain v bs' where
      "call_memcpy e k W s ?c w = Returns v"
      "copy_from_loop e k i W (s + word_of_nat ?c) (n - ?c) v = Returns (bs', w')"
      by (subst (asm) copy_from_loop.simps) (auto simp: Let_def)
    moreover have "n - ?c < n" using False by simp
    ultimately show ?thesis using less.IH call_memcpy_inv [OF assms] less.prems(1) by metis
  qed
qed

lemma pbox_copy_to_inv:
  assumes k: "kernel_sane k" and inv: "box_inv other user w" and res: "pbox_copy_to e k d s w = Returns w'"
  shows "box_inv other user w'"
proof (cases "b_sym_memcpy w = 0")
  case True
  with inv res show ?thesis by (simp add: pbox_copy_to_def)
next
  case False
  with res obtain c w1 where c: "get_or_create_channel e k w = Returns (c, w1)" by (auto simp: pbox_copy_to_def)
  from get_or_create_inv(1) [OF k inv c] res False c show ?thesis
    by (cases c) (auto simp: pbox_copy_to_def split: if_splits dest: copy_to_loop_inv [OF k])
qed

lemma pbox_copy_from_inv:
  assumes k: "kernel_sane k" and inv: "box_inv other user w" and res: "pbox_copy_from e k dest src w = Returns (bs, w')"
  shows "box_inv other user w'"
proof (cases "b_sym_memcpy w = 0")
  case True
  with inv res show ?thesis by (simp add: pbox_copy_from_def)
next
  case False
  with res obtain c w1 where c: "get_or_create_channel e k w = Returns (c, w1)" by (auto simp: pbox_copy_from_def)
  from get_or_create_inv(1) [OF k inv c] res False c show ?thesis
    by (cases c) (auto simp: pbox_copy_from_def split: if_splits dest: copy_from_loop_inv [OF k])
qed

text \<open>Symbols, descriptors, callbacks.\<close>

lemma dlsym_inv:
  assumes k: "kernel_sane k" and inv: "box_inv other user w" and res: "pbox_dlsym e k s w = Returns (a, w')"
  shows "box_inv other user w'"
proof -
  from res obtain c w1 where c: "get_or_create_channel e k w = Returns (c, w1)" by (auto simp: pbox_dlsym_def)
  from get_or_create_inv(1) [OF k inv c] res c show ?thesis
    by (cases c) (auto simp: pbox_dlsym_def dest!: dlsym_on_more box_inv_more [where other = other and user = user])
qed

lemma remember_fd_inv:
  assumes "box_inv other user w"
  shows "box_inv other user (remember_fd k fd s w)"
proof -
  let ?c = "pbox_cache_fd (k_ok k At_realloc_fds) (b_fds w) fd s"
  have cap: "fd_overflow_cap (b_fds w) \<noteq> 0 \<Longrightarrow> fd_overflow_cap ?c \<noteq> 0"
    by (simp add: pbox_cache_fd_def Let_def)
  have res: "box_resources (remember_fd k fd s w) = box_resources w +
      (if fd_overflow_cap (b_fds w) = 0 \<and> fd_overflow_cap ?c \<noteq> 0 then {#FdVec#} else {#})"
    using cap unfolding remember_fd_def Let_def box_resources_def channel_resources_def [abs_def] acquire_def
    by (simp cong: if_cong)
  have own: "own_fds (remember_fd k fd s w) = own_fds w" "h_fds (remember_fd k fd s w) = h_fds w"
    "b_channels (remember_fd k fd s w) = b_channels w" "h_next (remember_fd k fd s w) = h_next w"
    "b_channel_cap (remember_fd k fd s w) = b_channel_cap w" "h_tls (remember_fd k fd s w) = h_tls w"
    "h_held (remember_fd k fd s w) = h_held w + (if fd_overflow_cap (b_fds w) = 0 \<and> fd_overflow_cap ?c \<noteq> 0 then {#FdVec#} else {#})"
    by (simp_all add: remember_fd_def Let_def own_fds_def shm_fd_def acquire_def)
  show ?thesis using assms unfolding box_inv_def own res by simp
qed

lemma send_fd_inv:
  assumes k: "kernel_sane k" and inv: "box_inv other user w" and res: "pbox_send_fd e k fd w = Returns (s, w')"
  shows "box_inv other user w'"
proof (cases "fd < 0 \<or> pbox_lookup_fd (b_fds w) (nat fd) \<ge> 0")
  case True
  with inv res show ?thesis by (auto simp: pbox_send_fd_def Let_def split: if_splits)
next
  case False
  with res obtain c w1 where c: "get_or_create_channel e k w = Returns (c, w1)" by (auto simp: pbox_send_fd_def Let_def)
  note i = get_or_create_inv(1) [OF k inv c]
  show ?thesis
  proof (cases c)
    case None
    with res False c i show ?thesis by (auto simp: pbox_send_fd_def Let_def)
  next
    case (Some j)
    with res False c obtain w2 where w2: "pbox_send_fd_on_channel e k j (nat fd) w1 = Returns (s, w2)"
      "w' = (if s \<ge> 0 then remember_fd k (nat fd) s w2 else w2)"
      by (auto simp: pbox_send_fd_def Let_def)
    have "box_inv other user w2" using i box_inv_owned [OF owned_send_fd_on_channel [OF w2(1)]] by simp
    then show ?thesis using w2(2) remember_fd_inv by (cases "s \<ge> 0") auto
  qed
qed

lemma uncache_cap: "fd_overflow_cap (pbox_uncache_fd c s) = fd_overflow_cap c"
  by (simp add: pbox_uncache_fd_def split: option.splits)

lemma uncache_inv: "box_inv other user (w\<lparr>b_fds := pbox_uncache_fd (b_fds w) s\<rparr>) = box_inv other user w"
  unfolding box_inv_def box_resources_def channel_resources_def [abs_def] own_fds_def shm_fd_def [abs_def]
  by (simp add: uncache_cap cong: if_cong split del: if_split)

lemma close_inv:
  assumes k: "kernel_sane k" and inv: "box_inv other user w" and res: "pbox_close e k junk s w = Returns (r, w')"
  shows "box_inv other user w'"
proof (cases "b_sym_close w = 0 \<or> s < 0")
  case True
  with inv res show ?thesis by (auto simp: pbox_close_def)
next
  case False
  with res obtain r' w1 where c: "pbox_call e k (b_sym_close w) PBOX_TYPE_SINT32 1 [PBOX_TYPE_SINT32] [int_object s] (Some junk) w = Returns (r', w1)"
    "w' = w1 \<or> w' = w1\<lparr>b_fds := pbox_uncache_fd (b_fds w1) s\<rparr>"
    by (auto simp: pbox_close_def Let_def split: if_splits)
  from pbox_call_inv [OF k inv c(1)] c(2) uncache_inv show ?thesis by auto
qed

lemma mmap_inv:
  assumes k: "kernel_sane k" and inv: "box_inv other user w"
    and res: "pbox_mmap e k junk a len prot flags fd off w = Returns (p, w')"
  shows "box_inv other user w'"
proof -
  from res obtain s w1 where s: "pbox_send_fd e k fd w = Returns (s, w1)" by (auto simp: pbox_mmap_def)
  note i = send_fd_inv [OF k inv s]
  from res s have "w' = w1 \<or> pbox_mmap_box_fd e k junk a len prot flags s off w1 = Returns (p, w')"
    by (auto simp: pbox_mmap_def split: if_splits)
  then show ?thesis using i simple_calls_inv(1) [OF k i] by blast
qed

lemma box_inv_reg [simp]: "box_inv other user (w\<lparr>b_reg := r\<rparr>) = box_inv other user w"
  by (rule box_inv_owned) (simp add: owned_eq)

lemma register_callback_inv:
  assumes k: "kernel_sane k" and inv: "box_inv other user w"
    and res: "pbox_register_callback e k f d rt n ts w = Returns (a, w')"
  shows "box_inv other user w'"
proof -
  from res obtain p where p: "callback_publish f d rt n ts (b_reg w) = Returns p" by (auto simp: pbox_register_callback_def)
  show ?thesis
  proof (cases p)
    case None
    with res p inv show ?thesis by (auto simp: pbox_register_callback_def)
  next
    case (Some q)
    obtain cid reg where q: "q = (cid, reg)" by (cases q)
    with res p Some obtain c w1 where c: "get_or_create_channel e k (w\<lparr>b_reg := reg\<rparr>) = Returns (c, w1)"
      by (auto simp: pbox_register_callback_def)
    have i: "box_inv other user w1" using get_or_create_inv(1) [OF k _ c] inv by simp
    show ?thesis
    proof (cases c)
      case None
      with res p Some q c i show ?thesis by (auto simp: pbox_register_callback_def)
    next
      case (Some j)
      with res p \<open>p = Some q\<close> q c obtain w2 r where
        w2: "exchange e j (put_chan j (closure_request cid rt n ts (sb_chan w1 j)) w1) = Returns w2" "w' = w2\<lparr>b_reg := r\<rparr>"
        by (auto simp: pbox_register_callback_def Let_def)
      have "box_inv other user w2" using i box_inv_owned [OF owned_exchange [OF w2(1)]] by simp
      then show ?thesis by (simp add: w2(2))
    qed
  qed
qed

section \<open>The application's own objects\<close>

text \<open>Objects enter and leave the share of the application.\<close>

lemma box_inv_acquire: "box_inv (add_mset r other) user (acquire r w) = box_inv other user w"
proof -
  have eq: "box_resources (acquire r w) = box_resources w" "own_fds (acquire r w) = own_fds w"
    by (simp_all add: acquire_def box_resources_def own_fds_def)
  show ?thesis unfolding box_inv_def eq by (simp add: acquire_def cong: if_cong)
qed

lemma box_inv_release:
  assumes "box_inv (add_mset r other) user w"
  shows "release r w = Returns (w\<lparr>h_held := h_held w - {#r#}\<rparr>)" "box_inv other user (w\<lparr>h_held := h_held w - {#r#}\<rparr>)"
proof -
  let ?v = "w\<lparr>h_held := h_held w - {#r#}\<rparr>"
  have mem: "r \<in># h_held w" using assms by (simp add: box_inv_def)
  then show "release r w = Returns ?v" by (simp add: release_def)
  have "w = acquire r ?v" using mem by (simp add: acquire_def)
  then show "box_inv other user ?v" using assms box_inv_acquire [of r other user ?v] by simp
qed

lemma box_inv_open:
  assumes "box_inv other user w" "h_fds w fd = None"
  shows "box_inv other (user(fd \<mapsto> f)) (w\<lparr>h_fds := (h_fds w)(fd \<mapsto> f)\<rparr>)"
proof -
  have "own_fds (w\<lparr>h_fds := (h_fds w)(fd \<mapsto> f)\<rparr>) = own_fds w" by (simp add: own_fds_def)
  moreover have "box_resources (w\<lparr>h_fds := (h_fds w)(fd \<mapsto> f)\<rparr>) = box_resources w" by (simp add: box_resources_def)
  moreover have "fd \<notin> set (own_fds w)" using assms by (auto simp: box_inv_def)
  ultimately show ?thesis using assms by (auto simp: box_inv_def fun_eq_iff)
qed

lemma box_inv_close:
  assumes "box_inv other user w" "user fd \<noteq> None"
  shows "box_inv other (user(fd := None)) (close_fd fd w)"
proof -
  have eq: "own_fds (close_fd fd w) = own_fds w" "box_resources (close_fd fd w) = box_resources w"
    by (simp_all add: own_fds_def box_resources_def close_fd_def)
  have "fd \<notin> set (own_fds w)" using assms by (auto simp: box_inv_def)
  moreover have "finite (dom (h_fds (close_fd fd w)))" using assms by (simp add: box_inv_def close_fd_def)
  ultimately show ?thesis using assms unfolding box_inv_def eq by (auto simp: close_fd_def fun_eq_iff)
qed

lemma box_inv_next:
  "box_inv other user w \<Longrightarrow> h_next w \<le> n \<Longrightarrow> box_inv other user (w\<lparr>h_next := n\<rparr>)"
  unfolding box_inv_def box_resources_def channel_resources_def [abs_def] own_fds_def shm_fd_def [abs_def]
  by (auto cong: if_cong split del: if_split)

section \<open>Identity mappings\<close>

lemma drop_region_inv:
  assumes "box_inv (add_mset (RegionMap a len) other) user w" "user fd \<noteq> None" "drop_region a len fd w = Returns (p, w')"
  shows "p = 0 \<and> box_inv other (user(fd := None)) w'"
  using box_inv_release(1) [OF assms(1)] box_inv_close [OF box_inv_release(2) [OF assms(1)] assms(2)] assms(3)
  by (auto simp: drop_region_def)

text \<open>What the application gets: nothing, or one mapping.\<close>

definition region_of :: "u64 \<Rightarrow> u64 \<Rightarrow> resource multiset" where
  "region_of p len = (if p = 0 then {#} else {#RegionMap p len#})"

lemma box_inv_call_for_pointer:
  assumes "box_inv other user w" "h_tls w = Some i" "call_for_pointer e k junk f ts vs w = Returns (p, w')"
  shows "box_inv other user w'" "owned w' = owned w" "h_tls w' = Some i"
proof -
  show "owned w' = owned w" by (rule owned_call_for_pointer [OF assms(3,2)])
  from box_inv_owned [OF this] owned_tls [OF this] assms(1,2) show "box_inv other user w'" "h_tls w' = Some i" by simp_all
qed

lemma box_inv_unmap_in_box:
  assumes "box_inv other user w" "h_tls w = Some i" "unmap_in_box e k junk p len w = Returns w'"
  shows "box_inv other user w'" "owned w' = owned w" "h_tls w' = Some i"
proof -
  show "owned w' = owned w" by (rule owned_unmap_in_box [OF assms(3,2)])
  from box_inv_owned [OF this] owned_tls [OF this] assms(1,2) show "box_inv other user w'" "h_tls w' = Some i" by simp_all
qed

lemma map_common_inv:
  assumes inv: "box_inv other user w" and tls: "h_tls w = Some i" and fd: "user fd \<noteq> None"
    and res: "map_common e k junk len prot fd s w = Returns (p, w')"
  shows "box_inv (region_of p len + other) (user(fd := None)) w' \<and> b_tch w' = b_tch w \<and> h_tls w' = Some i"
proof (cases "pbox_find_common_free_address (parse_proc_maps (k_heap k False) (k_maps k False))
             (parse_proc_maps (k_heap k True) (k_maps k True)) len")
  case None
  with res have "p = 0" "w' = close_fd fd w" by (auto simp: map_common_def)
  with box_inv_close [OF inv fd] tls show ?thesis by (simp add: region_of_def close_fd_def)
next
  case (Some c)
  then have c0: "c \<noteq> 0" by (rule common_address_nonnull)
  show ?thesis
  proof (cases "k_fixed k c = c")
    case False
    with res Some have "p = 0" "w' = close_fd fd w" by (auto simp: map_common_def)
    with box_inv_close [OF inv fd] tls show ?thesis by (simp add: region_of_def close_fd_def)
  next
    case True
    let ?w = "acquire (RegionMap c len) w"
    have iw: "box_inv (add_mset (RegionMap c len) other) user ?w" "h_tls ?w = Some i"
      using inv tls by (simp_all only: box_inv_acquire) (simp add: acquire_def)
    from res Some True obtain q w1 where q: "call_for_pointer e k junk (b_sym_mmap w) mmap_types
        (mmap_args c len prot MAP_SHARED_FIXED_NOREPLACE s 0) ?w = Returns (q, w1)"
      by (auto simp: map_common_def)
    note i1 = box_inv_call_for_pointer [OF iw q]
    have t1: "b_tch w1 = b_tch w" using i1(2) by (simp add: owned_eq acquire_def)
    show ?thesis
    proof (cases "q = c")
      case True
      with res Some \<open>k_fixed k c = c\<close> q have "p = c" "w' = close_fd fd w1" by (auto simp: map_common_def)
      with box_inv_close [OF i1(1) fd] i1(3) t1 c0 show ?thesis by (simp add: region_of_def close_fd_def)
    next
      case False
      with res Some \<open>k_fixed k c = c\<close> q obtain w2 where w2: "unmap_in_box e k junk q len w1 = Returns w2"
        "drop_region c len fd w2 = Returns (p, w')"
        by (auto simp: map_common_def)
      note i2 = box_inv_unmap_in_box [OF i1(1,3) w2(1)]
      have "b_tch w' = b_tch w2" "h_tls w' = h_tls w2"
        using w2(2) by (auto simp: drop_region_def release_def close_fd_def split: if_splits)
      moreover have "b_tch w2 = b_tch w" using i2(2) t1 by (simp add: owned_eq)
      ultimately show ?thesis using drop_region_inv [OF i2(1) fd w2(2)] i2(3) by (simp add: region_of_def)
    qed
  qed
qed

lemma map_on_channel_inv:
  assumes a: "k_addr k \<noteq> 0" and inv: "box_inv (add_mset (RegionMap (k_addr k) len) other) user w"
    and tls: "h_tls w = Some j" and fd: "user fd \<noteq> None"
    and res: "map_on_channel e k junk len prot fd j w = Returns (p, w')"
  shows "box_inv (region_of p len + other) (user(fd := None)) w' \<and> b_tch w' = b_tch w \<and> h_tls w' = Some j"
proof -
  let ?a = "k_addr k"
  from res obtain s w1 where s: "pbox_send_fd_on_channel e k j fd w = Returns (s, w1)" by (auto simp: map_on_channel_def)
  have o1: "owned w1 = owned w" by (rule owned_send_fd_on_channel [OF s])
  have i1: "box_inv (add_mset (RegionMap ?a len) other) user w1" using inv box_inv_owned [OF o1] by simp
  have t1: "h_tls w1 = Some j" "b_tch w1 = b_tch w" using tls o1 by (simp_all add: owned_eq)
  show ?thesis
  proof (cases "s < 0")
    case True
    with res s have d: "drop_region ?a len fd w1 = Returns (p, w')" by (simp add: map_on_channel_def)
    then have "b_tch w' = b_tch w1" "h_tls w' = h_tls w1"
      by (auto simp: drop_region_def release_def close_fd_def split: if_splits)
    with drop_region_inv [OF i1 fd d] t1 show ?thesis by (simp add: region_of_def)
  next
    case pos: False
    with res s obtain q w2 where q: "call_for_pointer e k junk (b_sym_mmap w1) mmap_types
        (mmap_args ?a len prot MAP_SHARED_FIXED_NOREPLACE s 0) w1 = Returns (q, w2)"
      by (auto simp: map_on_channel_def)
    note i2 = box_inv_call_for_pointer [OF i1 t1(1) q]
    have t2: "b_tch w2 = b_tch w" using i2(2) t1 by (simp add: owned_eq)
    show ?thesis
    proof (cases "q = ?a")
      case True
      with res s pos q have "p = ?a" "w' = close_fd fd w2" by (auto simp: map_on_channel_def)
      with box_inv_close [OF i2(1) fd] t2 i2(3) a show ?thesis by (simp add: region_of_def close_fd_def)
    next
      case False
      with res s pos q obtain w3 w4 where w3: "unmap_in_box e k junk q len w2 = Returns w3"
        "release (RegionMap ?a len) w3 = Returns w4" "map_common e k (to_bytes q) len prot fd s w4 = Returns (p, w')"
        by (auto simp: map_on_channel_def)
      note i3 = box_inv_unmap_in_box [OF i2(1,3) w3(1)]
      have w4: "w4 = w3\<lparr>h_held := h_held w3 - {#RegionMap ?a len#}\<rparr>" using w3(2) box_inv_release(1) [OF i3(1)] by simp
      have "box_inv other user w4" "h_tls w4 = Some j" "b_tch w4 = b_tch w"
        using box_inv_release(2) [OF i3(1)] i3(2,3) t2 by (simp_all add: w4 owned_eq)
      with map_common_inv [where user = user and other = other, OF _ _ fd w3(3)] show ?thesis by auto
    qed
  qed
qed

lemma mmap_identity_inv:
  assumes k: "kernel_sane k" and inv: "box_inv other user w"
    and res: "pbox_mmap_identity e k junk len prot w = Returns (p, w')"
  shows "box_inv (region_of p len + other) user w' \<and> (h_tls w = Some i \<longrightarrow> b_tch w' = b_tch w \<and> h_tls w' = Some i)"
proof (cases "b_sym_mmap w = 0 \<or> \<not> k_ok k At_memfd_region")
  case True
  with res have "p = 0" "w' = w" by (auto simp: pbox_mmap_identity_def)
  with inv show ?thesis by (simp add: region_of_def)
next
  case go: False
  define fd where "fd = k_fd k (h_fds w)"
  define w1 where "w1 = w\<lparr>h_fds := (h_fds w)(fd \<mapsto> SharedMem (h_next w)), h_next := h_next w + 1\<rparr>"
  let ?user = "user(fd \<mapsto> SharedMem (h_next w))" and ?a = "k_addr k"
  have new: "h_fds w fd = None" using k inv by (simp add: kernel_sane_def kernel_ok_def box_inv_def fd_def)
  then have u: "?user fd \<noteq> None" "?user(fd := None) = user" using inv by (auto simp: box_inv_def fun_eq_iff)
  have "box_inv other ?user (w\<lparr>h_fds := (h_fds w)(fd \<mapsto> SharedMem (h_next w))\<rparr>)" by (rule box_inv_open [OF inv new])
  then have i1: "box_inv other ?user w1" using box_inv_next [where n = "h_next w + 1"] by (fastforce simp: w1_def)
  have t1: "b_tch w1 = b_tch w" "h_tls w1 = h_tls w" by (simp_all add: w1_def)
  show ?thesis
  proof (cases "k_ok k At_ftruncate_region \<and> k_ok k At_mmap_region")
    case False
    with res go have "p = 0" "w' = close_fd fd w1" by (auto simp: pbox_mmap_identity_def Let_def fd_def w1_def)
    with box_inv_close [where user = ?user, OF i1 u(1)] t1 show ?thesis unfolding u(2) by (simp add: region_of_def close_fd_def)
  next
    case ok: True
    have i2: "box_inv (add_mset (RegionMap ?a len) other) ?user (acquire (RegionMap ?a len) w1)"
      using i1 by (simp only: box_inv_acquire)
    have "pbox_mmap_identity e k junk len prot w = and_then (get_or_create_channel e k (acquire (RegionMap ?a len) w1))
        (\<lambda>(c, w2). case c of None \<Rightarrow> drop_region ?a len fd w2 | Some i \<Rightarrow> map_on_channel e k junk len prot fd i w2)"
      unfolding pbox_mmap_identity_def Let_def fd_def w1_def using go ok by simp
    with res obtain c w2 where c: "get_or_create_channel e k (acquire (RegionMap ?a len) w1) = Returns (c, w2)"
      "(case c of None \<Rightarrow> drop_region ?a len fd w2 | Some i \<Rightarrow> map_on_channel e k junk len prot fd i w2) = Returns (p, w')"
      by auto
    note i3 = get_or_create_inv [OF k i2 c(1)]
    have t2: "b_tch w2 = b_tch w \<and> c = Some i" if "h_tls w = Some i"
      using c(1) t1 that by (auto simp: get_or_create_channel_def acquire_def)
    show ?thesis
    proof (cases c)
      case None
      with c(2) have "drop_region ?a len fd w2 = Returns (p, w')" by simp
      from drop_region_inv [where user = ?user, OF i3(1) u(1) this] None t2 show ?thesis unfolding u(2) by (auto simp: region_of_def)
    next
      case (Some j)
      with c(2) i3(2) have "map_on_channel e k junk len prot fd j w2 = Returns (p, w')" "h_tls w2 = Some j" by simp_all
      from map_on_channel_inv [where user = ?user, OF _ i3(1) this(2) u(1) this(1)] k t2 Some show ?thesis
        unfolding u(2) by (auto simp: kernel_sane_def)
    qed
  qed
qed

lemma munmap_identity_inv:
  assumes k: "kernel_sane k" and inv: "box_inv (add_mset (RegionMap a len) other) user w"
    and res: "pbox_munmap_identity e k junk a len w = Returns (r, w')"
  shows "box_inv other user w'"
proof -
  from res obtain r1 w1 where w1: "pbox_munmap e k junk a len w = Returns (r1, w1)" "release (RegionMap a len) w1 = Returns w'"
    by (auto simp: pbox_munmap_identity_def)
  have "box_inv (add_mset (RegionMap a len) other) user w1" by (rule simple_calls_inv(2) [OF k inv w1(1)])
  from box_inv_release [OF this] w1(2) show ?thesis by simp
qed

section \<open>The arena\<close>

lemma box_inv_tch:
  assumes "\<And>j. tc_shm_fd (t j) = tc_shm_fd (b_tch w j)" "\<And>j. idmem_base (t j) = idmem_base (b_tch w j)"
    "\<And>j. idmem_size (t j) = idmem_size (b_tch w j)"
  shows "box_inv other user (w\<lparr>b_tch := t\<rparr>) = box_inv other user w"
proof -
  have "channel_resources (w\<lparr>b_tch := t\<rparr>) = channel_resources w" "shm_fd (w\<lparr>b_tch := t\<rparr>) = shm_fd w"
    using assms by (simp_all add: channel_resources_def shm_fd_def fun_eq_iff)
  then have eq: "box_resources (w\<lparr>b_tch := t\<rparr>) = box_resources w" "own_fds (w\<lparr>b_tch := t\<rparr>) = own_fds w"
    by (simp_all add: box_resources_def own_fds_def)
  show ?thesis unfolding box_inv_def eq by (simp cong: if_cong)
qed

lemma sum_single: "distinct cs \<Longrightarrow> i \<in> set cs \<Longrightarrow> (\<Sum>j\<in>#mset cs. if j = i then x else {#}) = x"
proof (induction cs)
  case (Cons c cs)
  have none: "(\<Sum>j\<in>#mset cs. if j = i then x else {#}) = {#}" if "i \<notin> set cs"
    using that by (intro sum_mset.neutral) auto
  from Cons none show ?case by (cases "c = i") auto
qed simp

text \<open>A mapping of the application becomes the arena of a thread.\<close>

lemma region_moves:
  assumes inv: "box_inv (add_mset (RegionMap a n) other) user w" and i: "i \<in> set (b_channels w)"
    and none: "idmem_base (b_tch w i) = 0" and a: "a \<noteq> 0"
  defines "v \<equiv> w\<lparr>b_tch := (b_tch w)(i := (b_tch w i)\<lparr>idmem_base := a, idmem_size := n, idmem_offset := 0\<rparr>)\<rparr>"
  shows "box_inv other user v"
proof -
  have dist: "distinct (b_channels w)" using inv by (simp add: box_inv_def own_fds_def distinct_map)
  have ch: "channel_resources v = (\<lambda>j. channel_resources w j + (if j = i then {#RegionMap a n#} else {#}))"
    using none a by (auto simp: channel_resources_def v_def fun_eq_iff)
  have eq: "own_fds v = own_fds w" by (simp add: own_fds_def shm_fd_def v_def)
  have "(\<Sum>j\<in>#mset (b_channels w). channel_resources v j) = (\<Sum>j\<in>#mset (b_channels w). channel_resources w j) + {#RegionMap a n#}"
    unfolding ch by (subst sum_mset.distrib) (simp only: sum_single [OF dist i])
  then have "box_resources v = add_mset (RegionMap a n) (box_resources w)" by (simp add: box_resources_def v_def)
  then show ?thesis using inv unfolding box_inv_def eq by (simp add: v_def cong: if_cong)
qed

lemma idmem_init_inv:
  assumes k: "kernel_sane k" and inv: "box_inv other user w" and tls: "h_tls w = Some i"
    and res: "idmem_init e k junk i w = Returns (ok, w')"
  shows "box_inv other user w' \<and> h_tls w' = Some i"
proof (cases "idmem_base (b_tch w i) = 0")
  case False
  with res inv tls show ?thesis by (auto simp: idmem_init_def)
next
  case True
  let ?n = "word_of_nat PBOX_IDMEM_DEFAULT_SIZE"
  from res True obtain a w1 where a: "pbox_mmap_identity e k junk ?n 3 w = Returns (a, w1)"
    by (auto simp: idmem_init_def)
  from mmap_identity_inv [OF k inv a, of i] tls
  have w1: "box_inv (region_of a ?n + other) user w1" "b_tch w1 = b_tch w" "h_tls w1 = Some i" by simp_all
  then have i: "i \<in> set (b_channels w1)" by (auto simp: box_inv_def)
  show ?thesis
  proof (cases "a = 0")
    case a0: True
    with res True a have "w' = w1\<lparr>b_tch := (b_tch w1)(i := (b_tch w1 i)\<lparr>idmem_base := 0\<rparr>)\<rparr>" by (auto simp: idmem_init_def)
    moreover have "box_inv other user (w1\<lparr>b_tch := (b_tch w1)(i := (b_tch w1 i)\<lparr>idmem_base := 0\<rparr>)\<rparr>) = box_inv other user w1"
      using True w1(2) by (intro box_inv_tch) auto
    ultimately show ?thesis using w1 a0 by (simp add: region_of_def)
  next
    case a1: False
    with res True a have w': "w' = w1\<lparr>b_tch := (b_tch w1)(i := (b_tch w1 i)\<lparr>idmem_base := a, idmem_size := ?n, idmem_offset := 0\<rparr>)\<rparr>"
      by (auto simp: idmem_init_def)
    have "box_inv (add_mset (RegionMap a ?n) other) user w1" using w1(1) a1 by (simp add: region_of_def)
    from region_moves [OF this i _ a1] True w1 show ?thesis unfolding w' by simp
  qed
qed

lemma idmem_alloc_inv:
  assumes k: "kernel_sane k" and inv: "box_inv other user w" and res: "pbox_idmem_alloc e k junk n w = Returns (p, w')"
  shows "box_inv other user w'"
proof -
  have gc: "get_or_create_thread_channel e k w = get_or_create_channel e k w"
    by (auto simp: get_or_create_thread_channel_def get_or_create_channel_def split: option.splits intro!: arg_cong2 [where f = and_then])
  from res obtain c w1 where c: "get_or_create_channel e k w = Returns (c, w1)" by (auto simp: pbox_idmem_alloc_def gc)
  note i1 = get_or_create_inv [OF k inv c]
  show ?thesis
  proof (cases c)
    case None
    with res c i1 show ?thesis by (auto simp: pbox_idmem_alloc_def gc)
  next
    case (Some i)
    with res c obtain ok w2 where ok: "idmem_init e k junk i w1 = Returns (ok, w2)" by (auto simp: pbox_idmem_alloc_def gc)
    have i2: "box_inv other user w2" using idmem_init_inv [OF k i1(1) _ ok] i1(2) Some by simp
    obtain q t where t: "idmem_take n (b_tch w2 i) = (q, t)" by fastforce
    then have tt: "tc_shm_fd t = tc_shm_fd (b_tch w2 i)" "idmem_base t = idmem_base (b_tch w2 i)" "idmem_size t = idmem_size (b_tch w2 i)"
      by (auto simp: idmem_take_def Let_def split: if_splits)
    have "box_inv other user (w2\<lparr>b_tch := (b_tch w2)(i := t)\<rparr>) = box_inv other user w2"
      using tt by (intro box_inv_tch) auto
    moreover have "w' = w2 \<or> w' = w2\<lparr>b_tch := (b_tch w2)(i := t)\<rparr>"
      using res c Some ok t by (auto simp: pbox_idmem_alloc_def gc split: if_splits)
    ultimately show ?thesis using i2 by auto
  qed
qed

lemma idmem_reset_inv: "box_inv other user (pbox_idmem_reset w) = box_inv other user w"
proof (cases "h_tls w")
  case None
  then show ?thesis by (simp add: pbox_idmem_reset_def)
next
  case (Some i)
  have "box_inv other user (w\<lparr>b_tch := (b_tch w)(i := idmem_rewind (b_tch w i))\<rparr>) = box_inv other user w"
    by (intro box_inv_tch) (auto simp: idmem_rewind_def)
  then show ?thesis using Some by (simp add: pbox_idmem_reset_def)
qed

section \<open>The life of a box\<close>

text \<open>
  One operation of the interface, or one thing the application does besides: it opens or closes a
  file of its own, or another thread of it takes its turn (the thread's channel is the value of the
  thread-local key: none yet, or one of the list). \<open>other\<close> and \<open>user\<close> are the application's share.
\<close>

inductive box_step ::
  "'m sandbox_env \<Rightarrow> resource multiset \<times> (nat \<Rightarrow> open_file option) \<times> ('m, 'h) world \<Rightarrow>
     resource multiset \<times> (nat \<Rightarrow> open_file option) \<times> ('m, 'h) world \<Rightarrow> bool"
  for e :: "'m sandbox_env" where
  do_call: "kernel_sane k \<Longrightarrow> pbox_call e k f rt n ts vs ret w = Returns (r, w') \<Longrightarrow> box_step e (other, user, w) (other, user, w')"
| do_dlsym: "kernel_sane k \<Longrightarrow> pbox_dlsym e k s w = Returns (a, w') \<Longrightarrow> box_step e (other, user, w) (other, user, w')"
| do_send_fd: "kernel_sane k \<Longrightarrow> pbox_send_fd e k fd w = Returns (r, w') \<Longrightarrow> box_step e (other, user, w) (other, user, w')"
| do_close: "kernel_sane k \<Longrightarrow> pbox_close e k junk sfd w = Returns (r, w') \<Longrightarrow> box_step e (other, user, w) (other, user, w')"
| do_register: "kernel_sane k \<Longrightarrow> pbox_register_callback e k f d rt na ts w = Returns (a, w') \<Longrightarrow>
    box_step e (other, user, w) (other, user, w')"
| do_mmap: "kernel_sane k \<Longrightarrow> pbox_mmap e k junk a len prot flags fd off w = Returns (p, w') \<Longrightarrow>
    box_step e (other, user, w) (other, user, w')"
| do_mmap_box_fd: "kernel_sane k \<Longrightarrow> pbox_mmap_box_fd e k junk a len prot flags fd off w = Returns (p, w') \<Longrightarrow>
    box_step e (other, user, w) (other, user, w')"
| do_munmap: "kernel_sane k \<Longrightarrow> pbox_munmap e k junk a len w = Returns (r, w') \<Longrightarrow> box_step e (other, user, w) (other, user, w')"
| do_malloc: "kernel_sane k \<Longrightarrow> pbox_malloc e k junk sz w = Returns (p, w') \<Longrightarrow> box_step e (other, user, w) (other, user, w')"
| do_calloc: "kernel_sane k \<Longrightarrow> pbox_calloc e k junk m sz w = Returns (p, w') \<Longrightarrow> box_step e (other, user, w) (other, user, w')"
| do_realloc: "kernel_sane k \<Longrightarrow> pbox_realloc e k junk q sz w = Returns (p, w') \<Longrightarrow> box_step e (other, user, w) (other, user, w')"
| do_free: "kernel_sane k \<Longrightarrow> pbox_free e k q w = Returns w' \<Longrightarrow> box_step e (other, user, w) (other, user, w')"
| do_copy_to: "kernel_sane k \<Longrightarrow> pbox_copy_to e k dest bs w = Returns w' \<Longrightarrow> box_step e (other, user, w) (other, user, w')"
| do_copy_from: "kernel_sane k \<Longrightarrow> pbox_copy_from e k bs src w = Returns (bs', w') \<Longrightarrow> box_step e (other, user, w) (other, user, w')"
| do_idmem_alloc: "kernel_sane k \<Longrightarrow> pbox_idmem_alloc e k junk sz w = Returns (p, w') \<Longrightarrow> box_step e (other, user, w) (other, user, w')"
| do_idmem_reset: "box_step e (other, user, w) (other, user, pbox_idmem_reset w)"
| do_mmap_identity: "kernel_sane k \<Longrightarrow> pbox_mmap_identity e k junk len prot w = Returns (p, w') \<Longrightarrow>
    box_step e (other, user, w) (region_of p len + other, user, w')"
| do_munmap_identity: "kernel_sane k \<Longrightarrow> pbox_munmap_identity e k junk a len w = Returns (r, w') \<Longrightarrow>
    box_step e (add_mset (RegionMap a len) other, user, w) (other, user, w')"
| thread_exits: "h_tls w = Some i \<Longrightarrow> channel_destructor e i w = Returns w' \<Longrightarrow> box_step e (other, user, w) (other, user, w')"
| thread_switch: "set_option t \<subseteq> set (b_channels w) \<Longrightarrow> box_step e (other, user, w) (other, user, w\<lparr>h_tls := t\<rparr>)"
| app_opens: "h_fds w fd = None \<Longrightarrow> box_step e (other, user, w) (other, user(fd \<mapsto> f), w\<lparr>h_fds := (h_fds w)(fd \<mapsto> f)\<rparr>)"
| app_closes: "user fd \<noteq> None \<Longrightarrow> box_step e (other, user, w) (other, user(fd := None), close_fd fd w)"

fun owns :: "resource multiset \<times> (nat \<Rightarrow> open_file option) \<times> ('m, 'h) world \<Rightarrow> bool" where
  "owns (other, user, w) \<longleftrightarrow> box_inv other user w"

lemma box_step_inv: "box_step e s s' \<Longrightarrow> owns s \<Longrightarrow> owns s'"
proof (induction rule: box_step.induct)
  case do_call
  then show ?case by (auto intro: pbox_call_inv)
next
  case do_dlsym
  then show ?case by (auto intro: dlsym_inv)
next
  case do_send_fd
  then show ?case by (auto intro: send_fd_inv)
next
  case do_close
  then show ?case by (auto intro: close_inv)
next
  case do_register
  then show ?case by (auto intro: register_callback_inv)
next
  case do_mmap
  then show ?case by (auto intro: mmap_inv)
next
  case do_mmap_box_fd
  then show ?case by (auto intro: simple_calls_inv(1))
next
  case do_munmap
  then show ?case by (auto intro: simple_calls_inv(2))
next
  case do_malloc
  then show ?case by (auto intro: simple_calls_inv(3))
next
  case do_calloc
  then show ?case by (auto intro: simple_calls_inv(4))
next
  case do_realloc
  then show ?case by (auto intro: simple_calls_inv(5))
next
  case do_free
  then show ?case by (auto intro: simple_calls_inv(6))
next
  case do_copy_to
  then show ?case by (auto intro: pbox_copy_to_inv)
next
  case do_copy_from
  then show ?case by (auto intro: pbox_copy_from_inv)
next
  case do_idmem_alloc
  then show ?case by (auto intro: idmem_alloc_inv)
next
  case do_munmap_identity
  then show ?case by (auto intro: munmap_identity_inv)
next
  case do_idmem_reset
  then show ?case by (simp add: idmem_reset_inv)
next
  case do_mmap_identity
  then show ?case by (auto dest: mmap_identity_inv)
next
  case (thread_exits w i w' other user)
  from channel_destructor_inv [OF _ thread_exits(1), of other user e] thread_exits(2,3) show ?case by auto
next
  case thread_switch
  then show ?case by (auto intro: box_inv_tls)
next
  case app_opens
  then show ?case by (auto intro: box_inv_open)
next
  case (app_closes user fd other w)
  then show ?case using box_inv_close [of other user w fd] by simp
qed

lemma box_steps_inv: "(box_step e)\<^sup>*\<^sup>* s s' \<Longrightarrow> owns s \<Longrightarrow> owns s'"
  by (induction rule: rtranclp_induct) (auto intro: box_step_inv)

text \<open>C14: nothing leaks over the life of a box. After \<open>pbox_create\<close>, any sequence of operations of the
  interface by any threads of the application, in any order and with any outcome, and \<open>pbox_destroy\<close>,
  the process holds and has open exactly what the application acquired for itself; every release on
  the way was of something held (a double release would abort), and the sandbox is dead.\<close>

theorem box_lifetime_leaks_nothing:
  fixes w :: "('m, 'h) world"
  assumes "kernel_ok k" "finite (dom (h_fds w))" "pbox_create e k mem w = Returns (True, w0)"
    and "(box_step e)\<^sup>*\<^sup>* (h_held w, h_fds w, w0) (other, user, w1)"
  shows "\<exists>w2. pbox_destroy w1 = Returns w2 \<and> h_held w2 = other \<and> h_fds w2 = user \<and> \<not> sb_alive w2"
proof -
  have "owns (h_held w, h_fds w, w0)" using pbox_create_inv [OF assms(1-3)] by simp
  from box_steps_inv [OF assms(4) this] show ?thesis using pbox_destroy_inv by auto
qed

theorem box_lifetime_leaks_nothing_witness:
  "\<exists>w0 w2. pbox_create example_env (example_kernel_with (\<lambda>_. True)) () example_world = Returns (True, w0) \<and>
     pbox_destroy (pbox_idmem_reset w0) = Returns w2 \<and> h_held w2 = {#} \<and> h_fds w2 = h_fds example_world"
proof -
  let ?k = "example_kernel_with (\<lambda>_. True)"
  have fin: "finite (dom (h_fds example_world))" and held: "h_held example_world = {#}" by (simp_all add: example_world_def)
  have "\<forall>c\<in>set (At_exec # At_sandbox_setup # creation_sites). k_ok ?k c" by (simp add: example_kernel_with_def)
  then obtain w0 where w0: "pbox_create example_env ?k () example_world = Returns (True, w0)"
    using pbox_create_returns [OF example_kernel_with_ok fin] by blast
  have "(box_step example_env)\<^sup>*\<^sup>* (h_held example_world, h_fds example_world, w0)
      (h_held example_world, h_fds example_world, pbox_idmem_reset w0)"
    by (intro r_into_rtranclp box_step.do_idmem_reset)
  from box_lifetime_leaks_nothing [OF example_kernel_with_ok fin w0 this] w0 held show ?thesis by auto
qed

end
