(* ===== verification/Protocol.thy ===== *)
theory Protocol
  imports Callbacks
begin

text \<open>
  The handshake on one channel, with the two threads interleaved at every atomic access: the host
  thread's \<open>pbox_set_state\<close>, \<open>pbox_wait_for_response\<close> (\<open>src/pbox/pbox.c\<close>) against the worker's
  \<open>dispatch_loop\<close> and \<open>dyfn_closure_dispatch\<close> (\<open>src/pbox/pbox_sandbox.c\<close>), over the futex word
  \<open>state\<close> (\<open>src/pbox/pbox_internal.h\<close>). The other theories let the threads take turns; here it is
  shown that they do: no wakeup is lost, the channel's memory has one owner at a time, and every
  request ends. \<open>PBOX_SPIN_ITERATIONS\<close> is 0, so a wait is its futex loop.
\<close>

section \<open>The two threads\<close>

text \<open>
  The host: between two requests, at the \<open>futex_wake\<close> of \<open>pbox_set_state\<close>, at the load of the wait
  loop, with the loaded value at \<open>futex_wait\<close>, asleep there, having seen \<open>CALLBACK\<close> (dispatching it),
  having seen \<open>RESPONSE\<close> (reading the result).
\<close>

datatype host_pc = HIdle | HWake | HLoad | HWait int | HSleep | HDispatch | HGot

text \<open>
  The worker: the same for the loop at the top of \<open>dispatch_loop\<close>, serving a request that still makes
  \<open>n\<close> callbacks, in a stub (the number is what is left after it), and at the wake of the response.
\<close>

datatype box_pc =
    BLoad | BWait int | BSleep
  | BServe nat
  | BCbWake nat | BCbLoad nat | BCbWait nat int | BCbSleep nat
  | BRespWake

text \<open>
  \<open>p_todo\<close> lists the requests the host thread still makes, the current one first, each by the number
  of callbacks that serving it makes; \<open>p_spurious\<close> bounds the spurious wakeups of the kernel.
\<close>

record handshake =
  p_state :: int
  p_host :: host_pc
  p_box :: box_pc
  p_todo :: "nat list"
  p_spurious :: nat

text \<open>\<open>FUTEX_WAKE\<close> wakes the thread that sleeps on the word, if there is one.\<close>

fun woken_host :: "host_pc \<Rightarrow> host_pc" where
  "woken_host HSleep = HLoad"
| "woken_host h = h"

fun woken_box :: "box_pc \<Rightarrow> box_pc" where
  "woken_box BSleep = BLoad"
| "woken_box (BCbSleep n) = BCbLoad n"
| "woken_box b = b"

text \<open>\<open>pbox_set_state\<close> is a store and a wake, two steps.\<close>

inductive host_step :: "handshake \<Rightarrow> handshake \<Rightarrow> bool" where
  host_request: "p_host s = HIdle \<Longrightarrow> p_todo s \<noteq> [] \<Longrightarrow>
    host_step s (s\<lparr>p_state := PBOX_STATE_REQUEST, p_host := HWake\<rparr>)"
| host_wake: "p_host s = HWake \<Longrightarrow> host_step s (s\<lparr>p_host := HLoad, p_box := woken_box (p_box s)\<rparr>)"
| host_response: "p_host s = HLoad \<Longrightarrow> p_state s = PBOX_STATE_RESPONSE \<Longrightarrow> host_step s (s\<lparr>p_host := HGot\<rparr>)"
| host_callback: "p_host s = HLoad \<Longrightarrow> p_state s = PBOX_STATE_CALLBACK \<Longrightarrow> host_step s (s\<lparr>p_host := HDispatch\<rparr>)"
| host_dead: "p_host s = HLoad \<Longrightarrow> p_state s = PBOX_STATE_DEAD \<Longrightarrow> host_step s (s\<lparr>p_host := HGot\<rparr>)"
| host_other: "p_host s = HLoad \<Longrightarrow> p_state s \<notin> {PBOX_STATE_RESPONSE, PBOX_STATE_CALLBACK, PBOX_STATE_DEAD} \<Longrightarrow>
    host_step s (s\<lparr>p_host := HWait (p_state s)\<rparr>)"
| host_sleep: "p_host s = HWait v \<Longrightarrow> p_state s = v \<Longrightarrow> host_step s (s\<lparr>p_host := HSleep\<rparr>)"
| host_again: "p_host s = HWait v \<Longrightarrow> p_state s \<noteq> v \<Longrightarrow> host_step s (s\<lparr>p_host := HLoad\<rparr>)"
| host_dispatched: "p_host s = HDispatch \<Longrightarrow> host_step s (s\<lparr>p_state := PBOX_STATE_REQUEST, p_host := HWake\<rparr>)"
| host_done: "p_host s = HGot \<Longrightarrow> host_step s (s\<lparr>p_state := PBOX_STATE_IDLE, p_host := HIdle, p_todo := tl (p_todo s)\<rparr>)"
| host_spurious: "p_host s = HSleep \<Longrightarrow> p_spurious s = Suc n \<Longrightarrow> host_step s (s\<lparr>p_host := HLoad, p_spurious := n\<rparr>)"

inductive box_pc_step :: "handshake \<Rightarrow> handshake \<Rightarrow> bool" where
  box_request: "p_box s = BLoad \<Longrightarrow> p_state s = PBOX_STATE_REQUEST \<Longrightarrow> box_pc_step s (s\<lparr>p_box := BServe (hd (p_todo s))\<rparr>)"
| box_other: "p_box s = BLoad \<Longrightarrow> p_state s \<noteq> PBOX_STATE_REQUEST \<Longrightarrow> box_pc_step s (s\<lparr>p_box := BWait (p_state s)\<rparr>)"
| box_sleep: "p_box s = BWait v \<Longrightarrow> p_state s = v \<Longrightarrow> box_pc_step s (s\<lparr>p_box := BSleep\<rparr>)"
| box_again: "p_box s = BWait v \<Longrightarrow> p_state s \<noteq> v \<Longrightarrow> box_pc_step s (s\<lparr>p_box := BLoad\<rparr>)"
| box_callback: "p_box s = BServe (Suc n) \<Longrightarrow> box_pc_step s (s\<lparr>p_state := PBOX_STATE_CALLBACK, p_box := BCbWake n\<rparr>)"
| box_cb_wake: "p_box s = BCbWake n \<Longrightarrow> box_pc_step s (s\<lparr>p_box := BCbLoad n, p_host := woken_host (p_host s)\<rparr>)"
| box_cb_done: "p_box s = BCbLoad n \<Longrightarrow> p_state s = PBOX_STATE_REQUEST \<Longrightarrow> box_pc_step s (s\<lparr>p_box := BServe n\<rparr>)"
| box_cb_other: "p_box s = BCbLoad n \<Longrightarrow> p_state s \<noteq> PBOX_STATE_REQUEST \<Longrightarrow> box_pc_step s (s\<lparr>p_box := BCbWait n (p_state s)\<rparr>)"
| box_cb_sleep: "p_box s = BCbWait n v \<Longrightarrow> p_state s = v \<Longrightarrow> box_pc_step s (s\<lparr>p_box := BCbSleep n\<rparr>)"
| box_cb_again: "p_box s = BCbWait n v \<Longrightarrow> p_state s \<noteq> v \<Longrightarrow> box_pc_step s (s\<lparr>p_box := BCbLoad n\<rparr>)"
| box_response: "p_box s = BServe 0 \<Longrightarrow> box_pc_step s (s\<lparr>p_state := PBOX_STATE_RESPONSE, p_box := BRespWake\<rparr>)"
| box_resp_wake: "p_box s = BRespWake \<Longrightarrow> box_pc_step s (s\<lparr>p_box := BLoad, p_host := woken_host (p_host s)\<rparr>)"
| box_spurious: "p_box s \<in> {BSleep, BCbSleep m} \<Longrightarrow> p_spurious s = Suc n \<Longrightarrow>
    box_pc_step s (s\<lparr>p_box := woken_box (p_box s), p_spurious := n\<rparr>)"

definition handshake_step :: "handshake \<Rightarrow> handshake \<Rightarrow> bool" where
  "handshake_step s s' \<longleftrightarrow> host_step s s' \<or> box_pc_step s s'"

text \<open>A channel with a worker that has entered its loop, and a host thread with its requests ahead of it.\<close>

definition handshake_start :: "nat list \<Rightarrow> nat \<Rightarrow> handshake" where
  "handshake_start todo spurious =
     \<lparr>p_state = PBOX_STATE_IDLE, p_host = HIdle, p_box = BLoad, p_todo = todo, p_spurious = spurious\<rparr>"

section \<open>The invariant\<close>

text \<open>The worker waits for the next request (\<open>p\<close>: may it be asleep?).\<close>

fun box_waiting :: "bool \<Rightarrow> box_pc \<Rightarrow> bool" where
  "box_waiting p BLoad = True"
| "box_waiting p (BWait v) = (v \<noteq> PBOX_STATE_REQUEST)"
| "box_waiting p BSleep = p"
| "box_waiting p BRespWake = True"
| "box_waiting p b = False"

text \<open>The worker is inside a stub.\<close>

fun box_in_stub :: "bool \<Rightarrow> box_pc \<Rightarrow> bool" where
  "box_in_stub p (BCbWake n) = True"
| "box_in_stub p (BCbLoad n) = True"
| "box_in_stub p (BCbWait n v) = (v \<noteq> PBOX_STATE_REQUEST)"
| "box_in_stub p (BCbSleep n) = p"
| "box_in_stub p b = False"

fun box_serving :: "box_pc \<Rightarrow> bool" where
  "box_serving (BServe n) = True"
| "box_serving b = False"

text \<open>The host waits for the worker (\<open>p\<close>: may it be asleep?).\<close>

fun host_waiting :: "bool \<Rightarrow> host_pc \<Rightarrow> bool" where
  "host_waiting p HWake = True"
| "host_waiting p HLoad = True"
| "host_waiting p (HWait v) = (v = PBOX_STATE_REQUEST)"
| "host_waiting p HSleep = p"
| "host_waiting p h = False"

definition handshake_inv :: "handshake \<Rightarrow> bool" where
  "handshake_inv s \<longleftrightarrow>
     (if p_host s = HIdle then p_state s = PBOX_STATE_IDLE \<and> box_waiting True (p_box s)
      else p_todo s \<noteq> [] \<and>
        (if p_state s = PBOX_STATE_REQUEST then
           host_waiting True (p_host s) \<and>
           (box_waiting (p_host s = HWake) (p_box s) \<or> box_in_stub (p_host s = HWake) (p_box s) \<or> box_serving (p_box s))
         else if p_state s = PBOX_STATE_CALLBACK then
           (host_waiting (\<exists>n. p_box s = BCbWake n) (p_host s) \<or> p_host s = HDispatch) \<and> box_in_stub True (p_box s)
         else p_state s = PBOX_STATE_RESPONSE \<and>
           (host_waiting (p_box s = BRespWake) (p_host s) \<or> p_host s = HGot) \<and> box_waiting True (p_box s)))"

lemma woken_box_simps [simp]:
  "box_waiting p (woken_box b) = box_waiting True b" "box_in_stub p (woken_box b) = box_in_stub True b"
  "box_serving (woken_box b) = box_serving b"
  by (cases b; simp)+

lemma waiting_mono [simp]:
  "box_waiting p b \<Longrightarrow> box_waiting True b" "box_in_stub p b \<Longrightarrow> box_in_stub True b" "host_waiting p h \<Longrightarrow> host_waiting True h"
  by (cases b; simp) (cases b; simp; fail | cases h; simp)+

lemma host_step_inv: "host_step s s' \<Longrightarrow> handshake_inv s \<Longrightarrow> handshake_inv s'"
  by (induction rule: host_step.induct) (auto simp: handshake_inv_def split: if_splits)

lemma woken_host_simps [simp]:
  "host_waiting p (woken_host h) = host_waiting True h" "woken_host h = HIdle \<longleftrightarrow> h = HIdle"
  "woken_host h = HWake \<longleftrightarrow> h = HWake" "woken_host h = HDispatch \<longleftrightarrow> h = HDispatch" "woken_host h = HGot \<longleftrightarrow> h = HGot"
  by (cases h; simp)+

lemma box_pc_step_inv: "box_pc_step s s' \<Longrightarrow> handshake_inv s \<Longrightarrow> handshake_inv s'"
  by (induction rule: box_pc_step.induct) (auto simp: handshake_inv_def split: if_splits)

lemma handshake_step_inv: "handshake_step s s' \<Longrightarrow> handshake_inv s \<Longrightarrow> handshake_inv s'"
  using host_step_inv box_pc_step_inv by (auto simp: handshake_step_def)

lemma handshake_start_inv: "handshake_inv (handshake_start todo k)"
  by (simp add: handshake_start_def handshake_inv_def)

lemma handshake_reachable_inv: "handshake_step\<^sup>*\<^sup>* (handshake_start todo k) s \<Longrightarrow> handshake_inv s"
  by (induction rule: rtranclp_induct) (auto intro: handshake_start_inv handshake_step_inv)

section \<open>A bound on the number of steps\<close>

text \<open>
  A request with \<open>c\<close> callbacks changes the state word \<open>2 * c + 3\<close> times; \<open>changes_left\<close> counts the
  changes that are still to come. Between two changes each thread makes a few steps only
  (\<open>host_weight\<close>, \<open>box_weight\<close>) before it sleeps or changes the word itself.
\<close>

fun stub_calls :: "box_pc \<Rightarrow> nat option" where
  "stub_calls (BServe n) = Some n"
| "stub_calls (BCbWake n) = Some n"
| "stub_calls (BCbLoad n) = Some n"
| "stub_calls (BCbWait n v) = Some n"
| "stub_calls (BCbSleep n) = Some n"
| "stub_calls b = None"

fun changes_of :: "bool \<Rightarrow> int \<Rightarrow> nat option \<Rightarrow> nat \<Rightarrow> nat" where
  "changes_of True st calls c = 0"
| "changes_of False st None c = (if st = PBOX_STATE_REQUEST then 2 * c + 2 else if st = PBOX_STATE_CALLBACK then 0 else 1)"
| "changes_of False st (Some n) c = (if st = PBOX_STATE_REQUEST then 2 * n + 2 else if st = PBOX_STATE_CALLBACK then 2 * n + 3 else 1)"

definition changes_now :: "handshake \<Rightarrow> nat" where
  "changes_now s = changes_of (p_host s = HIdle) (p_state s) (stub_calls (p_box s)) (hd (p_todo s))"

definition request_changes :: "nat list \<Rightarrow> nat" where
  "request_changes todo = sum_list (map (\<lambda>c. 2 * c + 3) todo)"

definition changes_left :: "handshake \<Rightarrow> nat" where
  "changes_left s = changes_now s + request_changes (if p_host s = HIdle then p_todo s else tl (p_todo s))"

fun host_weight :: "int \<Rightarrow> host_pc \<Rightarrow> nat" where
  "host_weight st HWake = 6"
| "host_weight st HLoad = 2"
| "host_weight st (HWait v) = (if v = st then 1 else 3)"
| "host_weight st HDispatch = 1"
| "host_weight st HGot = 1"
| "host_weight st h = 0"

fun box_weight :: "int \<Rightarrow> box_pc \<Rightarrow> nat" where
  "box_weight st BLoad = 2"
| "box_weight st (BWait v) = (if v = st then 1 else 3)"
| "box_weight st (BCbLoad n) = 2"
| "box_weight st (BCbWait n v) = (if v = st then 1 else 3)"
| "box_weight st (BCbWake n) = 6"
| "box_weight st BRespWake = 6"
| "box_weight st b = 0"

definition steps_left :: "handshake \<Rightarrow> nat" where
  "steps_left s = 12 * changes_left s + host_weight (p_state s) (p_host s) + box_weight (p_state s) (p_box s) + 3 * p_spurious s"

lemma stub_calls_woken [simp]: "stub_calls (woken_box b) = stub_calls b"
  by (cases b) simp_all

lemma in_stub_calls: "box_in_stub p b \<Longrightarrow> \<exists>n. stub_calls b = Some n" "box_waiting p b \<Longrightarrow> stub_calls b = None"
  by (cases b; simp)+

lemma weights:
  "host_weight st (woken_host h) \<le> host_weight st h + 2" "box_weight st (woken_box b) \<le> box_weight st b + 2"
  "host_weight st h \<le> 6" "box_weight st b \<le> 6"
  by (cases h; simp) (cases b; simp; fail | cases h; simp; fail)+

lemma weight_change:
  "host_weight st h \<le> host_weight st' h + 2" "box_weight st b \<le> box_weight st' b + 2"
  by (cases h; simp) (cases b; simp)

lemma request_changes_hd: "todo \<noteq> [] \<Longrightarrow> request_changes todo = 2 * hd todo + 3 + request_changes (tl todo)"
  by (cases todo) (simp_all add: request_changes_def)

lemma host_step_decreases: "host_step s s' \<Longrightarrow> handshake_inv s \<Longrightarrow> steps_left s' < steps_left s"
proof (induction rule: host_step.induct)
  case (host_wake s)
  then show ?case
    using weights(2) [of "p_state s" "p_box s"] by (simp add: steps_left_def changes_left_def changes_now_def)
next
  case (host_request s)
  then have "stub_calls (p_box s) = None" using in_stub_calls(2) by (auto simp: handshake_inv_def)
  then show ?case
    using host_request(1,2) weight_change(2) [of 1 "p_box s" "p_state s"] request_changes_hd [of "p_todo s"]
    by (simp add: steps_left_def changes_left_def changes_now_def)
next
  case (host_dispatched s)
  then obtain n where "stub_calls (p_box s) = Some n" "p_state s = PBOX_STATE_CALLBACK"
    using in_stub_calls(1) by (auto simp: handshake_inv_def split: if_splits)
  then show ?case
    using host_dispatched(1) weight_change(2) [of 1 "p_box s" 5]
    by (simp add: steps_left_def changes_left_def changes_now_def)
next
  case (host_done s)
  then have "stub_calls (p_box s) = None" "p_state s = PBOX_STATE_RESPONSE"
    using in_stub_calls(2) by (auto simp: handshake_inv_def split: if_splits)
  then show ?case
    using host_done(1) weight_change(2) [of 0 "p_box s" 2]
    by (simp add: steps_left_def changes_left_def changes_now_def)
qed (simp_all add: steps_left_def changes_left_def changes_now_def)

lemma changes_left_woken [simp]: "changes_left (s\<lparr>p_host := woken_host h\<rparr>) = changes_left (s\<lparr>p_host := h\<rparr>)"
  by (simp add: changes_left_def changes_now_def)

lemma box_step_decreases: "box_pc_step s s' \<Longrightarrow> handshake_inv s \<Longrightarrow> steps_left s' < steps_left s"
proof (induction rule: box_pc_step.induct)
  case (box_cb_wake s n)
  then have "changes_left (s\<lparr>p_box := BCbLoad n, p_host := woken_host (p_host s)\<rparr>) = changes_left s"
    by (simp add: changes_left_def changes_now_def)
  then show ?case
    using box_cb_wake(1) weights(1) [of "p_state s" "p_host s"] by (simp add: steps_left_def)
next
  case (box_resp_wake s)
  then have "changes_left (s\<lparr>p_box := BLoad, p_host := woken_host (p_host s)\<rparr>) = changes_left s"
    by (simp add: changes_left_def changes_now_def)
  then show ?case
    using box_resp_wake(1) weights(1) [of "p_state s" "p_host s"] by (simp add: steps_left_def)
next
  case (box_callback s n)
  then have h: "p_state s = PBOX_STATE_REQUEST" "p_host s \<noteq> HIdle" by (auto simp: handshake_inv_def split: if_splits)
  have "changes_left (s\<lparr>p_state := PBOX_STATE_CALLBACK, p_box := BCbWake n\<rparr>) + 1 = changes_left s"
    using box_callback(1) h by (simp add: changes_left_def changes_now_def)
  then show ?case
    using box_callback(1) h weight_change(1) [of 5 "p_host s" 1] by (simp add: steps_left_def)
next
  case (box_response s)
  then have h: "p_state s = PBOX_STATE_REQUEST" "p_host s \<noteq> HIdle" by (auto simp: handshake_inv_def split: if_splits)
  have "changes_left (s\<lparr>p_state := PBOX_STATE_RESPONSE, p_box := BRespWake\<rparr>) + 1 = changes_left s"
    using box_response(1) h by (simp add: changes_left_def changes_now_def)
  then show ?case
    using box_response(1) h weight_change(1) [of 2 "p_host s" 1] by (simp add: steps_left_def)
next
  case (box_request s)
  then have "p_host s \<noteq> HIdle" by (auto simp: handshake_inv_def)
  with box_request show ?case by (simp add: steps_left_def changes_left_def changes_now_def)
qed (auto simp: steps_left_def changes_left_def changes_now_def)

lemma handshake_step_decreases: "handshake_step s s' \<Longrightarrow> handshake_inv s \<Longrightarrow> steps_left s' < steps_left s"
  using host_step_decreases box_step_decreases by (auto simp: handshake_step_def)

lemma handshake_run_bound: "(handshake_step ^^ n) s s' \<Longrightarrow> handshake_inv s \<Longrightarrow> n + steps_left s' \<le> steps_left s"
proof (induction n arbitrary: s')
  case 0
  then show ?case by simp
next
  case (Suc n)
  from Suc.prems(1) obtain t where t: "(handshake_step ^^ n) s t" "handshake_step t s'" by auto
  from t(1) Suc.prems(2) have "handshake_inv t" by (induction n arbitrary: t) (auto intro: handshake_step_inv)
  with handshake_step_decreases [OF t(2)] Suc.IH [OF t(1) Suc.prems(2)] show ?case by simp
qed

text \<open>A thread that is not asleep, and not between two requests with none left, can move.\<close>

lemma host_can_step:
  assumes "p_host s \<noteq> HSleep" "p_host s = HIdle \<longrightarrow> p_todo s \<noteq> []"
  shows "\<exists>s'. host_step s s'"
proof (cases "p_host s")
  case HLoad
  then show ?thesis
    using host_response [of s] host_callback [of s] host_dead [of s] host_other [of s]
    by (cases "p_state s \<in> {PBOX_STATE_RESPONSE, PBOX_STATE_CALLBACK, PBOX_STATE_DEAD}") auto
next
  case (HWait v)
  then show ?thesis using host_sleep [of s v] host_again [of s v] by (cases "p_state s = v") auto
qed (use assms in \<open>auto intro: host_step.intros\<close>)

lemma box_can_step:
  assumes "p_box s \<noteq> BSleep" "\<nexists>n. p_box s = BCbSleep n"
  shows "\<exists>s'. box_pc_step s s'"
proof (cases "p_box s")
  case BLoad
  then show ?thesis using box_request [of s] box_other [of s] by (cases "p_state s = PBOX_STATE_REQUEST") auto
next
  case (BWait v)
  then show ?thesis using box_sleep [of s v] box_again [of s v] by (cases "p_state s = v") auto
next
  case (BServe n)
  then show ?thesis by (cases n) (auto intro: box_pc_step.intros)
next
  case (BCbLoad n)
  then show ?thesis
    using box_cb_done [of s n] box_cb_other [of s n] by (cases "p_state s = PBOX_STATE_REQUEST") auto
next
  case (BCbWait n v)
  then show ?thesis using box_cb_sleep [of s n v] box_cb_again [of s n v] by (cases "p_state s = v") auto
qed (use assms in \<open>auto intro: box_pc_step.intros\<close>)

lemma handshake_progress:
  assumes inv: "handshake_inv s" and stuck: "\<nexists>s'. handshake_step s s'"
  shows "p_host s = HIdle \<and> p_todo s = [] \<and> p_box s = BSleep"
proof -
  have h: "p_host s = HSleep \<or> p_host s = HIdle \<and> p_todo s = []"
    using host_can_step [of s] stuck by (auto simp: handshake_step_def)
  have b: "p_box s = BSleep \<or> (\<exists>n. p_box s = BCbSleep n)"
    using box_can_step [of s] stuck by (auto simp: handshake_step_def)
  show ?thesis using h b inv by (auto simp: handshake_inv_def split: if_splits)
qed

section \<open>A run\<close>

text \<open>One request without callbacks, from the host's store to both threads at rest.\<close>

abbreviation hs_state :: "int \<Rightarrow> host_pc \<Rightarrow> box_pc \<Rightarrow> nat list \<Rightarrow> handshake" where
  "hs_state st h b todo \<equiv> \<lparr>p_state = st, p_host = h, p_box = b, p_todo = todo, p_spurious = 0\<rparr>"

lemma hs_steps:
  "handshake_step (hs_state PBOX_STATE_IDLE HIdle b (c # cs)) (hs_state PBOX_STATE_REQUEST HWake b (c # cs))"
  "handshake_step (hs_state PBOX_STATE_REQUEST h BLoad (c # cs)) (hs_state PBOX_STATE_REQUEST h (BServe c) (c # cs))"
  "handshake_step (hs_state st h (BServe 0) cs) (hs_state PBOX_STATE_RESPONSE h BRespWake cs)"
  "handshake_step (hs_state st h BRespWake cs) (hs_state st (woken_host h) BLoad cs)"
  "handshake_step (hs_state st HWake b cs) (hs_state st HLoad (woken_box b) cs)"
  "handshake_step (hs_state PBOX_STATE_RESPONSE HLoad b cs) (hs_state PBOX_STATE_RESPONSE HGot b cs)"
  "handshake_step (hs_state st HGot b (c # cs)) (hs_state PBOX_STATE_IDLE HIdle b cs)"
  "handshake_step (hs_state PBOX_STATE_IDLE h BLoad cs) (hs_state PBOX_STATE_IDLE h (BWait PBOX_STATE_IDLE) cs)"
  "handshake_step (hs_state v h (BWait v) cs) (hs_state v h BSleep cs)"
  using host_request [of "hs_state PBOX_STATE_IDLE HIdle b (c # cs)"] box_request [of "hs_state PBOX_STATE_REQUEST h BLoad (c # cs)"]
    box_response [of "hs_state st h (BServe 0) cs"] box_resp_wake [of "hs_state st h BRespWake cs"]
    host_wake [of "hs_state st HWake b cs"] host_response [of "hs_state PBOX_STATE_RESPONSE HLoad b cs"]
    host_done [of "hs_state st HGot b (c # cs)"] box_other [of "hs_state PBOX_STATE_IDLE h BLoad cs"]
    box_sleep [of "hs_state v h (BWait v) cs" v]
  by (simp_all add: handshake_step_def)

lemma then_step: "handshake_step s t \<Longrightarrow> handshake_step\<^sup>*\<^sup>* t u \<Longrightarrow> handshake_step\<^sup>*\<^sup>* s u"
  by (rule converse_rtranclp_into_rtranclp)

lemma handshake_serves_one:
  "handshake_step\<^sup>*\<^sup>* (handshake_start [0] 0) (hs_state PBOX_STATE_IDLE HIdle BSleep [])"
proof -
  have "handshake_step\<^sup>*\<^sup>* (hs_state PBOX_STATE_IDLE HIdle BLoad [0]) (hs_state PBOX_STATE_RESPONSE HWake BRespWake [0])"
    by (rule then_step [OF hs_steps(1)], rule then_step [OF hs_steps(2)],
        rule then_step [OF hs_steps(3)], rule rtranclp.rtrancl_refl)
  also have "handshake_step\<^sup>*\<^sup>* (hs_state PBOX_STATE_RESPONSE HWake BRespWake [0]) (hs_state PBOX_STATE_IDLE HIdle BLoad [])"
    using then_step [OF hs_steps(4) [of PBOX_STATE_RESPONSE HWake "[0]", simplified] then_step [OF hs_steps(5)
        [of PBOX_STATE_RESPONSE BLoad "[0]", simplified] then_step [OF hs_steps(6) [of BLoad "[0]"]
        then_step [OF hs_steps(7) [of PBOX_STATE_RESPONSE BLoad 0 "[]"] rtranclp.rtrancl_refl]]]] by simp
  also have "handshake_step\<^sup>*\<^sup>* (hs_state PBOX_STATE_IDLE HIdle BLoad []) (hs_state PBOX_STATE_IDLE HIdle BSleep [])"
    by (rule then_step [OF hs_steps(8)], rule then_step [OF hs_steps(9)],
        rule rtranclp.rtrancl_refl)
  finally show ?thesis by (simp add: handshake_start_def)
qed

lemma served_is_stuck: "\<nexists>s'. handshake_step (hs_state PBOX_STATE_IDLE HIdle BSleep []) s'"
  by (auto simp: handshake_step_def elim!: host_step.cases box_pc_step.cases)

section \<open>What the handshake guarantees\<close>

text \<open>C13: every schedule of the handshake ends. With requests that make the callback counts of \<open>todo\<close>
  ahead, and at most \<open>k\<close> spurious wakeups, no interleaving of the host thread and the worker takes
  more than \<open>12 * (2 * c + 3)\<close> atomic steps for each request with \<open>c\<close> callbacks (plus two steps of the
  idle worker and three for every spurious wakeup): neither wait loop can spin.\<close>

theorem handshake_terminates:
  assumes "(handshake_step ^^ n) (handshake_start todo k) s"
  shows "n \<le> 12 * (\<Sum>c\<leftarrow>todo. 2 * c + 3) + 2 + 3 * k"
proof -
  have "n \<le> steps_left (handshake_start todo k)"
    using handshake_run_bound [OF assms handshake_start_inv] by simp
  also have "\<dots> = 12 * request_changes todo + 2 + 3 * k"
    by (simp add: steps_left_def changes_left_def changes_now_def handshake_start_def)
  finally show ?thesis by (simp only: request_changes_def)
qed

theorem handshake_terminates_witness:
  "\<exists>s. (handshake_step ^^ 2) (handshake_start [1] 0) s \<and> 2 \<le> 12 * (\<Sum>c\<leftarrow>[1::nat]. 2 * c + 3) + 2 + 3 * (0::nat)"
proof -
  let ?s = "handshake_start [1] 0"
  let ?t = "?s\<lparr>p_state := PBOX_STATE_REQUEST, p_host := HWake\<rparr>"
  have "handshake_step ?s ?t" using host_request [of ?s] by (simp add: handshake_step_def handshake_start_def)
  moreover have "handshake_step ?t (?t\<lparr>p_box := BServe (hd (p_todo ?t))\<rparr>)"
    using box_request [of ?t] by (simp add: handshake_step_def handshake_start_def)
  ultimately have r: "(handshake_step ^^ 2) ?s (?t\<lparr>p_box := BServe (hd (p_todo ?t))\<rparr>)"
    by (auto simp: numeral_2_eq_2)
  from r handshake_terminates [OF r] show ?thesis by blast
qed

text \<open>C4: no wakeup is lost and there is no deadlock. However the two threads are interleaved, and whatever
  spurious wakeups the kernel delivers, the handshake can only come to rest when every request of the
  host thread has had its response: the host is idle with nothing left to ask, the worker sleeps on
  the word \<open>IDLE\<close>. With the bound on the number of steps, every request and every callback completes.\<close>

theorem handshake_no_lost_wakeup:
  assumes "handshake_step\<^sup>*\<^sup>* (handshake_start todo k) s" and "\<nexists>s'. handshake_step s s'"
  shows "p_host s = HIdle \<and> p_todo s = [] \<and> p_box s = BSleep \<and> p_state s = PBOX_STATE_IDLE"
proof -
  have inv: "handshake_inv s" by (rule handshake_reachable_inv [OF assms(1)])
  have "p_host s = HIdle \<and> p_todo s = [] \<and> p_box s = BSleep" by (rule handshake_progress [OF inv assms(2)])
  with inv show ?thesis unfolding handshake_inv_def by simp
qed

theorem handshake_no_lost_wakeup_witness:
  "p_todo (\<lparr>p_state = PBOX_STATE_IDLE, p_host = HIdle, p_box = BSleep, p_todo = [], p_spurious = 0\<rparr>) = []
   \<and> handshake_step\<^sup>*\<^sup>* (handshake_start [0] 0) \<lparr>p_state = PBOX_STATE_IDLE, p_host = HIdle, p_box = BSleep, p_todo = [], p_spurious = 0\<rparr>"
  using handshake_no_lost_wakeup [OF handshake_serves_one served_is_stuck] handshake_serves_one by simp

text \<open>C21: the channel's shared memory has one owner at a time. In no interleaving is the host reading or
  writing it (dispatching a callback, reading a result, filling in the next request) while the worker
  serves a request and may touch it; and the worker serves only under the state \<open>REQUEST\<close> that the
  host posted.\<close>

theorem handshake_exclusive:
  assumes "handshake_step\<^sup>*\<^sup>* (handshake_start todo k) s" and "box_serving (p_box s)"
  shows "p_host s \<notin> {HIdle, HGot, HDispatch} \<and> p_state s = PBOX_STATE_REQUEST"
proof -
  have "handshake_inv s" by (rule handshake_reachable_inv [OF assms(1)])
  with assms(2) show ?thesis by (cases "p_box s") (auto simp: handshake_inv_def split: if_splits)
qed

theorem handshake_exclusive_witness:
  "\<exists>s. handshake_step\<^sup>*\<^sup>* (handshake_start [0] 0) s \<and> p_box s = BServe 0 \<and> p_host s \<notin> {HIdle, HGot, HDispatch}"
proof -
  let ?s = "hs_state PBOX_STATE_REQUEST HWake (BServe 0) [0]"
  have r: "handshake_step\<^sup>*\<^sup>* (handshake_start [0] 0) ?s"
    unfolding handshake_start_def
    by (rule then_step [OF hs_steps(1)], rule then_step [OF hs_steps(2)],
        rule rtranclp.rtrancl_refl)
  have "p_host ?s \<notin> {HIdle, HGot, HDispatch}" using handshake_exclusive [OF r] by simp
  with r show ?thesis by (intro exI [of _ ?s]) simp
qed

end
