(* ===== verification/CxxTypes.thy ===== *)
theory CxxTypes
  imports FfiTypes
begin

text \<open>
  The compile-time part of the C++ wrapper (\<open>include/sbox/sbox.hh\<close> and the type map of
  \<open>include/sbox/process.hh\<close>): C++ types, the traits on the wrappers \<open>sbox<T*>\<close> and \<open>sbox_safe<T*>\<close>,
  the check of the arguments of a typed call, the conversion of an argument to its parameter type
  and the map to the type codes of the C library. A program that does not compile is \<open>None\<close> (for a
  value or a type) or \<open>False\<close> (for a check). Values are objects, lists of bytes of the type's size.
\<close>

section \<open>Types\<close>

text \<open>
  \<open>CCv c v t\<close> is \<open>t\<close> with \<open>const\<close> (\<open>c\<close>) or \<open>volatile\<close> (\<open>v\<close>); \<open>CClass n sz\<close> a trivially copyable class;
  \<open>CSbox t\<close> and \<open>CSafe t\<close> are \<open>sbox<t*>\<close> and \<open>sbox_safe<t*>\<close>; \<open>CSandbox\<close> is \<open>Sandbox<Backend>\<close>.
\<close>

datatype cxx_type =
    CVoid | CBool | CChar | CSChar | CUChar | CShort | CUShort | CInt | CUInt
  | CLong | CULong | CLLong | CULLong | CFloat | CDouble | CLongDouble
  | CClass string nat | CPtr cxx_type | CRef cxx_type | CFun cxx_type "cxx_type list"
  | CCv bool bool cxx_type | CSbox cxx_type | CSafe cxx_type | CSandbox

text \<open>\<open>sizeof\<close> for LP64, the data model of both targets.\<close>

fun cxx_size :: "cxx_type \<Rightarrow> nat option" where
  "cxx_size CBool = Some 1"
| "cxx_size CChar = Some 1"
| "cxx_size CSChar = Some 1"
| "cxx_size CUChar = Some 1"
| "cxx_size CShort = Some 2"
| "cxx_size CUShort = Some 2"
| "cxx_size CInt = Some 4"
| "cxx_size CUInt = Some 4"
| "cxx_size CLong = Some 8"
| "cxx_size CULong = Some 8"
| "cxx_size CLLong = Some 8"
| "cxx_size CULLong = Some 8"
| "cxx_size CFloat = Some 4"
| "cxx_size CDouble = Some 8"
| "cxx_size CLongDouble = Some 16"
| "cxx_size (CClass n sz) = Some sz"
| "cxx_size (CPtr t) = Some 8"
| "cxx_size (CRef t) = cxx_size t"
| "cxx_size (CCv c v t) = cxx_size t"
| "cxx_size (CSbox t) = Some 8"
| "cxx_size (CSafe t) = Some 8"
| "cxx_size t = None"

definition has_type :: "cxx_type \<Rightarrow> byte list \<Rightarrow> bool" where
  "has_type t v \<longleftrightarrow> cxx_size t = Some (length v)"

fun remove_cv :: "cxx_type \<Rightarrow> cxx_type" where
  "remove_cv (CCv c v t) = t"
| "remove_cv t = t"

fun remove_reference :: "cxx_type \<Rightarrow> cxx_type" where
  "remove_reference (CRef t) = t"
| "remove_reference t = t"

text \<open>\<open>std::is_pointer_v\<close> looks through a top-level qualifier, as does \<open>std::remove_pointer_t\<close>.\<close>

definition is_pointer :: "cxx_type \<Rightarrow> bool" where
  "is_pointer t = (case remove_cv t of CPtr u \<Rightarrow> True | _ \<Rightarrow> False)"

definition remove_pointer :: "cxx_type \<Rightarrow> cxx_type" where
  "remove_pointer t = (case remove_cv t of CPtr u \<Rightarrow> u | _ \<Rightarrow> t)"

definition is_function :: "cxx_type \<Rightarrow> bool" where
  "is_function t = (case t of CFun r ps \<Rightarrow> True | _ \<Rightarrow> False)"

section \<open>Traits of the sandbox pointers\<close>

definition is_sbox_ptr :: "cxx_type \<Rightarrow> bool" where
  "is_sbox_ptr t = (case remove_cv (remove_reference t) of CSbox u \<Rightarrow> True | _ \<Rightarrow> False)"

definition is_sbox_safe_ptr :: "cxx_type \<Rightarrow> bool" where
  "is_sbox_safe_ptr t = (case remove_cv (remove_reference t) of CSafe u \<Rightarrow> True | _ \<Rightarrow> False)"

definition sbox_inner_type :: "cxx_type \<Rightarrow> cxx_type" where
  "sbox_inner_type t =
     (case remove_cv (remove_reference t) of CSbox u \<Rightarrow> CPtr u | CSafe u \<Rightarrow> CPtr u | u \<Rightarrow> u)"

text \<open>Pointer parameters take wrapped pointers of a matching type only.\<close>

definition check_sbox_ptr_arg :: "cxx_type \<Rightarrow> cxx_type \<Rightarrow> bool" where
  "check_sbox_ptr_arg param arg =
     (if \<not> is_pointer param then True
      else if \<not> is_sbox_ptr arg \<and> \<not> is_sbox_safe_ptr arg then False
      else if is_function (remove_pointer param) then sbox_inner_type arg = param
      else remove_cv (remove_pointer param) = remove_cv (remove_pointer (sbox_inner_type arg)))"

text \<open>The static assertions of a call through \<open>TypedName\<close>.\<close>

definition typed_call_ok :: "cxx_type list \<Rightarrow> cxx_type list \<Rightarrow> bool" where
  "typed_call_ok params args \<longleftrightarrow>
     length params = length args \<and> list_all (\<lambda>(p, a). check_sbox_ptr_arg p a) (zip params args)"

text \<open>The type of the result of a call, and what \<open>unwrap_sbox_arg\<close> and the callback thunk do to types.\<close>

definition wrap_sbox_return :: "cxx_type \<Rightarrow> cxx_type" where
  "wrap_sbox_return t = (if is_pointer t then CSbox (remove_pointer t) else t)"

definition unwrap_sbox_arg :: "cxx_type \<Rightarrow> cxx_type" where
  "unwrap_sbox_arg t = (if is_sbox_ptr t \<or> is_sbox_safe_ptr t then sbox_inner_type t else t)"

fun unwrap_sbox_type :: "cxx_type \<Rightarrow> cxx_type" where
  "unwrap_sbox_type (CSbox t) = CPtr t"
| "unwrap_sbox_type t = t"

fun sig_return :: "cxx_type \<Rightarrow> cxx_type option" where
  "sig_return (CFun r ps) = Some r"
| "sig_return t = None"

section \<open>Conversions\<close>

definition is_integral :: "cxx_type \<Rightarrow> bool" where
  "is_integral t \<longleftrightarrow> t \<in> {CBool, CChar, CSChar, CUChar, CShort, CUShort, CInt, CUInt, CLong, CULong, CLLong, CULLong}"

definition is_floating :: "cxx_type \<Rightarrow> bool" where
  "is_floating t \<longleftrightarrow> t \<in> {CFloat, CDouble, CLongDouble}"

text \<open>Plain \<open>char\<close> is signed on x86-64 and unsigned on AArch64 Linux; \<open>ch\<close> says which.\<close>

definition is_signed :: "bool \<Rightarrow> cxx_type \<Rightarrow> bool" where
  "is_signed ch t \<longleftrightarrow> t \<in> {CSChar, CShort, CInt, CLong, CLLong} \<or> t = CChar \<and> ch"

definition integer_value :: "bool \<Rightarrow> cxx_type \<Rightarrow> byte list \<Rightarrow> int" where
  "integer_value ch t v =
     (let u = int (le_nat v) in
      if is_signed ch t \<and> 256 ^ length v \<le> 2 * u then u - 256 ^ length v else u)"

text \<open>
  \<open>static_cast\<close> between arithmetic types: integers modulo the width of the target, \<open>bool\<close> by
  comparison with zero. Conversions from or to a floating type are those of the compiler, the
  parameter \<open>fp\<close>.
\<close>

definition integral_cast :: "bool \<Rightarrow> cxx_type \<Rightarrow> cxx_type \<Rightarrow> byte list \<Rightarrow> byte list" where
  "integral_cast ch to from v =
     (if to = CBool then [if integer_value ch from v = 0 then 0 else 1]
      else let n = the (cxx_size to) in nat_le n (nat (integer_value ch from v mod 256 ^ n)))"

definition static_cast ::
  "bool \<Rightarrow> (cxx_type \<Rightarrow> cxx_type \<Rightarrow> byte list \<Rightarrow> byte list) \<Rightarrow> cxx_type \<Rightarrow> cxx_type \<Rightarrow> byte list \<Rightarrow> byte list option" where
  "static_cast ch fp to from v =
     (if to = from \<and> cxx_size to \<noteq> None then Some v
      else if is_integral to \<and> is_integral from then Some (integral_cast ch to from v)
      else if (is_integral to \<or> is_floating to) \<and> (is_integral from \<or> is_floating from) then Some (fp to from v)
      else None)"

text \<open>
  \<open>reinterpret_cast\<close> of a pointer: to a pointer that keeps every qualifier, or to an integer that
  is large enough.
\<close>

fun cv_of :: "cxx_type \<Rightarrow> bool \<times> bool" where
  "cv_of (CCv c v t) = (c, v)"
| "cv_of t = (False, False)"

fun keeps_cv :: "cxx_type \<Rightarrow> cxx_type \<Rightarrow> bool" where
  "keeps_cv (CPtr t) u =
     (case remove_cv u of
        CPtr s \<Rightarrow> (fst (cv_of t) \<longrightarrow> fst (cv_of s)) \<and> (snd (cv_of t) \<longrightarrow> snd (cv_of s)) \<and> keeps_cv t s
      | _ \<Rightarrow> True)"
| "keeps_cv (CCv c v t) u = keeps_cv t (remove_cv u)"
| "keeps_cv t u = True"

definition reinterpret_ok :: "cxx_type \<Rightarrow> cxx_type \<Rightarrow> bool" where
  "reinterpret_ok to from \<longleftrightarrow>
     (is_pointer to \<and> keeps_cv from to) \<or> to \<in> {CLong, CULong, CLLong, CULLong}"

definition reinterpret_cast :: "cxx_type \<Rightarrow> cxx_type \<Rightarrow> byte list \<Rightarrow> byte list option" where
  "reinterpret_cast to from v = (if reinterpret_ok to from then Some v else None)"

text \<open>\<open>convert_call_arg\<close>, which \<open>Sandbox::convert_arg\<close> repeats in every backend.\<close>

definition convert_call_arg ::
  "bool \<Rightarrow> (cxx_type \<Rightarrow> cxx_type \<Rightarrow> byte list \<Rightarrow> byte list) \<Rightarrow> cxx_type \<Rightarrow> cxx_type \<Rightarrow> byte list \<Rightarrow> byte list option" where
  "convert_call_arg ch fp to from v =
     (if is_sbox_ptr from \<or> is_sbox_safe_ptr from then reinterpret_cast to (sbox_inner_type from) v
      else if is_pointer to \<and> is_pointer from then reinterpret_cast to from v
      else static_cast ch fp to from v)"

fun convert_args ::
  "bool \<Rightarrow> (cxx_type \<Rightarrow> cxx_type \<Rightarrow> byte list \<Rightarrow> byte list) \<Rightarrow> cxx_type list \<Rightarrow> (cxx_type \<times> byte list) list \<Rightarrow>
     byte list list option" where
  "convert_args ch fp [] [] = Some []"
| "convert_args ch fp (p # ps) ((t, v) # xs) =
     (case convert_call_arg ch fp p t v of
        None \<Rightarrow> None
      | Some u \<Rightarrow> map_option (\<lambda>us. u # us) (convert_args ch fp ps xs))"
| "convert_args ch fp ps xs = None"

section \<open>Type codes\<close>

text \<open>\<open>pbox_type\<close>; a type without a specialisation does not compile.\<close>

fun pbox_type :: "cxx_type \<Rightarrow> PBoxType option" where
  "pbox_type CVoid = Some PBOX_TYPE_VOID"
| "pbox_type CFloat = Some PBOX_TYPE_FLOAT"
| "pbox_type CDouble = Some PBOX_TYPE_DOUBLE"
| "pbox_type CChar = Some PBOX_TYPE_SINT8"
| "pbox_type CSChar = Some PBOX_TYPE_SINT8"
| "pbox_type CUChar = Some PBOX_TYPE_UINT8"
| "pbox_type CShort = Some PBOX_TYPE_SINT16"
| "pbox_type CUShort = Some PBOX_TYPE_UINT16"
| "pbox_type CInt = Some PBOX_TYPE_SINT32"
| "pbox_type CUInt = Some PBOX_TYPE_UINT32"
| "pbox_type CLong = Some (if cxx_size CLong = Some 8 then PBOX_TYPE_SINT64 else PBOX_TYPE_SINT32)"
| "pbox_type CULong = Some (if cxx_size CULong = Some 8 then PBOX_TYPE_UINT64 else PBOX_TYPE_UINT32)"
| "pbox_type CLLong = Some PBOX_TYPE_SINT64"
| "pbox_type CULLong = Some PBOX_TYPE_UINT64"
| "pbox_type (CPtr t) = Some PBOX_TYPE_POINTER"
| "pbox_type (CSbox t) = Some PBOX_TYPE_POINTER"
| "pbox_type t = None"

definition pbox_type_v :: "cxx_type \<Rightarrow> PBoxType" where
  "pbox_type_v t = the (pbox_type t)"

text \<open>A C type and its code describe the same number of bytes; only enumerators are used.\<close>

lemma pbox_type_size_matches:
  "pbox_type t = Some p \<Longrightarrow> pbox_type_wf p \<and> (if t = CVoid then p = PBOX_TYPE_VOID else cxx_size t = Some (pbox_type_size p))"
  by (cases t) auto

lemma pbox_type_matches:
  assumes "pbox_type t \<noteq> None"
  shows "pbox_type_wf (pbox_type_v t)" "t \<noteq> CVoid \<Longrightarrow> cxx_size t = Some (pbox_type_size (pbox_type_v t))"
  using assms pbox_type_size_matches [of t] by (auto simp: pbox_type_v_def split: if_splits)

section \<open>Conversions keep the types\<close>

text \<open>What is required of the compiler's floating-point conversions: the result is an object of the target type.\<close>

definition fp_typed :: "(cxx_type \<Rightarrow> cxx_type \<Rightarrow> byte list \<Rightarrow> byte list) \<Rightarrow> bool" where
  "fp_typed fp \<longleftrightarrow> (\<forall>to from v n. cxx_size to = Some n \<longrightarrow> length (fp to from v) = n)"

lemma arithmetic_size: "is_integral t \<or> is_floating t \<Longrightarrow> \<exists>n. cxx_size t = Some n"
  by (auto simp: is_integral_def is_floating_def)

lemma pointer_size: "is_pointer t \<Longrightarrow> cxx_size t = Some 8"
  by (cases t) (auto simp: is_pointer_def split: cxx_type.splits)

lemma sbox_size: "is_sbox_ptr t \<or> is_sbox_safe_ptr t \<Longrightarrow> cxx_size t = Some 8"
  unfolding is_sbox_ptr_def is_sbox_safe_ptr_def
  by (cases t rule: remove_reference.cases) (auto split: cxx_type.splits elim: remove_cv.elims)

lemma static_cast_typed:
  assumes "fp_typed fp" "has_type from v" "static_cast ch fp to from v = Some u"
  shows "has_type to u"
proof (cases "to = from \<and> cxx_size to \<noteq> None")
  case True
  with assms show ?thesis by (auto simp: static_cast_def)
next
  case False
  then obtain n where n: "cxx_size to = Some n"
    using assms(3) arithmetic_size [of to] by (auto simp: static_cast_def split: if_splits)
  have "is_integral to \<and> is_integral from \<Longrightarrow> length (integral_cast ch to from v) = n"
    using n by (auto simp: integral_cast_def Let_def)
  then show ?thesis
    using False assms(1,3) n by (auto simp: static_cast_def has_type_def fp_typed_def split: if_splits)
qed

lemma reinterpret_cast_typed:
  "length v = 8 \<Longrightarrow> reinterpret_cast to from v = Some u \<Longrightarrow> has_type to u"
  using pointer_size by (auto simp: reinterpret_cast_def reinterpret_ok_def has_type_def split: if_splits)

lemma convert_call_arg_typed:
  assumes "fp_typed fp" "has_type from v" "convert_call_arg ch fp to from v = Some u"
  shows "has_type to u"
proof (cases "is_sbox_ptr from \<or> is_sbox_safe_ptr from")
  case True
  with assms show ?thesis
    using sbox_size [OF True] reinterpret_cast_typed by (simp add: convert_call_arg_def has_type_def)
next
  case sbox: False
  show ?thesis
  proof (cases "is_pointer to \<and> is_pointer from")
    case True
    with assms sbox show ?thesis
      using pointer_size [of "from"] reinterpret_cast_typed by (simp add: convert_call_arg_def has_type_def)
  next
    case False
    with assms sbox show ?thesis
      using static_cast_typed [OF assms(1,2)] by (simp add: convert_call_arg_def)
  qed
qed

lemma convert_args_typed:
  assumes "fp_typed fp" "list_all (\<lambda>(t, v). has_type t v) xs" "convert_args ch fp ps xs = Some us"
  shows "list_all2 has_type ps us \<and> length xs = length ps"
  using assms(2,3)
proof (induction ps xs arbitrary: us rule: list_induct2')
  case (4 p ps x xs)
  obtain t v where x: "x = (t, v)" by (cases x)
  from 4 show ?case
    using convert_call_arg_typed [OF assms(1)] by (auto simp: x split: option.splits)
qed auto

text \<open>An integer conversion that can represent the value keeps it.\<close>

lemma integer_value_nat_le:
  assumes "0 \<le> x" "x < 256 ^ n"
  shows "integer_value ch t (nat_le n (nat x)) = (if is_signed ch t \<and> 256 ^ n \<le> 2 * x then x - 256 ^ n else x)"
proof -
  have "nat x < 256 ^ n" using assms by (simp add: nat_less_iff)
  then have "int (le_nat (nat_le n (nat x))) = x" using assms(1) by (simp add: le_nat_nat_le)
  then show ?thesis by (simp add: integer_value_def Let_def)
qed

section \<open>Properties\<close>

text \<open>C8: the compile-time check of a call by \<open>SBOX_FN\<close> lets no raw pointer through. If the static
  assertions of such a call hold, then every parameter of pointer type receives an \<open>sbox<T*>\<close> or
  \<open>sbox_safe<T*>\<close> where \<open>T*\<close> is exactly the parameter's type for a function pointer, and has the
  same pointee up to qualifiers for a data pointer. (A raw \<open>int*\<close>, an \<open>sbox_safe<double*>\<close> for an
  \<open>int*\<close> and a callback of another type are rejected, as the tests in \<open>test/compile_fail\<close> expect;
  so is the raw pointer that \<open>CallContext::inout\<close> returns.)\<close>

theorem typed_call_no_raw_pointers:
  assumes "typed_call_ok params argtypes" "i < length params" "is_pointer (params ! i)"
  shows "\<exists>t. remove_cv (remove_reference (argtypes ! i)) \<in> {CSbox t, CSafe t} \<and>
    (if is_function (remove_pointer (params ! i)) then CPtr t = params ! i
     else remove_cv t = remove_cv (remove_pointer (params ! i)))"
proof -
  have "check_sbox_ptr_arg (params ! i) (argtypes ! i)"
    using assms(1,2) by (auto simp: typed_call_ok_def list_all_length)
  with assms(3) show ?thesis
    by (cases "remove_cv (remove_reference (argtypes ! i))")
      (auto simp: check_sbox_ptr_arg_def is_sbox_ptr_def is_sbox_safe_ptr_def sbox_inner_type_def
        remove_pointer_def [of "CPtr _"] split: if_splits)
qed

theorem typed_call_no_raw_pointers_witness:
  "typed_call_ok [CPtr (CCv True False CInt), CInt] [CSafe CInt, CInt] \<and>
   (\<exists>t. CSafe CInt \<in> {CSbox t, CSafe t} \<and> remove_cv t = CInt) \<and>
   \<not> typed_call_ok [CPtr CInt, CInt] [CPtr CInt, CInt] \<and> \<not> typed_call_ok [CPtr CInt, CInt] [CSafe CDouble, CInt] \<and>
   \<not> typed_call_ok [CPtr (CFun CInt [CInt, CInt])] [CSbox (CFun CDouble [CDouble, CDouble])]"
proof -
  have ok: "typed_call_ok [CPtr (CCv True False CInt), CInt] [CSafe CInt, CInt]"
    by (simp add: typed_call_ok_def check_sbox_ptr_arg_def is_pointer_def is_sbox_ptr_def is_sbox_safe_ptr_def
        sbox_inner_type_def remove_pointer_def is_function_def)
  have bad: "\<not> typed_call_ok [CPtr CInt, CInt] [CPtr CInt, CInt]" "\<not> typed_call_ok [CPtr CInt, CInt] [CSafe CDouble, CInt]"
    "\<not> typed_call_ok [CPtr (CFun CInt [CInt, CInt])] [CSbox (CFun CDouble [CDouble, CDouble])]"
    by (simp_all add: typed_call_ok_def check_sbox_ptr_arg_def is_pointer_def is_sbox_ptr_def is_sbox_safe_ptr_def
        sbox_inner_type_def remove_pointer_def is_function_def)
  show ?thesis
    using ok bad typed_call_no_raw_pointers [OF ok, of 0]
    by (simp add: is_pointer_def remove_pointer_def is_function_def)
qed

end
