(* ===== verification/ProcessBox.thy ===== *)
theory ProcessBox
  imports Memory Lifecycle CxxTypes
begin

text \<open>
  The class \<open>Sandbox<Process>\<close> of \<open>include/sbox/process.hh\<close> with the function handles and callback
  thunks of \<open>include/sbox/sbox.hh\<close>: the typed interface over the C library. The state that the C++ side
  adds to the box is the application's: the thread's \<open>tls_current_sandbox\<close>, the symbol cache, the host
  program's variables. A failing \<open>verify\<close> or an unknown symbol is \<open>Aborts\<close>.
\<close>

section \<open>The application's state\<close>

text \<open>Host variables are numbered; each is an object.\<close>

record 'g app =
  tls_current_sandbox :: u64
  symbol_cache :: "u64 \<Rightarrow> u64 option"
  host_vars :: "nat \<Rightarrow> byte list"
  app_user :: 'g

abbreviation map_app :: "('h \<Rightarrow> 'h) \<Rightarrow> ('m, 'h) world \<Rightarrow> ('m, 'h) world" where
  "map_app f w \<equiv> w\<lparr>h_app := f (h_app w)\<rparr>"

section \<open>The symbol cache\<close>

text \<open>
  \<open>lookup\<close> of the process and passthrough backends, over the search that fills the cache. A null
  result is not cached. Keys are the addresses of the names, which have to be string literals.
\<close>

definition cached_lookup ::
  "('k \<Rightarrow> 'w \<Rightarrow> (u64 \<times> 'w) outcome) \<Rightarrow> ('w \<Rightarrow> 'k \<Rightarrow> u64 option) \<Rightarrow> ('k \<Rightarrow> u64 \<Rightarrow> 'w \<Rightarrow> 'w) \<Rightarrow> 'k \<Rightarrow> 'w \<Rightarrow>
     (u64 \<times> 'w) outcome" where
  "cached_lookup resolve cache store name w =
     (case cache w name of
        Some s \<Rightarrow> Returns (s, w)
      | None \<Rightarrow> and_then (resolve name w) (\<lambda>(sym, w1). Returns (sym, if sym \<noteq> 0 then store name sym w1 else w1)))"

locale symbol_source =
  fixes resolve :: "'k \<Rightarrow> 'w \<Rightarrow> (u64 \<times> 'w) outcome"
    and cache :: "'w \<Rightarrow> 'k \<Rightarrow> u64 option"
    and store :: "'k \<Rightarrow> u64 \<Rightarrow> 'w \<Rightarrow> 'w"
    and addr :: "'k \<Rightarrow> u64"
    and ready :: "'w \<Rightarrow> bool"
  assumes resolve_ready: "ready w \<Longrightarrow> \<exists>w1. resolve n w = Returns (addr n, w1) \<and> ready w1 \<and> cache w1 = cache w"
    and store_ready: "ready w \<Longrightarrow> ready (store n s w)"
    and store_cache: "cache (store n s w) = (cache w)(n \<mapsto> s)"
begin

definition coherent :: "'w \<Rightarrow> bool" where
  "coherent w \<longleftrightarrow> (\<forall>n s. cache w n = Some s \<longrightarrow> s = addr n \<and> s \<noteq> 0)"

lemma lookup_fresh:
  assumes "ready w" "cache w n = None" "addr n \<noteq> 0"
  obtains w1 where "resolve n w = Returns (addr n, w1)" "ready w1" "cache w1 = cache w"
    "cached_lookup resolve cache store n w = Returns (addr n, store n (addr n) w1)"
  using resolve_ready [OF assms(1), of n] assms(2,3) by (auto simp: cached_lookup_def)

lemma lookup_sound:
  assumes "ready w" "coherent w"
  shows "\<exists>w1. cached_lookup resolve cache store n w = Returns (addr n, w1) \<and> ready w1 \<and> coherent w1 \<and>
    cache w1 = (if addr n = 0 then cache w else (cache w)(n \<mapsto> addr n)) \<and> (cache w n \<noteq> None \<longrightarrow> w1 = w)"
proof (cases "cache w n")
  case None
  obtain w1 where "resolve n w = Returns (addr n, w1)" "ready w1" "cache w1 = cache w"
    using resolve_ready [OF assms(1), of n] by auto
  with None assms show ?thesis
    by (auto simp: cached_lookup_def store_ready store_cache coherent_def)
next
  case (Some s)
  with assms(2) have "s = addr n" "s \<noteq> 0" by (auto simp: coherent_def)
  with Some assms show ?thesis by (auto simp: cached_lookup_def)
qed

end

text \<open>The process backend: the search is \<open>pbox_dlsym\<close>; \<open>lits p\<close> is the string literal at \<open>p\<close>.\<close>

definition store_symbol :: "u64 \<Rightarrow> u64 \<Rightarrow> ('m, 'g app) world \<Rightarrow> ('m, 'g app) world" where
  "store_symbol n s w = map_app (\<lambda>h. h\<lparr>symbol_cache := (symbol_cache h)(n \<mapsto> s)\<rparr>) w"

definition lookup ::
  "'m sandbox_env \<Rightarrow> kernel \<Rightarrow> (u64 \<Rightarrow> byte list) \<Rightarrow> u64 \<Rightarrow> ('m, 'g app) world \<Rightarrow> (u64 \<times> ('m, 'g app) world) outcome" where
  "lookup e k lits = cached_lookup (\<lambda>n. pbox_dlsym e k (lits n)) (\<lambda>w. symbol_cache (h_app w)) store_symbol"

section \<open>Calls\<close>

fun fill_arg_types :: "nat \<Rightarrow> cxx_type list \<Rightarrow> PBoxType list \<Rightarrow> PBoxType list" where
  "fill_arg_types i [] types = types"
| "fill_arg_types i (t # ts) types = fill_arg_types (Suc i) ts (types[i := pbox_type_v t])"

text \<open>\<open>arg_ptrs[i] = &arg\<close>: the pointer array is represented by the objects it points to.\<close>

fun fill_arg_ptrs :: "nat \<Rightarrow> byte list list \<Rightarrow> byte list list \<Rightarrow> byte list list" where
  "fill_arg_ptrs i [] ptrs = ptrs"
| "fill_arg_ptrs i (v # vs) ptrs = fill_arg_ptrs (Suc i) vs (ptrs[i := v])"

text \<open>
  \<open>call_impl<Ret, Args...>\<close>: the two arrays have length \<open>max nargs 1\<close> and are written in full. \<open>junk\<close> is
  the uninitialised \<open>result\<close>.
\<close>

definition call_impl ::
  "'m sandbox_env \<Rightarrow> kernel \<Rightarrow> u64 \<Rightarrow> u64 \<Rightarrow> cxx_type \<Rightarrow> cxx_type list \<Rightarrow> byte list list \<Rightarrow> byte list \<Rightarrow>
     ('m, 'g app) world \<Rightarrow> (byte list option \<times> ('m, 'g app) world) outcome" where
  "call_impl e k this fn ret params vs junk w =
     (let w = map_app (\<lambda>h. h\<lparr>tls_current_sandbox := this\<rparr>) w;
          n = length params;
          arg_types = fill_arg_types 0 params (replicate (max n 1) PBOX_TYPE_VOID);
          arg_ptrs = fill_arg_ptrs 0 vs (replicate (max n 1) [])
      in if ret = CVoid
         then pbox_call e k fn PBOX_TYPE_VOID n (if n > 0 then arg_types else []) (if n > 0 then arg_ptrs else []) None w
         else pbox_call e k fn (pbox_type_v ret) n (if n > 0 then arg_types else []) (if n > 0 then arg_ptrs else [])
                (Some junk) w)"

text \<open>What has to hold for \<open>call_impl\<close> to compile: the bound on the arguments, and a code for every type.\<close>

definition call_impl_ok :: "cxx_type \<Rightarrow> cxx_type list \<Rightarrow> bool" where
  "call_impl_ok ret params \<longleftrightarrow>
     length params \<le> PBOX_MAX_ARGS \<and> pbox_type ret \<noteq> None \<and> list_all (\<lambda>t. pbox_type t \<noteq> None \<and> t \<noteq> CVoid) params"

text \<open>
  \<open>call<Ret(Params...)>(name, args...)\<close>; \<open>ch\<close> and \<open>fp\<close> are the target's \<open>char\<close> and floating-point
  conversions. The result type is \<open>wrap_sbox_return ret\<close>, with the same bytes.
\<close>

definition sandbox_call ::
  "'m sandbox_env \<Rightarrow> kernel \<Rightarrow> bool \<Rightarrow> (cxx_type \<Rightarrow> cxx_type \<Rightarrow> byte list \<Rightarrow> byte list) \<Rightarrow> (u64 \<Rightarrow> byte list) \<Rightarrow> u64 \<Rightarrow> u64 \<Rightarrow>
     cxx_type \<Rightarrow> cxx_type list \<Rightarrow> (cxx_type \<times> byte list) list \<Rightarrow> byte list \<Rightarrow> ('m, 'g app) world \<Rightarrow>
     (byte list option \<times> ('m, 'g app) world) outcome" where
  "sandbox_call e k ch fp lits this name ret params xs junk w =
     and_then (lookup e k lits name w)
       (\<lambda>(fn, w1).
          if fn = 0 then Aborts
          else and_then (checked (convert_args ch fp params xs)) (\<lambda>vs. call_impl e k this fn ret params vs junk w1))"

text \<open>\<open>call(TypedName, args...)\<close>: the signature is that of the declaration; the static assertions come first.\<close>

definition sandbox_typed_call ::
  "'m sandbox_env \<Rightarrow> kernel \<Rightarrow> bool \<Rightarrow> (cxx_type \<Rightarrow> cxx_type \<Rightarrow> byte list \<Rightarrow> byte list) \<Rightarrow> (u64 \<Rightarrow> byte list) \<Rightarrow> u64 \<Rightarrow> u64 \<Rightarrow>
     cxx_type \<Rightarrow> cxx_type list \<Rightarrow> (cxx_type \<times> byte list) list \<Rightarrow> byte list \<Rightarrow> ('m, 'g app) world \<Rightarrow>
     (byte list option \<times> ('m, 'g app) world) outcome" where
  "sandbox_typed_call e k ch fp lits this name ret params xs junk w =
     (if typed_call_ok params (map fst xs) then sandbox_call e k ch fp lits this name ret params xs junk w else Aborts)"

text \<open>\<open>fn(name)\<close> and the call of the handle, which does not test the pointer.\<close>

record FnHandle =
  fh_sandbox :: u64
  fh_fn_ptr :: u64

definition sandbox_fn ::
  "'m sandbox_env \<Rightarrow> kernel \<Rightarrow> (u64 \<Rightarrow> byte list) \<Rightarrow> u64 \<Rightarrow> u64 \<Rightarrow> ('m, 'g app) world \<Rightarrow>
     (FnHandle \<times> ('m, 'g app) world) outcome" where
  "sandbox_fn e k lits this name w =
     and_then (lookup e k lits name w) (\<lambda>(fn, w1). Returns (\<lparr>fh_sandbox = this, fh_fn_ptr = fn\<rparr>, w1))"

definition fn_handle_call ::
  "'m sandbox_env \<Rightarrow> kernel \<Rightarrow> bool \<Rightarrow> (cxx_type \<Rightarrow> cxx_type \<Rightarrow> byte list \<Rightarrow> byte list) \<Rightarrow> FnHandle \<Rightarrow>
     cxx_type \<Rightarrow> cxx_type list \<Rightarrow> (cxx_type \<times> byte list) list \<Rightarrow> byte list \<Rightarrow> ('m, 'g app) world \<Rightarrow>
     (byte list option \<times> ('m, 'g app) world) outcome" where
  "fn_handle_call e k ch fp fh ret params xs junk w =
     and_then (checked (convert_args ch fp params xs)) (\<lambda>vs. call_impl e k (fh_sandbox fh) (fh_fn_ptr fh) ret params vs junk w)"

section \<open>Memory\<close>

text \<open>\<open>sizeof(T) * cnt\<close> is a product of \<open>size_t\<close>, which wraps.\<close>

definition object_bytes :: "nat \<Rightarrow> u64 \<Rightarrow> u64" where
  "object_bytes sz cnt = word_of_nat sz * cnt"

definition sandbox_alloc where
  "sandbox_alloc e k junk sz cnt w = pbox_malloc e k junk (object_bytes sz cnt) w"

definition sandbox_calloc where
  "sandbox_calloc e k junk sz cnt w = pbox_calloc e k junk cnt (word_of_nat sz) w"

definition sandbox_realloc where
  "sandbox_realloc e k junk p sz cnt w = pbox_realloc e k junk p (object_bytes sz cnt) w"

definition sandbox_idmem_alloc where
  "sandbox_idmem_alloc e k junk sz cnt w = pbox_idmem_alloc e k junk (object_bytes sz cnt) w"

text \<open>\<open>verify\<close>: the result is the same pointer as an \<open>sbox_safe\<close>, or the program aborts.\<close>

definition verify :: "nat \<Rightarrow> u64 \<Rightarrow> u64 \<Rightarrow> ('m, 'h) world \<Rightarrow> u64 outcome" where
  "verify sz raw cnt w =
     (if raw \<noteq> 0 \<and> \<not> pbox_in_idmem (map (b_tch w) (b_channels w)) raw (object_bytes sz cnt) then Aborts
      else Returns raw)"

text \<open>
  The remaining operations hand their arguments to the C library. The constructor keeps a null box
  when \<open>pbox_create\<close> fails, and the destructor tests for it.
\<close>

definition sandbox_new where "sandbox_new e k mem w = pbox_create e k mem w"

definition sandbox_delete :: "bool \<Rightarrow> ('m, 'h) world \<Rightarrow> ('m, 'h) world outcome" where
  "sandbox_delete created w = (if created then pbox_destroy w else Returns w)"

definition sandbox_free where "sandbox_free e k p w = pbox_free e k p w"

definition sandbox_mmap where "sandbox_mmap e k junk addr len prot flags fd off w = pbox_mmap e k junk addr len prot flags fd off w"

definition sandbox_munmap where "sandbox_munmap e k junk addr len w = pbox_munmap e k junk addr len w"

definition sandbox_mmap_identity where "sandbox_mmap_identity e k junk len prot w = pbox_mmap_identity e k junk len prot w"

definition sandbox_munmap_identity where "sandbox_munmap_identity e k junk addr len w = pbox_munmap_identity e k junk addr len w"

definition sandbox_idmem_reset where "sandbox_idmem_reset w = pbox_idmem_reset w"

definition sandbox_register_fd where "sandbox_register_fd e k fd w = pbox_send_fd e k fd w"

definition sandbox_close_fd where "sandbox_close_fd e k junk fd w = pbox_close e k junk fd w"

definition sandbox_copy_to where "sandbox_copy_to e k dest s w = pbox_copy_to e k dest s w"

definition sandbox_copy_from where "sandbox_copy_from e k dest src w = pbox_copy_from e k dest src w"

text \<open>\<open>copy_string\<close>: \<open>s\<close> is the string without its terminating zero.\<close>

definition copy_string ::
  "'m sandbox_env \<Rightarrow> kernel \<Rightarrow> byte list \<Rightarrow> byte list \<Rightarrow> ('m, 'h) world \<Rightarrow> (u64 \<times> ('m, 'h) world) outcome" where
  "copy_string e k junk s w =
     (let len = length s + 1 in
      and_then (sandbox_alloc e k junk 1 (word_of_nat len) w)
        (\<lambda>(buf, w1). if buf = 0 then Returns (0, w1)
                     else and_then (sandbox_copy_to e k buf (s @ [0]) w1) (\<lambda>w2. Returns (buf, w2))))"

section \<open>Callbacks\<close>

text \<open>
  \<open>register_callback(fn)\<close> for \<open>Ret (*)(Args...)\<close>: the dispatcher is the instance of \<open>callback_dispatch\<close>
  for the signature, so it copies \<open>sizeof(Arg)\<close> bytes for each argument.
\<close>

definition cxx_dispatch :: "(u64 \<Rightarrow> byte list list \<Rightarrow> 'h \<Rightarrow> byte list \<times> 'h) \<Rightarrow> cxx_type \<Rightarrow> cxx_type list \<Rightarrow> 'h dispatch_fn" where
  "cxx_dispatch apply_fn ret params =
     callback_dispatch apply_fn (if ret = CVoid then None else cxx_size ret) (map (\<lambda>t. the (cxx_size t)) params)"

definition register_callback ::
  "'m sandbox_env \<Rightarrow> kernel \<Rightarrow> (u64 \<Rightarrow> byte list list \<Rightarrow> 'h \<Rightarrow> byte list \<times> 'h) \<Rightarrow> u64 \<Rightarrow> cxx_type \<Rightarrow> cxx_type list \<Rightarrow>
     ('m, 'h) world \<Rightarrow> (u64 \<times> ('m, 'h) world) outcome" where
  "register_callback e k apply_fn fn ret params w =
     (let n = length params;
          arg_types = fill_arg_types 0 params (replicate (max n 1) PBOX_TYPE_VOID)
      in pbox_register_callback e k fn (cxx_dispatch apply_fn ret params) (pbox_type_v ret) (int n)
           (if n > 0 then arg_types else []) w)"

text \<open>
  The thunk of \<open>register_callback<fn>()\<close>: its C signature has raw pointers where \<open>fn\<close> has \<open>sbox<T*>\<close>, and
  drops a leading \<open>Sandbox&\<close>, which it fills in from the thread's \<open>tls_current_sandbox\<close>. The bytes of
  an argument are the same.
\<close>

definition takes_sandbox :: "cxx_type list \<Rightarrow> bool" where
  "takes_sandbox params \<longleftrightarrow> params \<noteq> [] \<and> hd params = CRef CSandbox"

definition thunk_params :: "cxx_type list \<Rightarrow> cxx_type list" where
  "thunk_params params = map unwrap_sbox_type (if takes_sandbox params then tl params else params)"

definition thunk_call ::
  "cxx_type list \<Rightarrow> (u64 option \<Rightarrow> byte list list \<Rightarrow> 'g app \<Rightarrow> byte list \<times> 'g app) \<Rightarrow> byte list list \<Rightarrow> 'g app \<Rightarrow>
     byte list \<times> 'g app" where
  "thunk_call params f vs h = f (if takes_sandbox params then Some (tls_current_sandbox h) else None) vs h"

section \<open>Lemmas\<close>

lemma fill_arg_types_eq:
  "i + length ts = length types \<Longrightarrow> fill_arg_types i ts types = take i types @ map pbox_type_v ts"
proof (induction ts arbitrary: i types)
  case (Cons t ts)
  then have "fill_arg_types (Suc i) ts (types[i := pbox_type_v t]) = take (Suc i) (types[i := pbox_type_v t]) @ map pbox_type_v ts"
    by (intro Cons.IH) simp
  moreover have "take (Suc i) (types[i := pbox_type_v t]) = take i types @ [pbox_type_v t]"
    using Cons.prems by (simp add: take_Suc_conv_app_nth)
  ultimately show ?case by simp
qed simp

lemma fill_arg_ptrs_eq: "i + length vs = length ptrs \<Longrightarrow> fill_arg_ptrs i vs ptrs = take i ptrs @ vs"
proof (induction vs arbitrary: i ptrs)
  case (Cons v vs)
  then have "fill_arg_ptrs (Suc i) vs (ptrs[i := v]) = take (Suc i) (ptrs[i := v]) @ vs"
    by (intro Cons.IH) simp
  moreover have "take (Suc i) (ptrs[i := v]) = take i ptrs @ [v]"
    using Cons.prems by (simp add: take_Suc_conv_app_nth)
  ultimately show ?case by simp
qed simp

text \<open>The arrays \<open>call_impl\<close> passes are the types and the objects of the arguments.\<close>

lemma call_arrays:
  assumes "length vs = length params"
  shows "(if length params > 0 then fill_arg_types 0 params (replicate (max (length params) 1) PBOX_TYPE_VOID) else []) = map pbox_type_v params"
    "(if length params > 0 then fill_arg_ptrs 0 vs (replicate (max (length params) 1) []) else []) = vs"
proof -
  have m: "max (length params) 1 = length params" if "params \<noteq> []" using that by (cases params) simp_all
  have "fill_arg_types 0 params (replicate (length params) PBOX_TYPE_VOID) = map pbox_type_v params"
    using fill_arg_types_eq [of 0 params "replicate (length params) PBOX_TYPE_VOID"] by simp
  with m show "(if length params > 0 then fill_arg_types 0 params (replicate (max (length params) 1) PBOX_TYPE_VOID) else []) = map pbox_type_v params"
    by auto
  have "fill_arg_ptrs 0 vs (replicate (length params) []) = vs"
    using fill_arg_ptrs_eq [of 0 vs "replicate (length params) []"] assms by simp
  with m assms show "(if length params > 0 then fill_arg_ptrs 0 vs (replicate (max (length params) 1) []) else []) = vs"
    by auto
qed

lemma call_impl_eq:
  assumes "length vs = length params"
  shows "call_impl e k this fn ret params vs junk w =
    pbox_call e k fn (if ret = CVoid then PBOX_TYPE_VOID else pbox_type_v ret) (length params) (map pbox_type_v params) vs
      (if ret = CVoid then None else Some junk) (map_app (\<lambda>h. h\<lparr>tls_current_sandbox := this\<rparr>) w)"
  unfolding call_impl_def Let_def call_arrays [OF assms] by simp

lemma pbox_type_void: "pbox_type_v CVoid = PBOX_TYPE_VOID"
  by (simp add: pbox_type_v_def)

text \<open>Arguments of the declared types satisfy the precondition of \<open>pbox_call\<close>.\<close>

lemma typed_args_ok:
  assumes "call_impl_ok ret params" "list_all2 has_type params vs"
  shows "pbox_args_ok (length params) (map pbox_type_v params) vs"
    and "\<And>i. i < length params \<Longrightarrow> length (vs ! i) = pbox_type_size (pbox_type_v (params ! i))"
proof -
  have len: "length vs = length params" using assms(2) by (simp add: list_all2_lengthD)
  have sz: "pbox_type_wf (pbox_type_v (params ! i)) \<and> length (vs ! i) = pbox_type_size (pbox_type_v (params ! i))"
    if "i < length params" for i
  proof -
    have p: "pbox_type (params ! i) \<noteq> None" "params ! i \<noteq> CVoid"
      using assms(1) that by (auto simp: call_impl_ok_def list_all_length)
    have "cxx_size (params ! i) = Some (length (vs ! i))"
      using assms(2) that by (simp add: list_all2_conv_all_nth has_type_def)
    then show ?thesis using pbox_type_matches [OF p(1)] p(2) by simp
  qed
  show "pbox_args_ok (length params) (map pbox_type_v params) vs"
    using assms(1) len sz by (simp add: pbox_args_ok_def call_impl_ok_def)
  show "\<And>i. i < length params \<Longrightarrow> length (vs ! i) = pbox_type_size (pbox_type_v (params ! i))" using sz by blast
qed

section \<open>Properties\<close>

text \<open>A thread that is ready for calls stays so when a symbol has been looked up on its channel.\<close>

abbreviation symbol_address :: "'m sandbox_env \<Rightarrow> (u64 \<Rightarrow> byte list) \<Rightarrow> u64 \<Rightarrow> u64" where
  "symbol_address e lits n \<equiv> e_dlsym e (take 255 (c_string (lits n)))"

lemma call_ready_put_chan:
  "call_ready fn i w \<Longrightarrow> channel_wf c \<Longrightarrow> call_ready fn i (put_chan i c w)"
  by (simp add: call_ready_def)

lemma dlsym_ready:
  assumes "call_ready fn i w"
  obtains c where "\<And>k :: kernel. pbox_dlsym e k s w = Returns (e_dlsym e (take 255 (c_string s)), put_chan i c w)" "channel_wf c"
    "mem_storage c = mem_storage (sb_chan w i)" "sandbox_channel_addr c = sandbox_channel_addr (sb_chan w i)"
proof -
  have r: "h_tls w = Some i" "sb_alive w" "sb_worker w i = AtLoop" "channel_wf (sb_chan w i)"
    using assms by (simp_all add: call_ready_def)
  show thesis
    using r
    by (intro that [of "(sb_chan w i)\<lparr>request_type := PBOX_REQ_DLSYM, symbol_name := take 255 (c_string s @ replicate 255 0) @ [0],
        symbol_addr := e_dlsym e (take 255 (c_string s)), ch_state := PBOX_STATE_IDLE\<rparr>"])
      (simp_all add: pbox_dlsym_def get_or_create_channel_def dlsym_on_result channel_wf_def)
qed

lemma call_ready_map_app [simp]: "call_ready fn i (map_app f w) = call_ready fn i w"
  by (simp add: call_ready_def)

interpretation process_symbols: symbol_source "\<lambda>n. pbox_dlsym e k (lits n)" "\<lambda>w. symbol_cache (h_app w)" store_symbol
  "symbol_address e lits" "call_ready fn i" for e :: "'m sandbox_env" and k lits i and fn :: "u64 \<Rightarrow> byte list list \<Rightarrow> 'g app \<Rightarrow> byte list \<times> 'g app"
proof unfold_locales
  fix w :: "('m, 'g app) world" and n :: u64
  assume w: "call_ready fn i w"
  obtain c where "pbox_dlsym e k (lits n) w = Returns (symbol_address e lits n, put_chan i c w)" "channel_wf c"
    by (rule dlsym_ready [OF w, of e "lits n"]) blast
  then show "\<exists>w1. pbox_dlsym e k (lits n) w = Returns (symbol_address e lits n, w1) \<and> call_ready fn i w1 \<and>
      symbol_cache (h_app w1) = symbol_cache (h_app w)"
    using call_ready_put_chan [OF w] by auto
qed (simp_all add: store_symbol_def)

text \<open>What a coherent cache holds.\<close>

definition cache_coherent :: "'m sandbox_env \<Rightarrow> (u64 \<Rightarrow> byte list) \<Rightarrow> ('m, 'g app) world \<Rightarrow> bool" where
  "cache_coherent e lits w \<longleftrightarrow>
     (\<forall>n s. symbol_cache (h_app w) n = Some s \<longrightarrow> s = symbol_address e lits n \<and> s \<noteq> 0)"

lemma process_coherent: "process_symbols.coherent e lits w = cache_coherent e lits w"
  by (simp add: process_symbols.coherent_def cache_coherent_def)

text \<open>the symbol cache is transparent. On a thread that is ready for calls, \<open>lookup\<close> returns what a
  fresh \<open>pbox_dlsym\<close> would, keeps the cache coherent and the thread ready, stores exactly the
  addresses that are not null, and answers a cached name without any exchange with the sandbox.\<close>

theorem lookup_is_dlsym:
  assumes "call_ready fn i w" "cache_coherent e lits w"
  shows "\<exists>w1. lookup e k lits n w = Returns (symbol_address e lits n, w1) \<and> call_ready fn i w1 \<and> cache_coherent e lits w1 \<and>
    symbol_cache (h_app w1) = (if symbol_address e lits n = 0 then symbol_cache (h_app w)
       else (symbol_cache (h_app w))(n \<mapsto> symbol_address e lits n)) \<and>
    (symbol_cache (h_app w) n \<noteq> None \<longrightarrow> w1 = w)"
  using process_symbols.lookup_sound [OF assms(1), of e lits k n] assms(2)
  unfolding process_coherent lookup_def .

text \<open>A box without callbacks whose first thread has its channel and its arena.\<close>

definition cxx_registry :: "'h callback_registry" where
  "cxx_registry = \<lparr>callbacks = replicate 64 \<lparr>cb_func_ptr = 0, cb_dispatch = (\<lambda>_ _ _ _ _. None), cb_ret_type = PBOX_TYPE_VOID,
     cb_nargs = 0, cb_arg_types = replicate 10 PBOX_TYPE_VOID, cb_sandbox_closure = 0\<rparr>, callback_count = 0\<rparr>"

definition cxx_world :: "'m \<Rightarrow> 'h \<Rightarrow> ('m, 'h) world" where
  "cxx_world m h = \<lparr>
     sb_chan = (\<lambda>_. zero_channel\<lparr>sandbox_channel_addr := 0x7F0000002000\<rparr>),
     sb_worker = (\<lambda>i. if i < 2 then AtLoop else NoWorker), sb_table = (\<lambda>_. fresh_table),
     sb_proc = \<lparr>pr_mem = m, pr_fds = Map.empty, pr_window = []\<rparr>, sb_sock = [], sb_alive = True,
     h_fds = Map.empty, h_held = {#}, h_next = 2, h_app = h, h_tls = Some 1,
     b_sock_fd = 0, b_control_shm_fd = 1, b_channels = [1], b_channel_cap = 4,
     b_tch = (\<lambda>_. example_region),
     b_sym_malloc = 1, b_sym_calloc = 2, b_sym_realloc = 3, b_sym_free = 4, b_sym_mmap = 5, b_sym_munmap = 6,
     b_sym_memcpy = 7, b_sym_close = 8, b_fds = empty_fd_cache, b_reg = cxx_registry\<rparr>"

lemma cxx_ready [simp]: "call_ready fn 1 (cxx_world m h)"
  by (simp add: call_ready_def cxx_world_def closures_linked_def registry_wf_def cxx_registry_def registry_typed_def
      channel_wf_def zero_channel_def) (simp add: fresh_table_def)

definition fresh_app :: "'g \<Rightarrow> 'g app" where
  "fresh_app g = \<lparr>tls_current_sandbox = 0, symbol_cache = Map.empty, host_vars = (\<lambda>_. []), app_user = g\<rparr>"

definition cxx_env :: "unit sandbox_env" where
  "cxx_env = example_env\<lparr>e_dlsym := (\<lambda>s. if s = [105] then 0x2000 else 0)\<rparr>"

theorem lookup_is_dlsym_witness:
  "\<exists>w1. lookup cxx_env example_kernel (\<lambda>_. [105, 0]) 64 (cxx_world () (fresh_app ())) = Returns (0x2000, w1) \<and>
    symbol_cache (h_app w1) 64 = Some 0x2000"
proof -
  have coh: "cache_coherent cxx_env (\<lambda>_. [105, 0]) (cxx_world () (fresh_app ()))"
    by (simp add: cache_coherent_def cxx_world_def fresh_app_def)
  have a: "symbol_address cxx_env (\<lambda>_. [105, 0]) 64 = 0x2000" by (simp add: cxx_env_def c_string_def)
  obtain w1 where w1: "lookup cxx_env example_kernel (\<lambda>_. [105, 0]) 64 (cxx_world () (fresh_app ())) = Returns (0x2000, w1)"
    "symbol_cache (h_app w1) = (symbol_cache (h_app (cxx_world () (fresh_app ()))))(64 \<mapsto> 0x2000)"
    using lookup_is_dlsym [OF cxx_ready [of "\<lambda>_ _ h. ([], h)"] coh, of example_kernel 64] unfolding a by auto
  then show ?thesis by (intro exI [of _ w1]) simp
qed

text \<open>The application's state when the library function starts.\<close>

definition calling_app :: "u64 \<Rightarrow> u64 \<Rightarrow> u64 \<Rightarrow> 'g app \<Rightarrow> 'g app" where
  "calling_app this n f h = h\<lparr>symbol_cache := (symbol_cache h)(n \<mapsto> f), tls_current_sandbox := this\<rparr>"

text \<open>\<open>lookup\<close> on a ready thread touches the channel and the cache only.\<close>

lemma lookup_world:
  assumes "call_ready fn i w" "cache_coherent e lits w" "symbol_address e lits n \<noteq> 0"
  obtains c where "\<And>k :: kernel. lookup e k lits n w = Returns (symbol_address e lits n, put_chan i c (store_symbol n (symbol_address e lits n) w))"
    "channel_wf c" "mem_storage c = mem_storage (sb_chan w i)" "sandbox_channel_addr c = sandbox_channel_addr (sb_chan w i)"
proof (cases "symbol_cache (h_app w) n")
  case None
  obtain c where "\<And>k :: kernel. pbox_dlsym e k (lits n) w = Returns (symbol_address e lits n, put_chan i c w)" "channel_wf c"
    "mem_storage c = mem_storage (sb_chan w i)" "sandbox_channel_addr c = sandbox_channel_addr (sb_chan w i)"
    by (rule dlsym_ready [OF assms(1), of e "lits n"]) blast
  with None assms(3) show thesis
    by (intro that [of c]) (simp_all add: lookup_def cached_lookup_def store_symbol_def)
next
  case (Some s)
  with assms(2) have "s = symbol_address e lits n" by (simp add: cache_coherent_def)
  with Some have "(symbol_cache (h_app w))(n \<mapsto> symbol_address e lits n) = symbol_cache (h_app w)" by auto
  then have "put_chan i (sb_chan w i) (store_symbol n (symbol_address e lits n) w) = w"
    by (simp add: store_symbol_def)
  with Some \<open>s = symbol_address e lits n\<close> assms(1) show thesis
    by (intro that [of "sb_chan w i"]) (simp_all add: lookup_def cached_lookup_def call_ready_def)
qed

lemma sandbox_call_direct:
  fixes w :: "('m, 'g app) world"
  assumes ready: "call_ready fn i w" and coh: "cache_coherent e lits w"
    and f: "f = symbol_address e lits n" "f \<noteq> 0"
    and ok: "call_impl_ok ret params" and typed: "list_all (\<lambda>(t, v). has_type t v) xs" "fp_typed fp"
    and conv: "convert_args ch fp params xs = Some vs"
    and frame: "call_frame e f (pbox_type_v ret) (length params) (map pbox_type_v params) vs = Some frame"
    and dir: "direct_call (e_arch e) (e_junk e) fn (b_reg w) (sb_table w i)
       (e_lib e frame ((sb_proc w)\<lparr>pr_window := mem_storage (sb_chan w i)\<rparr>)) (calling_app this n f (h_app w)) = Some (r, p, h)"
    and win: "length (pr_window p) = PBOX_MEM_STORAGE" and junk: "ret = CVoid \<or> has_type ret junk"
  obtains c turns where "channel_wf c" "ch_state c = PBOX_STATE_IDLE" "mem_storage c = pr_window p"
    "sandbox_channel_addr c = sandbox_channel_addr (sb_chan w i)"
    "\<And>k :: kernel. turns \<le> k_turns k \<Longrightarrow> sandbox_call e k ch fp lits this n ret params xs junk w =
       Returns (if ret = CVoid then None else Some (call_result (pbox_type_v ret) r), after_call i c p h w)"
proof -
  have vs: "list_all2 has_type params vs" using convert_args_typed [OF typed(2,1) conv] by simp
  note args = typed_args_ok [OF ok vs]
  have rt: "pbox_type_wf (pbox_type_v ret)" using ok pbox_type_matches(1) by (simp add: call_impl_ok_def)
  let ?w0 = "map_app (calling_app this n f) w"
  let ?ret = "if ret = CVoid then None else Some junk"
  have size: "ret \<noteq> CVoid \<Longrightarrow> length junk = pbox_type_size (pbox_type_v ret)"
    using junk ok pbox_type_matches(2) [of ret] by (auto simp: has_type_def call_impl_ok_def)
  have blit: "ret \<noteq> CVoid \<Longrightarrow> blit junk 0 (call_result (pbox_type_v ret) r) = call_result (pbox_type_v ret) r"
    using size pbox_type_size_le_8 [of "pbox_type_v ret"] by (simp add: blit_def call_result_def)
  obtain cl where look: "\<And>k :: kernel. lookup e k lits n w = Returns (f, put_chan i cl (store_symbol n f w))"
    and cl: "channel_wf cl" "mem_storage cl = mem_storage (sb_chan w i)" "sandbox_channel_addr cl = sandbox_channel_addr (sb_chan w i)"
    unfolding f(1) by (rule lookup_world [OF ready coh]) (use f in auto)
  let ?w1 = "put_chan i cl ?w0"
  have ready1: "call_ready fn i ?w1" using ready cl(1) by (simp add: call_ready_def)
  have dir1: "direct_call (e_arch e) (e_junk e) fn (b_reg ?w1) (sb_table ?w1 i)
       (e_lib e frame ((sb_proc ?w1)\<lparr>pr_window := mem_storage (sb_chan ?w1 i)\<rparr>)) (h_app ?w1) = Some (r, p, h)"
    using dir cl(2) by simp
  have "\<forall>b\<in>set_option ?ret. pbox_type_size (pbox_type_v ret) \<le> length b" using size by simp
  from call_direct [OF ready1 args(1) rt frame dir1 win this] obtain c turns where
    c: "channel_wf c" "ch_state c = PBOX_STATE_IDLE" "mem_storage c = pr_window p"
      "sandbox_channel_addr c = sandbox_channel_addr (sb_chan ?w1 i)"
    and call: "\<And>k :: kernel. turns \<le> k_turns k \<Longrightarrow> pbox_call e k f (pbox_type_v ret) (length params) (map pbox_type_v params) vs ?ret ?w1 =
       Returns (map_option (\<lambda>b. blit b 0 (call_result (pbox_type_v ret) r)) ?ret, after_call i c p h ?w1)"
    by blast
  have len: "length vs = length params" using vs by (simp add: list_all2_lengthD)
  have rtv: "(if ret = CVoid then PBOX_TYPE_VOID else pbox_type_v ret) = pbox_type_v ret" by (simp add: pbox_type_void)
  have start: "map_app (\<lambda>h. h\<lparr>tls_current_sandbox := this\<rparr>) (put_chan i cl (store_symbol n f w)) = ?w1"
    by (simp add: store_symbol_def calling_app_def)
  show thesis
  proof (rule that [OF c(1-3)])
    show "sandbox_channel_addr c = sandbox_channel_addr (sb_chan w i)" using c(4) cl(3) by simp
    fix k :: kernel
    assume k: "turns \<le> k_turns k"
    have "sandbox_call e k ch fp lits this n ret params xs junk w = call_impl e k this f ret params vs junk (put_chan i cl (store_symbol n f w))"
      using look f(2) conv by (simp add: sandbox_call_def)
    also have "\<dots> = Returns (map_option (\<lambda>b. blit b 0 (call_result (pbox_type_v ret) r)) ?ret, after_call i c p h ?w1)"
      unfolding call_impl_eq [OF len] start rtv by (rule call [OF k])
    also have "\<dots> = Returns (if ret = CVoid then None else Some (call_result (pbox_type_v ret) r), after_call i c p h w)"
      using blit by simp
    finally show "sandbox_call e k ch fp lits this n ret params xs junk w =
       Returns (if ret = CVoid then None else Some (call_result (pbox_type_v ret) r), after_call i c p h w)" .
  qed
qed

text \<open>C2: the typed wrapper is the function. Every call \<open>sandbox.call<Ret(Params...)>("f", args...)\<close> that
  compiles, on a thread that is ready for calls, given enough turns of the wait, returns exactly the
  bytes of a \<open>Ret\<close> that the library's \<open>f\<close> returns when it is run directly on the calling convention's
  frame for the converted arguments, with its callbacks run as plain host calls, in which
  \<open>tls_current_sandbox\<close> names this sandbox. The sizes that the type codes imply are the sizes of the
  C++ objects, so no argument is cut and none is read past its end.\<close>

theorem sandbox_call_is_direct_call:
  fixes w :: "('m, 'g app) world"
  assumes "call_ready fn i w" "cache_coherent e lits w" "f = symbol_address e lits n" "f \<noteq> 0"
    and "call_impl_ok ret params" "list_all (\<lambda>(t, v). has_type t v) xs" "fp_typed fp"
    and "convert_args ch fp params xs = Some vs"
    and "call_frame e f (pbox_type_v ret) (length params) (map pbox_type_v params) vs = Some frame"
    and "direct_call (e_arch e) (e_junk e) fn (b_reg w) (sb_table w i)
       (e_lib e frame ((sb_proc w)\<lparr>pr_window := mem_storage (sb_chan w i)\<rparr>)) (calling_app this n f (h_app w)) = Some (r, p, h)"
    and "length (pr_window p) = PBOX_MEM_STORAGE" "ret = CVoid \<or> has_type ret junk"
  shows "\<exists>c turns. \<forall>k. turns \<le> k_turns k \<longrightarrow> sandbox_call e k ch fp lits this n ret params xs junk w =
       Returns (if ret = CVoid then None else Some (call_result (pbox_type_v ret) r), after_call i c p h w)"
proof -
  obtain c turns where "\<And>k :: kernel. turns \<le> k_turns k \<Longrightarrow> sandbox_call e k ch fp lits this n ret params xs junk w =
       Returns (if ret = CVoid then None else Some (call_result (pbox_type_v ret) r), after_call i c p h w)"
    by (rule sandbox_call_direct [OF assms]) blast
  then show ?thesis by blast
qed

text \<open>The example calls \<open>int i(int)\<close>, the identity, with the \<open>short\<close> \<open>-5\<close>.\<close>

definition no_fp :: "cxx_type \<Rightarrow> cxx_type \<Rightarrow> byte list \<Rightarrow> byte list" where
  "no_fp to from v = replicate (case cxx_size to of None \<Rightarrow> 0 | Some n \<Rightarrow> n) 0"

lemma no_fp_typed: "fp_typed no_fp"
  by (simp add: fp_typed_def no_fp_def)

lemma nat_le_4: "nat_le 4 x = [word_of_nat x, word_of_nat (x div 256), word_of_nat (x div 65536), word_of_nat (x div 16777216)]"
proof -
  have "(4 :: nat) = Suc (Suc (Suc (Suc 0)))" by simp
  then show ?thesis by (simp only: nat_le.simps) (simp flip: div_mult2_eq)
qed

lemma cxx_example_args:
  "convert_args True no_fp [CInt] [(CShort, [0xFB, 0xFF])] = Some [[0xFB, 0xFF, 0xFF, 0xFF]]"
proof -
  have v: "integer_value True CShort [0xFB, 0xFF] = - 5"
    by (simp add: integer_value_def is_signed_def)
  have "integral_cast True CInt CShort [0xFB, 0xFF] = [0xFB, 0xFF, 0xFF, 0xFF]"
    unfolding integral_cast_def v by (simp add: nat_le_4)
  then show ?thesis
    by (simp add: convert_call_arg_def is_sbox_ptr_def is_sbox_safe_ptr_def is_pointer_def static_cast_def is_integral_def)
qed

theorem sandbox_call_is_direct_call_witness:
  "\<exists>c turns. \<forall>k. turns \<le> k_turns k \<longrightarrow>
     sandbox_call cxx_env k True no_fp (\<lambda>_. [105, 0]) 16 64 CInt [CInt] [(CShort, [0xFB, 0xFF])] [0, 0, 0, 0] (cxx_world () (fresh_app ())) =
       Returns (Some [0xFB, 0xFF, 0xFF, 0xFF], after_call 1 c \<lparr>pr_mem = (), pr_fds = Map.empty, pr_window = replicate 4096 0\<rparr>
         (calling_app 16 64 0x2000 (fresh_app ())) (cxx_world () (fresh_app ())))"
proof -
  let ?w = "cxx_world () (fresh_app ())"
  let ?p = "\<lparr>pr_mem = (), pr_fds = Map.empty, pr_window = replicate 4096 0\<rparr> :: unit proc"
  have coh: "cache_coherent cxx_env (\<lambda>_. [105, 0]) ?w" by (simp add: cache_coherent_def cxx_world_def fresh_app_def)
  have f: "0x2000 = symbol_address cxx_env (\<lambda>_. [105, 0]) 64" by (simp add: cxx_env_def c_string_def)
  have ok: "call_impl_ok CInt [CInt]" by (simp add: call_impl_ok_def)
  have typed: "list_all (\<lambda>(t, v). has_type t v) [(CShort, [0xFB, 0xFF])]" by (simp add: has_type_def)
  let ?F = "poke64 0 [0xFB, 0xFF, 0xFF, 0xFF]"
  let ?frame = "\<lparr>int_regs = ?F # replicate 7 0, float_regs = replicate 8 0, int_count = 1, float_count = 0,
       stack_args = replicate 4 0, stack_count = 0, func = 0x2000, ret_class = DYFN_CLASS_INT\<rparr> :: DyfnCallArgs"
  have r8: "replicate 8 (0 :: u64) = 0 # replicate 7 0" by (simp flip: replicate_Suc)
  have frame: "call_frame cxx_env 0x2000 (pbox_type_v CInt) (length [CInt]) (map pbox_type_v [CInt]) [[0xFB, 0xFF, 0xFF, 0xFF]] = Some ?frame"
    by (simp add: call_frame_def pbox_type_v_def cxx_env_def example_env_def dyfn_prep_call_def dyfn_prep_arg_def put_reg_def
        zeroed_call_def dyfn_of_code_def r8)
  have p: "(sb_proc ?w)\<lparr>pr_window := mem_storage (sb_chan ?w 1)\<rparr> = ?p"
    by (simp add: cxx_world_def zero_channel_def)
  have dir: "direct_call (e_arch cxx_env) (e_junk cxx_env) (\<lambda>_ _ h. ([], h)) (b_reg ?w) (sb_table ?w 1)
      (e_lib cxx_env ?frame ((sb_proc ?w)\<lparr>pr_window := mem_storage (sb_chan ?w 1)\<rparr>))
      (calling_app 16 64 0x2000 (h_app ?w)) = Some (\<lparr>int_val = ?F, float_val = 0\<rparr>, ?p, calling_app 16 64 0x2000 (fresh_app ()))"
    unfolding p by (simp add: cxx_env_def example_env_def example_lib_def) (simp add: cxx_world_def)
  have "peek64 ?F 4 = [0xFB, 0xFF, 0xFF, 0xFF]" by (rule peek64_poke64) simp_all
  then have res: "call_result (pbox_type_v CInt) \<lparr>int_val = ?F, float_val = 0\<rparr> = [0xFB, 0xFF, 0xFF, 0xFF]"
    by (simp add: call_result_def pbox_type_v_def is_float_type_iff dyfn_of_code_def peek64_def)
  show ?thesis
    using sandbox_call_is_direct_call [OF cxx_ready coh f _ ok typed no_fp_typed cxx_example_args frame dir, of "[0, 0, 0, 0]"]
    by (simp add: res has_type_def)
qed

text \<open>The bytes of \<open>count\<close> objects, when there are fewer than \<open>2^64\<close> of them.\<close>

lemma unat_object_bytes: "sz * unat cnt < 2 ^ 64 \<Longrightarrow> unat (object_bytes sz cnt) = sz * unat cnt"
proof -
  assume l: "sz * unat cnt < 2 ^ 64"
  have "object_bytes sz cnt = word_of_nat (sz * unat cnt)" by (simp add: object_bytes_def)
  then have "unat (object_bytes sz cnt) = sz * unat cnt mod 2 ^ 64" by (simp only: unat_of_nat) simp
  with l show ?thesis by simp
qed

text \<open>C38: \<open>verify\<close> is sound for counts that do not overflow. Whenever it returns, the pointer is the one
  it was given, and it is null or all \<open>count\<close> objects behind it lie in the identity-mapped region of
  one thread's channel; otherwise the program aborts.\<close>

theorem verify_sound:
  assumes "\<forall>j\<in>set (b_channels w). idmem_wf (b_tch w j)" "0 < sz" "0 < cnt" "unat raw + sz * unat cnt < 2 ^ 64"
  shows "verify sz raw cnt w =
    (if raw = 0 \<or> (\<exists>j\<in>set (b_channels w). idmem_mapped (b_tch w j) \<and>
         unat (idmem_base (b_tch w j)) \<le> unat raw \<and>
         unat raw + sz * unat cnt \<le> unat (idmem_base (b_tch w j)) + unat (idmem_size (b_tch w j)))
     then Returns raw else Aborts)"
proof -
  have u: "unat (object_bytes sz cnt) = sz * unat cnt" using assms(4) by (intro unat_object_bytes) simp
  have "0 < unat cnt" using assms(3) by (simp add: word_less_nat_alt)
  then have "0 < object_bytes sz cnt" using u assms(2) by (simp add: word_less_nat_alt)
  then have "pbox_in_idmem (map (b_tch w) (b_channels w)) raw (object_bytes sz cnt) \<longleftrightarrow>
    (\<exists>j\<in>set (b_channels w). idmem_mapped (b_tch w j) \<and> unat (idmem_base (b_tch w j)) \<le> unat raw \<and>
         unat raw + sz * unat cnt \<le> unat (idmem_base (b_tch w j)) + unat (idmem_size (b_tch w j)))"
    using in_idmem_bounds [of "map (b_tch w) (b_channels w)" raw "object_bytes sz cnt"] assms(1,4) u by simp
  then show ?thesis by (simp add: verify_def)
qed

theorem verify_sound_witness:
  "verify 8 0x700000000010 4 (cxx_world () ()) = Returns 0x700000000010 \<and> verify 8 0x700000100000 4 (cxx_world () ()) = Aborts"
  using verify_sound [of "cxx_world () ()" 8 4 "0x700000000010"] verify_sound [of "cxx_world () ()" 8 4 "0x700000100000"]
    example_region_mapped
  by (simp add: cxx_world_def idmem_mapped_def) (simp add: example_region_def)

text \<open>the proviso is needed. \<open>sizeof(T) * count\<close> wraps, so a count that the sandbox supplies can make
  \<open>verify\<close> promote a pointer to \<open>sbox_safe\<close> for more objects than the address space holds: any
  pointer into a mapped region, with \<open>2^(64-j)\<close> objects of \<open>2^j\<close> bytes each.\<close>

theorem verify_count_wraps:
  assumes "j \<in> set (b_channels w)" "idmem_mapped (b_tch w j)"
    and "idmem_base (b_tch w j) \<le> raw" "raw \<le> idmem_base (b_tch w j) + idmem_size (b_tch w j)" "0 < l" "l < 64"
  shows "verify (2 ^ l) raw (2 ^ (64 - l)) w = Returns raw \<and>
    unat (idmem_size (b_tch w j)) < 2 ^ l * unat (2 ^ (64 - l) :: u64)"
proof -
  have "object_bytes (2 ^ l) (2 ^ (64 - l)) = 2 ^ (l + (64 - l))" by (simp add: object_bytes_def power_add)
  also have "\<dots> = (0 :: u64)" using assms(6) by simp
  finally have z: "object_bytes (2 ^ l) (2 ^ (64 - l)) = 0" .
  have "(2 :: nat) ^ (64 - l) < 2 ^ 64" using assms(5,6) by (intro power_strict_increasing) simp_all
  then have "unat (word_of_nat (2 ^ (64 - l)) :: u64) = 2 ^ (64 - l)" by (simp only: unat_of_nat) simp
  then have "unat (2 ^ (64 - l) :: u64) = 2 ^ (64 - l)" by simp
  then have "2 ^ l * unat (2 ^ (64 - l) :: u64) = 2 ^ 64" using assms(6) by (simp flip: power_add)
  moreover have "unat (idmem_size (b_tch w j)) \<le> 2 ^ 32"
    using assms(2) by (auto simp: idmem_mapped_def idmem_wf_def)
  moreover have "pbox_in_idmem (map (b_tch w) (b_channels w)) raw 0"
    using assms(1-4) by (auto simp: pbox_in_idmem_def list_ex_iff Let_def idmem_mapped_def)
  ultimately show ?thesis using z by (simp add: verify_def)
qed

theorem verify_count_wraps_witness:
  "verify 8 0x700000000010 0x2000000000000000 (cxx_world () ()) = Returns 0x700000000010"
  using verify_count_wraps [of 1 "cxx_world () ()" "0x700000000010" 3] example_region_mapped
  by (simp add: cxx_world_def) (simp add: example_region_def)

end
