(* ===== verification/ContextParams.thy ===== *)
theory ContextParams
  imports Prelude
begin

text \<open>
  What the call contexts of the process and the LFI backends share (\<open>include/sbox/process.hh\<close>,
  \<open>include/sbox/lfi.hh\<close>): \<open>in\<close>, \<open>out\<close> and \<open>inout\<close> parameters, each with a block of memory that the
  sandbox can reach, and copy-backs into host variables. The contract of a block allocator for
  contexts is the interface \<open>param_blocks\<close>; its client facts say what the blocks hold.
\<close>

section \<open>Contexts\<close>

text \<open>A copy-back: the host variable, the block and the size of the type.\<close>

record call_context =
  copybacks :: "(nat \<times> u64 \<times> nat) list"
  finalized :: bool

definition new_context :: call_context where
  "new_context = \<lparr>copybacks = [], finalized = False\<rparr>"

datatype param_kind = ParOut | ParIn | ParInOut

text \<open>The parameters of one call, from left to right: their blocks and the context. \<open>None\<close> is an exception.\<close>

fun params_loop ::
  "(param_kind \<Rightarrow> nat \<Rightarrow> call_context \<Rightarrow> 's \<Rightarrow> ((u64 \<times> call_context) option \<times> 's) outcome) \<Rightarrow>
     (param_kind \<times> nat) list \<Rightarrow> call_context \<Rightarrow> 's \<Rightarrow> ((u64 list \<times> call_context) option \<times> 's) outcome" where
  "params_loop step [] c s = Returns (Some ([], c), s)"
| "params_loop step ((d, v) # ops) c s =
     and_then (step d v c s)
       (\<lambda>(r, s1). case r of
          None \<Rightarrow> Returns (None, s1)
        | Some (p, c1) \<Rightarrow>
            and_then (params_loop step ops c1 s1)
              (\<lambda>(x, s2). Returns (map_option (\<lambda>(ps, c2). (p # ps, c2)) x, s2)))"

definition param_copybacks :: "(nat \<Rightarrow> nat) \<Rightarrow> ((param_kind \<times> nat) \<times> u64) list \<Rightarrow> (nat \<times> u64 \<times> nat) list" where
  "param_copybacks n z = map (\<lambda>((d, v), p). (v, p, n v)) (filter (\<lambda>((d, v), p). d \<noteq> ParIn) z)"

section \<open>Interface\<close>

text \<open>
  \<open>safe s q m\<close>: the \<open>m\<close> bytes at \<open>q\<close> are not handed out again. A step takes a new block, which holds the
  variable unless the parameter is \<open>out\<close>, and leaves safe blocks alone. \<open>room s ns\<close>: the provider is set up
  in \<open>s\<close> for blocks of the sizes \<open>ns\<close>, in this order.
\<close>

locale param_blocks =
  fixes step :: "param_kind \<Rightarrow> nat \<Rightarrow> call_context \<Rightarrow> 's \<Rightarrow> ((u64 \<times> call_context) option \<times> 's) outcome"
    and vars :: "'s \<Rightarrow> nat \<Rightarrow> byte list"
    and ld :: "'s \<Rightarrow> u64 \<Rightarrow> nat \<Rightarrow> byte list"
    and safe :: "'s \<Rightarrow> u64 \<Rightarrow> nat \<Rightarrow> bool"
    and room :: "'s \<Rightarrow> nat list \<Rightarrow> bool"
  assumes step_room: "room s (length (vars s v) # ns) \<Longrightarrow> step d v c s = Returns (Some (p, c1), s1) \<Longrightarrow> room s1 ns \<and> vars s1 = vars s"
    and step_context: "room s (length (vars s v) # ns) \<Longrightarrow> step d v c s = Returns (Some (p, c1), s1) \<Longrightarrow>
      finalized c1 = finalized c \<and> copybacks c1 = copybacks c @ (if d = ParIn then [] else [(v, p, length (vars s v))])"
    and step_block: "room s (length (vars s v) # ns) \<Longrightarrow> step d v c s = Returns (Some (p, c1), s1) \<Longrightarrow>
      safe s1 p (length (vars s v)) \<and> (d \<noteq> ParOut \<longrightarrow> ld s1 p (length (vars s v)) = vars s v)"
    and step_safe: "room s (length (vars s v) # ns) \<Longrightarrow> step d v c s = Returns (Some (p, c1), s1) \<Longrightarrow> safe s q m \<Longrightarrow>
      safe s1 q m \<and> ld s1 q m = ld s q m"
begin

definition param_sizes :: "'s \<Rightarrow> (param_kind \<times> nat) list \<Rightarrow> nat list" where
  "param_sizes s ops = map (\<lambda>(d, v). length (vars s v)) ops"

lemma param_sizes_Cons [simp]: "param_sizes s ((d, v) # ops) = length (vars s v) # param_sizes s ops"
  by (simp add: param_sizes_def)

lemma param_sizes_cong: "vars s = vars s' \<Longrightarrow> param_sizes s ops = param_sizes s' ops"
  by (simp add: param_sizes_def)

lemma run_safe:
  "room s (param_sizes s ops) \<Longrightarrow> params_loop step ops c s = Returns (Some (ps, c1), s1) \<Longrightarrow>
     safe s q m \<Longrightarrow> safe s1 q m \<and> ld s1 q m = ld s q m"
proof (induction ops arbitrary: c s ps c1)
  case Nil
  then show ?case by simp
next
  case (Cons op ops)
  obtain d v where op: "op = (d, v)" by (cases op)
  obtain p c2 s2 qs where step: "step d v c s = Returns (Some (p, c2), s2)"
    and rest: "params_loop step ops c2 s2 = Returns (Some (qs, c1), s1)"
    using Cons.prems(2) by (auto simp: op split: option.splits)
  note n = Cons.prems(1) [unfolded op param_sizes_Cons]
  note s = step_room [OF n step] step_safe [OF n step Cons.prems(3)]
  have "room s2 (param_sizes s2 ops)" using s(1) param_sizes_cong [of s2 s] by simp
  from Cons.IH [OF this rest] s(2) show ?case by auto
qed

lemma run_context:
  "room s (param_sizes s ops) \<Longrightarrow> params_loop step ops c s = Returns (Some (ps, c1), s1) \<Longrightarrow>
     vars s1 = vars s \<and> length ps = length ops \<and> finalized c1 = finalized c \<and>
     copybacks c1 = copybacks c @ param_copybacks (\<lambda>v. length (vars s v)) (zip ops ps)"
proof (induction ops arbitrary: c s ps c1)
  case Nil
  then show ?case by (auto simp: param_copybacks_def)
next
  case (Cons op ops)
  obtain d v where op: "op = (d, v)" by (cases op)
  obtain p c2 s2 qs where step: "step d v c s = Returns (Some (p, c2), s2)"
    and rest: "params_loop step ops c2 s2 = Returns (Some (qs, c1), s1)" and ps: "ps = p # qs"
    using Cons.prems(2) by (auto simp: op split: option.splits)
  note n = Cons.prems(1) [unfolded op param_sizes_Cons]
  note s = step_room [OF n step] step_context [OF n step]
  have "room s2 (param_sizes s2 ops)" using s(1) param_sizes_cong [of s2 s] by simp
  from Cons.IH [OF this rest] s show ?case by (auto simp: op ps param_copybacks_def)
qed

text \<open>When all parameters have their blocks, each still holds the value that was copied in.\<close>

lemma run_values:
  "room s (param_sizes s ops) \<Longrightarrow> params_loop step ops c s = Returns (Some (ps, c1), s1) \<Longrightarrow>
     ((d, v), p) \<in> set (zip ops ps) \<Longrightarrow> d \<noteq> ParOut \<Longrightarrow> ld s1 p (length (vars s v)) = vars s v \<and> safe s1 p (length (vars s v))"
proof (induction ops arbitrary: c s ps c1)
  case Nil
  then show ?case by simp
next
  case (Cons op ops)
  obtain d0 v0 where op: "op = (d0, v0)" by (cases op)
  obtain p0 c2 s2 qs where step: "step d0 v0 c s = Returns (Some (p0, c2), s2)"
    and rest: "params_loop step ops c2 s2 = Returns (Some (qs, c1), s1)" and ps: "ps = p0 # qs"
    using Cons.prems(2) by (auto simp: op split: option.splits)
  note n = Cons.prems(1) [unfolded op param_sizes_Cons]
  note s = step_room [OF n step] step_block [OF n step]
  have room2: "room s2 (param_sizes s2 ops)" using s(1) param_sizes_cong [of s2 s] by simp
  show ?case
  proof (cases "((d, v), p) = ((d0, v0), p0)")
    case True
    with s Cons.prems(4) run_safe [OF room2 rest, of p0 "length (vars s v0)"] show ?thesis by simp
  next
    case False
    then have "((d, v), p) \<in> set (zip ops qs)" using Cons.prems(3) by (auto simp: op ps)
    from Cons.IH [OF room2 rest this Cons.prems(4)] s show ?thesis by simp
  qed
qed

end

section \<open>Copying back\<close>

text \<open>The host variables after the copy-backs; the last one for a variable wins.\<close>

definition copied_vars :: "(nat \<times> u64 \<times> nat) list \<Rightarrow> (u64 \<Rightarrow> nat \<Rightarrow> byte list) \<Rightarrow> (nat \<Rightarrow> byte list) \<Rightarrow> nat \<Rightarrow> byte list" where
  "copied_vars cbs ld hv v = (case map_of (rev cbs) v of None \<Rightarrow> hv v | Some (p, n) \<Rightarrow> ld p n)"

lemma copied_vars_Nil [simp]: "copied_vars [] ld hv = hv"
  by (simp add: copied_vars_def [abs_def])

lemma copied_vars_snoc: "copied_vars (cbs @ [(v, p, n)]) ld hv = (copied_vars cbs ld hv)(v := ld p n)"
  by (auto simp: copied_vars_def)

text \<open>The copy-backs of parameters with distinct variables.\<close>

lemma copied_vars_param:
  assumes "distinct (map snd ops)" "length ps = length ops" "((d, v), p) \<in> set (zip ops ps)"
  shows "copied_vars (param_copybacks n (zip ops ps)) ld hv v = (if d = ParIn then hv v else ld p (n v))"
proof -
  let ?z = "zip ops ps" and ?key = "\<lambda>x. snd (fst x)" and ?cbs = "param_copybacks n (zip ops ps)"
  have "map ?key ?z = map snd (map fst ?z)" by (simp add: comp_def)
  also have "\<dots> = map snd ops" using assms(2) by simp
  finally have dis: "distinct (map ?key ?z)" using assms(1) by metis
  have same: "x = ((d, v), p)" if "x \<in> set ?z" "?key x = v" for x
    using inj_onD [of ?key "set ?z" x "((d, v), p)"] dis assms(3) that by (simp add: distinct_map)
  have cbs: "?cbs = map (\<lambda>x. (?key x, snd x, n (?key x))) (filter (\<lambda>x. fst (fst x) \<noteq> ParIn) ?z)"
    unfolding param_copybacks_def by (intro arg_cong2 [where f = map] arg_cong2 [where f = filter] ext) auto
  have keys: "map fst ?cbs = map ?key (filter (\<lambda>x. fst (fst x) \<noteq> ParIn) ?z)" unfolding cbs by simp
  have dc: "distinct (map fst (rev ?cbs))"
    using distinct_map_filter [OF dis, of "\<lambda>x. fst (fst x) \<noteq> ParIn"] unfolding rev_map [symmetric] distinct_rev keys .
  show ?thesis
  proof (cases "d = ParIn")
    case True
    have "v \<notin> fst ` set ?cbs"
    proof
      assume "v \<in> fst ` set ?cbs"
      then obtain x where "x \<in> set ?z" "fst (fst x) \<noteq> ParIn" "?key x = v" unfolding cbs by auto
      with same [of x] True show False by simp
    qed
    then have "map_of (rev ?cbs) v = None" by (simp add: map_of_eq_None_iff)
    with True show ?thesis by (simp add: copied_vars_def)
  next
    case False
    then have "(v, p, n v) \<in> set (rev ?cbs)" using assms(3) unfolding cbs by force
    with dc have "map_of (rev ?cbs) v = Some (p, n v)" by (simp only: map_of_eq_Some_iff)
    with False show ?thesis by (simp add: copied_vars_def)
  qed
qed

end
