(* ===== verification/CallContext.thy ===== *)
theory CallContext
  imports ProcessBox Copying ContextParams
begin

text \<open>
  \<open>CallContext<Process>\<close> of \<open>include/sbox/process.hh\<close>: the \<open>in\<close>, \<open>out\<close> and \<open>inout\<close> parameters of a call.
  Each takes a block of the thread's identity-mapped arena; \<open>in\<close> and \<open>inout\<close> copy the host variable
  into it, \<open>out\<close> and \<open>inout\<close> register a copy-back that \<open>finalize\<close> runs. The pages of the arena exist
  once, in the sandbox's memory \<open>pr_mem\<close>, and the host reads and writes them there.
\<close>

section \<open>Host accesses to the arena\<close>

definition load :: "u64 \<Rightarrow> nat \<Rightarrow> (memory, 'h) world \<Rightarrow> byte list" where
  "load p n w = read_bytes (pr_mem (sb_proc w)) p n"

definition store :: "u64 \<Rightarrow> byte list \<Rightarrow> (memory, 'h) world \<Rightarrow> (memory, 'h) world" where
  "store p bs w = w\<lparr>sb_proc := (sb_proc w)\<lparr>pr_mem := write_bytes (pr_mem (sb_proc w)) p bs\<rparr>\<rparr>"

section \<open>The context\<close>

definition set_var :: "nat \<Rightarrow> byte list \<Rightarrow> 'g app \<Rightarrow> 'g app" where
  "set_var v bs h = h\<lparr>host_vars := (host_vars h)(v := bs)\<rparr>"

definition run_copyback :: "nat \<times> u64 \<times> nat \<Rightarrow> (memory, 'g app) world \<Rightarrow> (memory, 'g app) world" where
  "run_copyback cb w = (case cb of (v, p, n) \<Rightarrow> map_app (set_var v (load p n w)) w)"

definition finalize :: "call_context \<Rightarrow> (memory, 'g app) world \<Rightarrow> call_context \<times> (memory, 'g app) world" where
  "finalize c w =
     (if finalized c then (c, w) else (c\<lparr>finalized := True\<rparr>, fold run_copyback (copybacks c) w))"

text \<open>The destructor.\<close>

definition destroy_context :: "call_context \<Rightarrow> (memory, 'g app) world \<Rightarrow> (memory, 'g app) world" where
  "destroy_context c w = pbox_idmem_reset (snd (finalize c w))"

text \<open>
  The three kinds of parameter, for host variable \<open>v\<close>, whose type has the size of the object. \<open>None\<close> is
  the exception that is thrown when there is no block.
\<close>

definition ctx_out ::
  "memory sandbox_env \<Rightarrow> kernel \<Rightarrow> byte list \<Rightarrow> nat \<Rightarrow> call_context \<Rightarrow> (memory, 'g app) world \<Rightarrow>
     ((u64 \<times> call_context) option \<times> (memory, 'g app) world) outcome" where
  "ctx_out e k junk v c w =
     (let n = length (host_vars (h_app w) v) in
      and_then (sandbox_idmem_alloc e k junk n 1 w)
        (\<lambda>(p, w1). if p = 0 then Returns (None, w1)
                   else Returns (Some (p, c\<lparr>copybacks := copybacks c @ [(v, p, n)]\<rparr>), w1)))"

definition ctx_in ::
  "memory sandbox_env \<Rightarrow> kernel \<Rightarrow> byte list \<Rightarrow> nat \<Rightarrow> call_context \<Rightarrow> (memory, 'g app) world \<Rightarrow>
     ((u64 \<times> call_context) option \<times> (memory, 'g app) world) outcome" where
  "ctx_in e k junk v c w =
     (let n = length (host_vars (h_app w) v) in
      and_then (sandbox_idmem_alloc e k junk n 1 w)
        (\<lambda>(p, w1). if p = 0 then Returns (None, w1)
                   else Returns (Some (p, c), store p (host_vars (h_app w1) v) w1)))"

definition ctx_inout ::
  "memory sandbox_env \<Rightarrow> kernel \<Rightarrow> byte list \<Rightarrow> nat \<Rightarrow> call_context \<Rightarrow> (memory, 'g app) world \<Rightarrow>
     ((u64 \<times> call_context) option \<times> (memory, 'g app) world) outcome" where
  "ctx_inout e k junk v c w =
     (let n = length (host_vars (h_app w) v) in
      and_then (sandbox_idmem_alloc e k junk n 1 w)
        (\<lambda>(p, w1). if p = 0 then Returns (None, w1)
                   else Returns (Some (p, c\<lparr>copybacks := copybacks c @ [(v, p, n)]\<rparr>), store p (host_vars (h_app w1) v) w1)))"

text \<open>The context-aware call: the call, then \<open>finalize\<close>.\<close>

definition context_call ::
  "memory sandbox_env \<Rightarrow> kernel \<Rightarrow> bool \<Rightarrow> (cxx_type \<Rightarrow> cxx_type \<Rightarrow> byte list \<Rightarrow> byte list) \<Rightarrow> (u64 \<Rightarrow> byte list) \<Rightarrow> u64 \<Rightarrow>
     call_context \<Rightarrow> u64 \<Rightarrow> cxx_type \<Rightarrow> cxx_type list \<Rightarrow> (cxx_type \<times> byte list) list \<Rightarrow> byte list \<Rightarrow> (memory, 'g app) world \<Rightarrow>
     (byte list option \<times> call_context \<times> (memory, 'g app) world) outcome" where
  "context_call e k ch fp lits this c name ret params xs junk w =
     and_then (sandbox_call e k ch fp lits this name ret params xs junk w)
       (\<lambda>(r, w1). let (c', w2) = finalize c w1 in Returns (r, c', w2))"

definition typed_context_call ::
  "memory sandbox_env \<Rightarrow> kernel \<Rightarrow> bool \<Rightarrow> (cxx_type \<Rightarrow> cxx_type \<Rightarrow> byte list \<Rightarrow> byte list) \<Rightarrow> (u64 \<Rightarrow> byte list) \<Rightarrow> u64 \<Rightarrow>
     call_context \<Rightarrow> u64 \<Rightarrow> cxx_type \<Rightarrow> cxx_type list \<Rightarrow> (cxx_type \<times> byte list) list \<Rightarrow> byte list \<Rightarrow> (memory, 'g app) world \<Rightarrow>
     (byte list option \<times> call_context \<times> (memory, 'g app) world) outcome" where
  "typed_context_call e k ch fp lits this c name ret params xs junk w =
     (if typed_call_ok params (map fst xs) then context_call e k ch fp lits this c name ret params xs junk w else Aborts)"

fun ctx_param :: "param_kind \<Rightarrow> memory sandbox_env \<Rightarrow> kernel \<Rightarrow> byte list \<Rightarrow> nat \<Rightarrow> call_context \<Rightarrow> (memory, 'g app) world \<Rightarrow>
     ((u64 \<times> call_context) option \<times> (memory, 'g app) world) outcome" where
  "ctx_param ParOut = ctx_out"
| "ctx_param ParIn = ctx_in"
| "ctx_param ParInOut = ctx_inout"

definition ctx_params :: "memory sandbox_env \<Rightarrow> kernel \<Rightarrow> byte list \<Rightarrow> (param_kind \<times> nat) list \<Rightarrow> call_context \<Rightarrow> (memory, 'g app) world \<Rightarrow>
     ((u64 list \<times> call_context) option \<times> (memory, 'g app) world) outcome" where
  "ctx_params e k junk = params_loop (\<lambda>d. ctx_param d e k junk)"

section \<open>Blocks\<close>

text \<open>The first address of the arena that is not handed out yet.\<close>

definition arena_top :: "nat \<Rightarrow> ('m, 'h) world \<Rightarrow> nat" where
  "arena_top i w = unat (idmem_base (b_tch w i)) + unat (idmem_offset (b_tch w i))"

definition arena_ready :: "nat \<Rightarrow> ('m, 'h) world \<Rightarrow> bool" where
  "arena_ready i w \<longleftrightarrow> h_tls w = Some i \<and> idmem_mapped (b_tch w i)"

lemma alloc_step:
  assumes ready: "arena_ready i w" and n: "n < 2 ^ 63"
    and res: "sandbox_idmem_alloc e k junk n 1 w = Returns (p, w1)" and p: "p \<noteq> 0"
  shows "\<exists>t. w1 = w\<lparr>b_tch := (b_tch w)(i := t)\<rparr> \<and> arena_ready i w1 \<and> unat p = arena_top i w \<and>
    unat p + n \<le> arena_top i w1 \<and> arena_top i w1 < 2 ^ 64 \<and> idmem_base t = idmem_base (b_tch w i)"
proof -
  have r: "h_tls w = Some i" "idmem_mapped (b_tch w i)" using ready by (simp_all add: arena_ready_def)
  obtain t where t: "idmem_take (word_of_nat n) (b_tch w i) = (p, t)" "w1 = w\<lparr>b_tch := (b_tch w)(i := t)\<rparr>"
    using res r by (auto simp: sandbox_idmem_alloc_def object_bytes_def pbox_idmem_alloc_def get_or_create_thread_channel_def
        idmem_init_def idmem_mapped_def split: prod.splits)
  have un: "unat (word_of_nat n :: u64) = n" using n by (simp add: unat_of_nat)
  have inv: "idmem_mapped t" "idmem_base t = idmem_base (b_tch w i)" "unat p = arena_top i w"
    "unat (idmem_offset t) = unat (idmem_offset (b_tch w i)) + round_up 16 n" "unat (idmem_offset t) \<le> unat (idmem_size t)"
    using idmem_take_inv [OF r(2) _ t(1) p] n un by (simp_all add: arena_top_def)
  moreover have "n \<le> round_up 16 n" by (simp add: round_up_ge)
  moreover have "unat (idmem_base t) + unat (idmem_size t) < 2 ^ 64"
    using inv(1) by (auto simp: idmem_mapped_def idmem_wf_def)
  ultimately show ?thesis
    using t(2) r(1) by (intro exI [of _ t]) (simp add: arena_ready_def arena_top_def)
qed

text \<open>One parameter: a new block above everything handed out, holding the variable unless it is \<open>out\<close>.\<close>

lemma ctx_param_step:
  fixes w :: "(memory, 'g app) world"
  assumes ready: "arena_ready i w" and n: "length (host_vars (h_app w) v) < 2 ^ 63"
    and res: "ctx_param d e k junk v c w = Returns (Some (p, c1), w1)"
  shows "arena_ready i w1 \<and> h_app w1 = h_app w \<and> unat p = arena_top i w \<and>
    unat p + length (host_vars (h_app w) v) \<le> arena_top i w1 \<and> arena_top i w1 < 2 ^ 64 \<and>
    finalized c1 = finalized c \<and>
    copybacks c1 = copybacks c @ (if d = ParIn then [] else [(v, p, length (host_vars (h_app w) v))]) \<and>
    (d \<noteq> ParOut \<longrightarrow> load p (length (host_vars (h_app w) v)) w1 = host_vars (h_app w) v) \<and>
    (\<forall>q m. unat q + m \<le> arena_top i w \<longrightarrow> load q m w1 = load q m w)"
proof -
  let ?bs = "host_vars (h_app w) v"
  obtain w0 where w0: "sandbox_idmem_alloc e k junk (length ?bs) 1 w = Returns (p, w0)" "p \<noteq> 0"
    "w1 = (if d = ParOut then w0 else store p (host_vars (h_app w0) v) w0)"
    "c1 = (if d = ParIn then c else c\<lparr>copybacks := copybacks c @ [(v, p, length ?bs)]\<rparr>)"
    using res by (cases d) (auto simp: ctx_out_def ctx_in_def ctx_inout_def Let_def split: if_splits)
  obtain t where t: "w0 = w\<lparr>b_tch := (b_tch w)(i := t)\<rparr>" "arena_ready i w0" "unat p = arena_top i w"
    "unat p + length ?bs \<le> arena_top i w0" "arena_top i w0 < 2 ^ 64"
    using alloc_step [OF ready n w0(1,2)] by blast
  have l0: "load q m w0 = load q m w" for q m by (simp add: t(1) load_def)
  have len: "length ?bs < 2 ^ 64" using n by simp
  show ?thesis
  proof (cases "d = ParOut")
    case True
    then show ?thesis using t w0(3,4) l0 by simp
  next
    case False
    then have w1: "w1 = store p ?bs w0" using w0(3) t(1) by simp
    have top: "arena_top i w1 = arena_top i w0" "arena_ready i w1 = arena_ready i w0" "h_app w1 = h_app w"
      by (simp_all add: w1 store_def arena_top_def arena_ready_def t(1))
    have new: "load p (length ?bs) w1 = ?bs"
      using read_write_bytes [OF len] by (simp add: w1 store_def load_def)
    have old: "load q m w1 = load q m w" if "unat q + m \<le> arena_top i w" for q m
      using read_write_other [of q m p ?bs "pr_mem (sb_proc w0)"] that t(3-5) l0 by (simp add: w1 store_def load_def)
    show ?thesis using False t w0(4) top new old by simp
  qed
qed

text \<open>Blocks below the top of the arena are safe.\<close>

interpretation process_params: param_blocks "\<lambda>d. ctx_param d e k junk" "\<lambda>w :: (memory, 'g app) world. host_vars (h_app w)" "\<lambda>w p n. load p n w"
  "\<lambda>w q m. unat q + m \<le> arena_top i w" "\<lambda>w ns. arena_ready i w \<and> (\<forall>n\<in>set ns. n < 2 ^ 63)"
  for e k junk i
proof unfold_locales
  fix w w1 :: "(memory, 'g app) world" and v m :: nat and p q :: u64 and d c c1 ns
  assume r: "arena_ready i w \<and> (\<forall>n\<in>set (length (host_vars (h_app w) v) # ns). n < 2 ^ 63)"
    and a: "ctx_param d e k junk v c w = Returns (Some (p, c1), w1)"
  have r: "arena_ready i w" "length (host_vars (h_app w) v) < 2 ^ 63" "\<forall>n\<in>set ns. n < 2 ^ 63" using r by simp_all
  note st = ctx_param_step [OF r(1,2) a]
  show "(arena_ready i w1 \<and> (\<forall>n\<in>set ns. n < 2 ^ 63)) \<and> host_vars (h_app w1) = host_vars (h_app w)" using st r(3) by simp
  show "finalized c1 = finalized c \<and> copybacks c1 = copybacks c @ (if d = ParIn then [] else [(v, p, length (host_vars (h_app w) v))])"
    using st by blast
  show "unat p + length (host_vars (h_app w) v) \<le> arena_top i w1 \<and>
      (d \<noteq> ParOut \<longrightarrow> load p (length (host_vars (h_app w) v)) w1 = host_vars (h_app w) v)"
    using st by blast
  assume q: "unat q + m \<le> arena_top i w"
  have "arena_top i w \<le> arena_top i w1" using st by linarith
  then show "unat q + m \<le> arena_top i w1 \<and> load q m w1 = load q m w" using st q by auto
qed

section \<open>Copying back\<close>

lemma load_map_app [simp]: "load p n (map_app f w) = load p n w"
  by (simp add: load_def)

text \<open>The copy-backs only change host variables; the last one for a variable wins.\<close>

lemma run_copyback_simp: "run_copyback (v, p, n) w = map_app (set_var v (load p n w)) w"
  by (simp add: run_copyback_def)

lemma copybacks_vars:
  "fold run_copyback cbs w = map_app (\<lambda>h. h\<lparr>host_vars := copied_vars cbs (\<lambda>p n. load p n w) (host_vars h)\<rparr>) w"
proof (induction cbs rule: rev_induct)
  case Nil
  then show ?case by simp
next
  case (snoc cb cbs)
  obtain v p n where cb: "cb = (v, p, n)" by (cases cb)
  have "fold run_copyback (cbs @ [cb]) w = run_copyback (v, p, n) (fold run_copyback cbs w)" by (simp add: cb)
  also have "\<dots> = map_app (set_var v (load p n w)) (map_app (\<lambda>h. h\<lparr>host_vars := copied_vars cbs (\<lambda>p n. load p n w) (host_vars h)\<rparr>) w)"
    unfolding snoc.IH run_copyback_simp by simp
  finally show ?case unfolding cb copied_vars_snoc by (simp add: set_var_def fun_upd_def)
qed

lemma finalize_vars:
  "finalize c w = (if finalized c then (c, w)
     else (c\<lparr>finalized := True\<rparr>, map_app (\<lambda>h. h\<lparr>host_vars := copied_vars (copybacks c) (\<lambda>p n. load p n w) (host_vars h)\<rparr>) w))"
  by (simp add: finalize_def copybacks_vars)

lemma context_call_Returns:
  "sandbox_call e k ch fp lits this name ret params xs junk w = Returns (r, w2) \<Longrightarrow>
     context_call e k ch fp lits this c name ret params xs junk w = Returns (r, finalize c w2)"
  by (simp add: context_call_def split_beta)

lemma finalize_finalized: "finalized (fst (finalize c w))"
  by (simp add: finalize_def)

section \<open>An example\<close>

text \<open>The library function at \<open>0x2000\<close>, \<open>void i(int*)\<close>, stores 7.\<close>

definition ctx_lib :: "DyfnCallArgs \<Rightarrow> memory proc \<Rightarrow> memory proc lib_run" where
  "ctx_lib call p = LibReturns \<lparr>int_val = 0, float_val = 0\<rparr> (p\<lparr>pr_mem := write_bytes (pr_mem p) (int_regs call ! 0) [7, 0, 0, 0]\<rparr>)"

definition ctx_env :: "memory sandbox_env" where
  "ctx_env = \<lparr>e_arch = X86_64, e_stubs = (\<lambda>i. 0), e_lib = ctx_lib,
     e_dlsym = (\<lambda>s. if s = [105] then 0x2000 else 0), e_new_fd = (\<lambda>fds. - 1),
     e_spawn_ok = True, e_map_file = (\<lambda>f. Mapped), e_filter_ok = True, e_chan_addr = (\<lambda>i. 0), e_junk = \<lparr>cr_int_val = 0, cr_float_val = 0, cr_ret_class = DYFN_CLASS_INT\<rparr>\<rparr>"

definition no_callbacks :: "u64 \<Rightarrow> byte list list \<Rightarrow> 'h \<Rightarrow> byte list \<times> 'h" where
  "no_callbacks f vs h = ([], h)"

abbreviation ctx_call :: "kernel \<Rightarrow> u64 \<Rightarrow> (memory, unit app) world \<Rightarrow> (byte list option \<times> (memory, unit app) world) outcome" where
  "ctx_call k q \<equiv> sandbox_call ctx_env k True no_fp (\<lambda>_. [105, 0]) 16 64 CVoid [CPtr CInt] [(CPtr CInt, to_bytes q)] []"

abbreviation ctx_ready :: "(memory, unit app) world \<Rightarrow> bool" where
  "ctx_ready w \<equiv> call_ready no_callbacks 1 w \<and> cache_coherent ctx_env (\<lambda>_. [105, 0]) w \<and> arena_ready 1 w"

lemma ctx_example_call:
  assumes "ctx_ready w"
  obtains c k where "ctx_call k q w = Returns (None, after_call 1 c
      \<lparr>pr_mem = write_bytes (pr_mem (sb_proc w)) q [7, 0, 0, 0], pr_fds = pr_fds (sb_proc w), pr_window = mem_storage (sb_chan w 1)\<rparr>
      (calling_app 16 64 0x2000 (h_app w)) w)" "channel_wf c"
proof -
  have f: "0x2000 = symbol_address ctx_env (\<lambda>_. [105, 0]) 64" by (simp add: ctx_env_def c_string_def)
  let ?frame = "\<lparr>int_regs = q # replicate 7 0, float_regs = replicate 8 0, int_count = 1, float_count = 0,
       stack_args = replicate 4 0, stack_count = 0, func = 0x2000, ret_class = DYFN_CLASS_VOID\<rparr> :: DyfnCallArgs"
  let ?p = "\<lparr>pr_mem = write_bytes (pr_mem (sb_proc w)) q [7, 0, 0, 0], pr_fds = pr_fds (sb_proc w), pr_window = mem_storage (sb_chan w 1)\<rparr>"
  have r8: "replicate 8 (0 :: u64) = 0 # replicate 7 0" by (simp flip: replicate_Suc)
  have frame: "call_frame ctx_env 0x2000 (pbox_type_v CVoid) (length [CPtr CInt]) (map pbox_type_v [CPtr CInt]) [to_bytes q] = Some ?frame"
    by (simp add: call_frame_def pbox_type_v_def ctx_env_def dyfn_prep_call_def dyfn_prep_arg_def put_reg_def
        zeroed_call_def dyfn_of_code_def r8)
  have conv: "convert_args True no_fp [CPtr CInt] [(CPtr CInt, to_bytes q)] = Some [to_bytes q]"
    by (simp add: convert_call_arg_def is_sbox_ptr_def is_sbox_safe_ptr_def is_pointer_def reinterpret_cast_def reinterpret_ok_def)
  have dir: "direct_call (e_arch ctx_env) (e_junk ctx_env) no_callbacks (b_reg w) (sb_table w 1)
      (e_lib ctx_env ?frame ((sb_proc w)\<lparr>pr_window := mem_storage (sb_chan w 1)\<rparr>)) (calling_app 16 64 0x2000 (h_app w)) =
      Some (\<lparr>int_val = 0, float_val = 0\<rparr>, ?p, calling_app 16 64 0x2000 (h_app w))"
    by (simp add: ctx_env_def ctx_lib_def)
  have win: "length (pr_window ?p) = PBOX_MEM_STORAGE" using assms by (simp add: call_ready_def channel_wf_def)
  obtain c turns where "channel_wf c"
    and call: "\<And>k :: kernel. turns \<le> k_turns k \<Longrightarrow> ctx_call k q w = Returns
      (if CVoid = CVoid then None else Some (call_result (pbox_type_v CVoid) \<lparr>int_val = 0, float_val = 0\<rparr>),
       after_call 1 c ?p (calling_app 16 64 0x2000 (h_app w)) w)"
    by (rule sandbox_call_direct [OF conjunct1 [OF assms] conjunct1 [OF conjunct2 [OF assms]] f _ _ _ no_fp_typed conv frame dir win])
      (auto simp: call_impl_ok_def has_type_def)
  have "ctx_call (example_kernel\<lparr>k_turns := turns\<rparr>) q w = Returns (None, after_call 1 c ?p (calling_app 16 64 0x2000 (h_app w)) w)"
    using call [of "example_kernel\<lparr>k_turns := turns\<rparr>"] by simp
  then show thesis using \<open>channel_wf c\<close> by (rule that)
qed

lemma ctx_ready_after:
  assumes "ctx_ready w" "channel_wf c"
  shows "ctx_ready (after_call 1 c p (calling_app 16 64 0x2000 (h_app w)) w)"
  using assms
  by (auto simp: call_ready_def cache_coherent_def arena_ready_def calling_app_def ctx_env_def c_string_def)

text \<open>Two host variables: 0 is the \<open>int\<close> 1, 1 the \<open>int\<close> 2.\<close>

definition ctx_app :: "unit app" where
  "ctx_app = (fresh_app ())\<lparr>host_vars := (\<lambda>v. if v = 0 then [1, 0, 0, 0] else [2, 0, 0, 0])\<rparr>"

definition ctx_world :: "(memory, unit app) world" where
  "ctx_world = cxx_world (\<lambda>_. 0) ctx_app"

lemma ctx_world_ready: "ctx_ready ctx_world"
  using cxx_ready [of no_callbacks "\<lambda>_. 0" ctx_app] example_region_mapped
  by (simp add: ctx_world_def cache_coherent_def arena_ready_def) (simp add: cxx_world_def ctx_app_def fresh_app_def)

text \<open>A parameter finds room as long as at most 16 bytes are used.\<close>

definition room_world :: "param_kind \<Rightarrow> nat \<Rightarrow> (memory, unit app) world \<Rightarrow> (memory, unit app) world" where
  "room_world d v w =
     (let t = b_tch w 1;
          w1 = w\<lparr>b_tch := (b_tch w)(1 := t\<lparr>idmem_offset := idmem_offset t + 16\<rparr>)\<rparr>
      in if d = ParOut then w1 else store (idmem_base t + idmem_offset t) (host_vars (h_app w) v) w1)"

definition room :: "(memory, unit app) world \<Rightarrow> bool" where
  "room w \<longleftrightarrow> ctx_ready w \<and> idmem_size (b_tch w 1) = 0x100000 \<and> unat (idmem_offset (b_tch w 1)) \<le> 16 \<and>
     (\<forall>v. length (host_vars (h_app w) v) = 4)"

lemma ctx_param_room:
  assumes "room w"
  shows "ctx_param d e k junk v c w = Returns (Some (idmem_base (b_tch w 1) + idmem_offset (b_tch w 1),
    if d = ParIn then c else c\<lparr>copybacks := copybacks c @ [(v, idmem_base (b_tch w 1) + idmem_offset (b_tch w 1), 4)]\<rparr>), room_world d v w)"
proof -
  let ?t = "b_tch w 1"
  have r: "h_tls w = Some 1" "idmem_mapped ?t" "idmem_base ?t \<noteq> 0" "length (host_vars (h_app w) v) = 4"
    using assms by (simp_all add: room_def arena_ready_def idmem_mapped_def)
  have off: "idmem_size ?t = 0x100000" "unat (idmem_offset ?t) \<le> 16" using assms by (simp_all add: room_def)
  have u: "unat (idmem_offset ?t + 16) = unat (idmem_offset ?t) + 16" using off(2) by (subst unat_add64) simp_all
  have tk: "idmem_take 4 ?t = (idmem_base ?t + idmem_offset ?t, ?t\<lparr>idmem_offset := idmem_offset ?t + 16\<rparr>)"
    using u off by (simp add: idmem_take_def word_less_nat_alt)
  have "unat (idmem_base ?t + idmem_offset ?t) = unat (idmem_base ?t) + unat (idmem_offset ?t)"
    using r(2) by (intro unat_add64) (auto simp: idmem_mapped_def idmem_wf_def)
  then have nz: "idmem_base ?t + idmem_offset ?t \<noteq> 0" using r(3) by (metis add_is_0 unat_eq_0)
  have "sandbox_idmem_alloc e k junk 4 1 w =
      Returns (idmem_base ?t + idmem_offset ?t, w\<lparr>b_tch := (b_tch w)(1 := ?t\<lparr>idmem_offset := idmem_offset ?t + 16\<rparr>)\<rparr>)"
    using r tk by (simp add: sandbox_idmem_alloc_def object_bytes_def pbox_idmem_alloc_def get_or_create_thread_channel_def idmem_init_def)
  with r(4) nz show ?thesis
    by (cases d) (simp_all add: ctx_out_def ctx_in_def ctx_inout_def room_world_def Let_def)
qed

lemma room_world_ready:
  assumes "room w"
  shows "ctx_ready (room_world d v w)"
proof -
  have r: "idmem_mapped (b_tch w 1)" "idmem_size (b_tch w 1) = 0x100000" "unat (idmem_offset (b_tch w 1)) \<le> 16"
    using assms by (simp_all add: room_def arena_ready_def)
  have u: "unat (idmem_offset (b_tch w 1) + 16) = unat (idmem_offset (b_tch w 1)) + 16" using r(3) by (subst unat_add64) simp_all
  then have "idmem_mapped (b_tch (room_world d v w) 1)"
    using r by (auto simp: room_world_def Let_def store_def idmem_mapped_def idmem_wf_def)
  with assms show ?thesis
    by (simp add: room_def room_world_def Let_def store_def call_ready_def cache_coherent_def arena_ready_def)
qed

lemma ctx_world_room: "room ctx_world"
  using ctx_world_ready
  by (simp add: room_def) (simp add: ctx_world_def cxx_world_def example_region_def ctx_app_def)

section \<open>Properties\<close>

text \<open>C7: \<open>in\<close>, \<open>out\<close> and \<open>inout\<close> parameters carry values. For any list of parameters over distinct host
  variables that find room in the arena: when the call starts, every \<open>in\<close> and \<open>inout\<close> block holds its
  variable's value (no later block overwrites an earlier one); when the context-aware call has
  returned, every \<open>out\<close> and \<open>inout\<close> variable holds what the sandbox left in its block, and an \<open>in\<close>
  variable is what it was right after the call.\<close>

theorem context_passes_values:
  fixes w :: "(memory, 'g app) world"
  assumes "arena_ready i w" "\<forall>(d, v)\<in>set ops. length (host_vars (h_app w) v) < 2 ^ 63" "distinct (map snd ops)"
    and "ctx_params e k junk ops new_context w = Returns (Some (ps, c), w1)" "((d, v), p) \<in> set (zip ops ps)"
    and "context_call e k' ch fp lits this c name ret params xs junk' w1 = Returns (r, c', w3)"
  shows "\<exists>w2. sandbox_call e k' ch fp lits this name ret params xs junk' w1 = Returns (r, w2) \<and>
    (d \<noteq> ParOut \<longrightarrow> load p (length (host_vars (h_app w) v)) w1 = host_vars (h_app w) v) \<and>
    host_vars (h_app w3) v = (if d = ParIn then host_vars (h_app w2) v else load p (length (host_vars (h_app w) v)) w2)"
proof -
  have room: "arena_ready i w \<and> (\<forall>n\<in>set (process_params.param_sizes w ops). n < 2 ^ 63)"
    using assms(1,2) by (auto simp: process_params.param_sizes_def)
  note run = process_params.run_context [OF room assms(4) [unfolded ctx_params_def]]
  obtain w2 where w2: "sandbox_call e k' ch fp lits this name ret params xs junk' w1 = Returns (r, w2)" "finalize c w2 = (c', w3)"
    using assms(6) by (auto simp: context_call_def split: prod.splits)
  have len: "length ps = length ops" and fin: "\<not> finalized c"
    and cbs: "copybacks c = param_copybacks (\<lambda>v. length (host_vars (h_app w) v)) (zip ops ps)"
    using run by (simp_all add: new_context_def)
  have start: "d \<noteq> ParOut \<longrightarrow> load p (length (host_vars (h_app w) v)) w1 = host_vars (h_app w) v"
    using process_params.run_values [OF room assms(4) [unfolded ctx_params_def] assms(5)] by blast
  have "host_vars (h_app w3) v = copied_vars (copybacks c) (\<lambda>p n. load p n w2) (host_vars (h_app w2)) v"
    using w2(2) fin by (auto simp: finalize_vars)
  also have "\<dots> = (if d = ParIn then host_vars (h_app w2) v else load p (length (host_vars (h_app w) v)) w2)"
    unfolding cbs by (rule copied_vars_param [OF assms(3) len assms(5)])
  finally show ?thesis using w2(1) start by blast
qed

theorem context_passes_values_witness:
  "\<exists>k ps c w1 c' w3. ctx_params ctx_env example_kernel [] [(ParIn, 1), (ParInOut, 0)] new_context ctx_world = Returns (Some (ps, c), w1) \<and>
    context_call ctx_env k True no_fp (\<lambda>_. [105, 0]) 16 c 64 CVoid [CPtr CInt] [(CPtr CInt, to_bytes (ps ! 1))] [] w1 = Returns (None, c', w3) \<and>
    load (ps ! 1) 4 w1 = [1, 0, 0, 0] \<and> host_vars (h_app w3) 0 = [7, 0, 0, 0]"
proof -
  let ?b = "0x700000000000 :: u64"
  let ?w0 = "room_world ParIn 1 ctx_world"
  let ?w1 = "room_world ParInOut 0 ?w0"
  let ?c = "\<lparr>copybacks = [(0, ?b + 16, 4)], finalized = False\<rparr>"
  have t: "b_tch ctx_world 1 = example_region" "b_tch ?w0 1 = example_region\<lparr>idmem_offset := 16\<rparr>" "h_app ?w0 = ctx_app"
    by (simp_all add: room_world_def Let_def store_def ctx_world_def cxx_world_def example_region_def)
  have "room ?w0" using room_world_ready [OF ctx_world_room, of ParIn 1] t
    by (simp add: room_def example_region_def ctx_app_def)
  note r1 = ctx_param_room [OF ctx_world_room, unfolded t] and r2 = ctx_param_room [OF this, unfolded t]
  have regs: "ctx_params ctx_env example_kernel [] [(ParIn, 1), (ParInOut, 0)] new_context ctx_world = Returns (Some ([?b, ?b + 16], ?c), ?w1)"
    using r1 [of ParIn ctx_env example_kernel "[]" 1 new_context] r2 [of ParInOut ctx_env example_kernel "[]" 0 new_context]
    by (simp add: ctx_params_def new_context_def example_region_def del: ctx_param.simps)
  obtain c k where call: "ctx_call k (?b + 16) ?w1 = Returns (None, after_call 1 c
      \<lparr>pr_mem = write_bytes (pr_mem (sb_proc ?w1)) (?b + 16) [7, 0, 0, 0], pr_fds = pr_fds (sb_proc ?w1), pr_window = mem_storage (sb_chan ?w1 1)\<rparr>
      (calling_app 16 64 0x2000 (h_app ?w1)) ?w1)"
    by (rule ctx_example_call [OF room_world_ready [OF \<open>room ?w0\<close>]])
  let ?w2 = "after_call 1 c
      \<lparr>pr_mem = write_bytes (pr_mem (sb_proc ?w1)) (?b + 16) [7, 0, 0, 0], pr_fds = pr_fds (sb_proc ?w1), pr_window = mem_storage (sb_chan ?w1 1)\<rparr>
      (calling_app 16 64 0x2000 (h_app ?w1)) ?w1"
  obtain c' w3 where fin: "finalize ?c ?w2 = (c', w3)" by fastforce
  note cc = context_call_Returns [OF call, of ?c, unfolded fin]
  have l: "load (?b + 16) 4 ?w2 = [7, 0, 0, 0]"
    by (simp add: load_def read_write_4)
  have len: "length (host_vars (h_app ctx_world) v) = 4" for v by (simp add: ctx_world_def cxx_world_def ctx_app_def)
  have v0: "host_vars (h_app ctx_world) 0 = [1, 0, 0, 0]" by (simp add: ctx_world_def cxx_world_def ctx_app_def)
  have arena: "arena_ready 1 ctx_world" using ctx_world_ready by simp
  have sizes: "\<forall>(d, v)\<in>set [(ParIn, 1), (ParInOut, 0 :: nat)]. length (host_vars (h_app ctx_world) v) < 2 ^ 63" by (simp add: len)
  obtain w2 where w2: "ctx_call k (?b + 16) ?w1 = Returns (None, w2)" "load (?b + 16) 4 ?w1 = [1, 0, 0, 0]"
    "host_vars (h_app w3) 0 = load (?b + 16) 4 w2"
    using context_passes_values [OF arena sizes _ regs _ cc, of ParInOut 0 "?b + 16", unfolded len, unfolded v0] by auto
  have "w2 = ?w2" using w2(1) call by simp
  with regs cc w2 l show ?thesis
    by (intro exI [of _ k] exI [of _ "[?b, ?b + 16]"] exI [of _ ?c] exI [of _ ?w1] exI [of _ c'] exI [of _ w3])
      simp
qed

text \<open>C39: a context serves one call only. After a first context-aware call, later \<open>out\<close> and \<open>inout\<close>
  parameters of the same context are accepted and given blocks, but nothing is ever copied back for
  them: the second call ends in exactly the state the bare call ends in, and destroying the context
  does not change a host variable either. (The README reuses one context for two calls.)\<close>

theorem context_second_call_not_copied_back:
  fixes w :: "(memory, 'g app) world"
  assumes "context_call e k ch fp lits this c name ret params xs junk w = Returns (r, c1, w1)"
    and "arena_ready i w1" "\<forall>(d, v)\<in>set ops. length (host_vars (h_app w1) v) < 2 ^ 63"
    and "ctx_params e k' junk' ops c1 w1 = Returns (Some (ps, c2), w2)"
    and "context_call e k'' ch fp lits this c2 name' ret' params' xs' junk'' w2 = Returns (r', c3, w3)"
  shows "sandbox_call e k'' ch fp lits this name' ret' params' xs' junk'' w2 = Returns (r', w3) \<and>
    h_app (destroy_context c3 w3) = h_app w3"
proof -
  obtain w0 where "finalize c w0 = (c1, w1)" using assms(1) by (auto simp: context_call_def split: prod.splits)
  then have "finalized c1" using finalize_finalized [of c w0] by simp
  have room: "arena_ready i w1 \<and> (\<forall>n\<in>set (process_params.param_sizes w1 ops). n < 2 ^ 63)"
    using assms(2,3) by (auto simp: process_params.param_sizes_def)
  with \<open>finalized c1\<close> process_params.run_context [OF room assms(4) [unfolded ctx_params_def]] have fin: "finalized c2" by simp
  then have "c3 = c2 \<and> sandbox_call e k'' ch fp lits this name' ret' params' xs' junk'' w2 = Returns (r', w3)"
    using assms(5) by (auto simp: context_call_def finalize_def split: prod.splits)
  with fin show ?thesis
    by (auto simp: destroy_context_def finalize_def pbox_idmem_reset_def split: option.splits)
qed

theorem context_second_call_not_copied_back_witness:
  "\<exists>k k' c1 w1 p c2 w2 c3 w3.
    context_call ctx_env k True no_fp (\<lambda>_. [105, 0]) 16 new_context 64 CVoid [CPtr CInt] [(CPtr CInt, to_bytes 0x9000)] [] ctx_world = Returns (None, c1, w1) \<and>
    ctx_params ctx_env example_kernel [] [(ParOut, 0)] c1 w1 = Returns (Some ([p], c2), w2) \<and>
    context_call ctx_env k' True no_fp (\<lambda>_. [105, 0]) 16 c2 64 CVoid [CPtr CInt] [(CPtr CInt, to_bytes p)] [] w2 = Returns (None, c3, w3) \<and>
    load p 4 w3 = [7, 0, 0, 0] \<and> host_vars (h_app (destroy_context c3 w3)) 0 = [1, 0, 0, 0]"
proof -
  obtain ca k where call: "ctx_call k 0x9000 ctx_world = Returns (None, after_call 1 ca
      \<lparr>pr_mem = write_bytes (pr_mem (sb_proc ctx_world)) 0x9000 [7, 0, 0, 0], pr_fds = pr_fds (sb_proc ctx_world), pr_window = mem_storage (sb_chan ctx_world 1)\<rparr>
      (calling_app 16 64 0x2000 (h_app ctx_world)) ctx_world)" and ca: "channel_wf ca"
    by (rule ctx_example_call [OF ctx_world_ready])
  define w1 where "w1 = after_call 1 ca
      \<lparr>pr_mem = write_bytes (pr_mem (sb_proc ctx_world)) 0x9000 [7, 0, 0, 0], pr_fds = pr_fds (sb_proc ctx_world), pr_window = mem_storage (sb_chan ctx_world 1)\<rparr>
      (calling_app 16 64 0x2000 (h_app ctx_world)) ctx_world"
  let ?c1 = "\<lparr>copybacks = [], finalized = True\<rparr>"
  have "finalize new_context w1 = (?c1, w1)" by (simp add: finalize_def new_context_def)
  note first = context_call_Returns [OF call, of new_context, folded w1_def, unfolded this]
  have ready: "ctx_ready w1" unfolding w1_def by (rule ctx_ready_after [OF ctx_world_ready ca])
  have vars: "host_vars (h_app w1) = host_vars ctx_app"
    by (simp add: w1_def calling_app_def) (simp add: ctx_world_def cxx_world_def)
  have room: "room w1" using ctx_world_room ready vars by (simp add: room_def) (simp add: w1_def ctx_app_def)
  have t: "b_tch w1 1 = example_region" by (simp add: w1_def) (simp add: ctx_world_def cxx_world_def)
  let ?p = "0x700000000000 :: u64" and ?w2 = "room_world ParOut 0 w1"
  let ?c2 = "\<lparr>copybacks = [(0, ?p, 4)], finalized = True\<rparr>"
  have regs: "ctx_params ctx_env example_kernel [] [(ParOut, 0)] ?c1 w1 = Returns (Some ([?p], ?c2), ?w2)"
    using ctx_param_room [OF room, unfolded t, of ParOut ctx_env example_kernel "[]" 0 ?c1]
    by (simp add: ctx_params_def example_region_def del: ctx_param.simps)
  obtain cb k' where call2: "ctx_call k' ?p ?w2 = Returns (None, after_call 1 cb
      \<lparr>pr_mem = write_bytes (pr_mem (sb_proc ?w2)) ?p [7, 0, 0, 0], pr_fds = pr_fds (sb_proc ?w2), pr_window = mem_storage (sb_chan ?w2 1)\<rparr>
      (calling_app 16 64 0x2000 (h_app ?w2)) ?w2)"
    by (rule ctx_example_call [OF room_world_ready [OF room]])
  define w3 where "w3 = after_call 1 cb
      \<lparr>pr_mem = write_bytes (pr_mem (sb_proc ?w2)) ?p [7, 0, 0, 0], pr_fds = pr_fds (sb_proc ?w2), pr_window = mem_storage (sb_chan ?w2 1)\<rparr>
      (calling_app 16 64 0x2000 (h_app ?w2)) ?w2"
  have "finalize ?c2 w3 = (?c2, w3)" by (simp add: finalize_def)
  note second = context_call_Returns [OF call2, of ?c2, folded w3_def, unfolded this]
  have l: "load ?p 4 w3 = [7, 0, 0, 0]" by (simp add: w3_def load_def read_write_4)
  have v: "host_vars (h_app w3) 0 = [1, 0, 0, 0]"
    using vars by (simp add: w3_def calling_app_def room_world_def Let_def) (simp add: ctx_app_def)
  have sizes: "\<forall>(d, v)\<in>set [(ParOut, 0 :: nat)]. length (host_vars (h_app w1) v) < 2 ^ 63" by (simp add: vars ctx_app_def)
  have arena: "arena_ready 1 w1" using ready by blast
  have "h_app (destroy_context ?c2 w3) = h_app w3"
    using context_second_call_not_copied_back [OF first arena sizes regs second] by blast
  with first regs second l v show ?thesis by metis
qed

text \<open>C40: contexts on one thread do not nest. All of them share the thread's arena, and the destructor of
  any of them gives the whole arena back: the next block that is handed out after it starts where
  the first block of the outer context starts, while that context is still in use.\<close>

theorem nested_context_takes_block:
  fixes w :: "(memory, 'g app) world"
  assumes "arena_ready i w" "idmem_offset (b_tch w i) = 0" "length (host_vars (h_app w) v) < 2 ^ 63"
    and "ctx_param d e k junk v new_context w = Returns (Some (p, c), w1)"
    and "arena_ready i w2" "idmem_base (b_tch w2 i) = idmem_base (b_tch w1 i)"
    and "length (host_vars (h_app (destroy_context inner w2)) v') < 2 ^ 63"
    and "ctx_param d' e k' junk' v' c (destroy_context inner w2) = Returns (Some (p', c'), w3)"
  shows "p' = p"
proof -
  have base: "idmem_base (b_tch w1 i) = idmem_base (b_tch w i)"
  proof -
    obtain w0 where "sandbox_idmem_alloc e k junk (length (host_vars (h_app w) v)) 1 w = Returns (p, w0)" "p \<noteq> 0"
      "b_tch w1 = b_tch w0"
      using assms(4) by (cases d) (auto simp: ctx_out_def ctx_in_def ctx_inout_def Let_def store_def split: if_splits)
    with alloc_step [OF assms(1,3), of e k junk p w0] show ?thesis by auto
  qed
  have "b_tch (snd (finalize inner w2)) = b_tch w2" "h_tls (snd (finalize inner w2)) = h_tls w2"
    by (simp_all add: finalize_vars)
  then have d: "b_tch (destroy_context inner w2) i = idmem_rewind (b_tch w2 i)" "h_tls (destroy_context inner w2) = Some i"
    using assms(5) by (simp_all add: destroy_context_def pbox_idmem_reset_def arena_ready_def)
  have m: "idmem_base (b_tch w2 i) \<noteq> 0" using assms(5) by (simp add: arena_ready_def idmem_mapped_def)
  then have "arena_ready i (destroy_context inner w2)"
    using d assms(5) idmem_rewind_wf [of "b_tch w2 i"] by (simp add: arena_ready_def idmem_mapped_def idmem_rewind_def)
  from ctx_param_step [OF this assms(7,8)] have "unat p' = arena_top i (destroy_context inner w2)" by blast
  also have "\<dots> = unat (idmem_base (b_tch w i))"
    using d(1) m assms(6) base by (simp add: arena_top_def idmem_rewind_def)
  also have "\<dots> = unat p"
    using ctx_param_step [OF assms(1,3,4)] assms(2) by (simp add: arena_top_def)
  finally show ?thesis by (simp add: word_unat_eq_iff)
qed

theorem nested_context_takes_block_witness:
  "\<exists>c w1 c' w3. ctx_param ParInOut ctx_env example_kernel [] 0 new_context ctx_world = Returns (Some (0x700000000000, c), w1) \<and>
    ctx_param ParInOut ctx_env example_kernel [] 1 c (destroy_context new_context w1) = Returns (Some (0x700000000000, c'), w3)"
proof -
  have t: "b_tch ctx_world 1 = example_region" by (simp add: ctx_world_def cxx_world_def)
  let ?p = "0x700000000000 :: u64" and ?w1 = "room_world ParInOut 0 ctx_world"
  obtain c where outer: "ctx_param ParInOut ctx_env example_kernel [] 0 new_context ctx_world = Returns (Some (?p, c), ?w1)"
    using ctx_param_room [OF ctx_world_room, unfolded t, of ParInOut ctx_env example_kernel "[]" 0 new_context]
    by (simp add: example_region_def del: ctx_param.simps)
  let ?w2 = "destroy_context new_context ?w1"
  have t1: "b_tch ?w1 1 = example_region\<lparr>idmem_offset := 16\<rparr>" "h_app ?w1 = ctx_app" "h_tls ?w1 = Some 1"
    by (simp_all add: room_world_def Let_def store_def ctx_world_def cxx_world_def example_region_def)
  have d: "?w2 = ?w1\<lparr>b_tch := (b_tch ?w1)(1 := example_region)\<rparr>"
  proof -
    have "idmem_rewind (b_tch ?w1 1) = example_region" unfolding t1 by (simp add: idmem_rewind_def example_region_def)
    then show ?thesis by (simp add: destroy_context_def finalize_def new_context_def pbox_idmem_reset_def t1(3))
  qed
  have "room ?w2" unfolding d room_def
    using room_world_ready [OF ctx_world_room, of ParInOut 0] t1(2)
    by (simp add: call_ready_def cache_coherent_def arena_ready_def) (simp add: example_region_def ctx_app_def)
  from ctx_param_room [OF this, of ParInOut ctx_env example_kernel "[]" 1 c] obtain p' c' w3 where
    later: "ctx_param ParInOut ctx_env example_kernel [] 1 c ?w2 = Returns (Some (p', c'), w3)"
    by (simp del: ctx_param.simps)
  have len: "length (host_vars (h_app ctx_world) 0) < 2 ^ 63" "length (host_vars (h_app ?w2) 1) < 2 ^ 63"
    using t1(2) by (simp_all add: d) (simp_all add: ctx_world_def cxx_world_def ctx_app_def)
  have arena: "arena_ready 1 ctx_world" "arena_ready 1 ?w1"
    using ctx_world_ready room_world_ready [OF ctx_world_room, of ParInOut 0] by simp_all
  have "p' = ?p"
    by (rule nested_context_takes_block [OF arena(1) _ len(1) outer arena(2) refl len(2) later]) (simp only: t, simp add: example_region_def)
  with outer later show ?thesis by blast
qed

end
