(* ===== verification/LfiCalls.thy ===== *)
theory LfiCalls
  imports Copying ProcessBox
begin

text \<open>
  Argument passing of the LFI backend (\<open>include/sbox/lfi.hh\<close>): \<open>marshal_arg\<close> distributes the arguments
  over the registers of the sandbox's context and an overflow array, \<open>stage_stack_args\<close> writes the
  overflow to the sandbox's stack. The result is compared with \<open>dyfn_prep_call\<close> of the process
  backend. \<open>LFIRegs\<close> is declared in \<open>lfi_arch.h\<close>, outside the repository; the model has the fields
  the code uses. An access outside an array is \<open>None\<close>.
\<close>

section \<open>Registers\<close>

datatype gpr = RDI | RSI | RDX | RCX | R8 | R9 | RAX | RSP | X0 | X1 | X2 | X3 | X4 | X5 | X6 | X7 | SP

text \<open>\<open>fprs\<close> is the array \<open>xmm\<close> (\<open>vector\<close> on AArch64) of 64-bit halves.\<close>

record LFIRegs =
  gprs :: "gpr \<Rightarrow> u64"
  fprs :: "nat \<Rightarrow> u64"

fun int_arg_gprs :: "arch \<Rightarrow> gpr list" where
  "int_arg_gprs X86_64 = [RDI, RSI, RDX, RCX, R8, R9]"
| "int_arg_gprs AArch64 = [X0, X1, X2, X3, X4, X5, X6, X7]"

definition max_int_reg_args :: "arch \<Rightarrow> nat" where
  "max_int_reg_args a = (case a of X86_64 \<Rightarrow> 6 | AArch64 \<Rightarrow> 8)"

abbreviation (input) max_float_reg_args :: nat where "max_float_reg_args \<equiv> 8"

text \<open>The switch has no default: an index past the argument registers is ignored.\<close>

definition set_int_arg :: "arch \<Rightarrow> nat \<Rightarrow> u64 \<Rightarrow> LFIRegs \<Rightarrow> LFIRegs" where
  "set_int_arg a i v regs =
     (if i < length (int_arg_gprs a) then regs\<lparr>gprs := (gprs regs)(int_arg_gprs a ! i := v)\<rparr> else regs)"

definition set_float_arg :: "nat \<Rightarrow> u64 \<Rightarrow> LFIRegs \<Rightarrow> LFIRegs" where
  "set_float_arg i v regs = regs\<lparr>fprs := (fprs regs)(i * 2 := v)\<rparr>"

fun int_return_gpr :: "arch \<Rightarrow> gpr" where
  "int_return_gpr X86_64 = RAX"
| "int_return_gpr AArch64 = X0"

fun sp_gpr :: "arch \<Rightarrow> gpr" where
  "sp_gpr X86_64 = RSP"
| "sp_gpr AArch64 = SP"

definition get_int_return :: "arch \<Rightarrow> LFIRegs \<Rightarrow> u64" where "get_int_return a regs = gprs regs (int_return_gpr a)"

definition get_float_return :: "LFIRegs \<Rightarrow> u64" where "get_float_return regs = fprs regs 0"

definition get_sp :: "arch \<Rightarrow> LFIRegs \<Rightarrow> u64" where "get_sp a regs = gprs regs (sp_gpr a)"

definition set_sp :: "arch \<Rightarrow> u64 \<Rightarrow> LFIRegs \<Rightarrow> LFIRegs" where
  "set_sp a sp regs = regs\<lparr>gprs := (gprs regs)(sp_gpr a := sp)\<rparr>"

section \<open>Marshalling\<close>

definition is_float_arg :: "cxx_type \<Rightarrow> bool" where
  "is_float_arg t = is_floating (remove_cv (remove_reference t))"

abbreviation (input) max_args :: nat where "max_args \<equiv> 10"

record MarshalResult =
  m_stack_args :: "u64 list"
  m_n_stack :: nat

definition push_stack_arg :: "u64 \<Rightarrow> MarshalResult \<Rightarrow> MarshalResult option" where
  "push_stack_arg v r =
     map_option (\<lambda>xs. r\<lparr>m_stack_args := xs, m_n_stack := m_n_stack r + 1\<rparr>) (store_at (m_stack_args r) (m_n_stack r) v)"

text \<open>The value of the argument: \<open>memcpy(&val, &arg, sizeof(arg))\<close>, which must not be larger than \<open>val\<close>.\<close>

definition arg_word :: "cxx_type \<Rightarrow> byte list \<Rightarrow> u64 option" where
  "arg_word t v =
     (if \<not> is_float_arg t \<and> is_pointer t then Some (of_bytes v)
      else map_option of_bytes (memcpy_to (to_bytes 0) 0 v (length v)))"

record marshal_state =
  m_regs :: LFIRegs
  m_result :: MarshalResult
  m_int_idx :: nat
  m_float_idx :: nat

definition marshal_arg :: "arch \<Rightarrow> cxx_type \<Rightarrow> byte list \<Rightarrow> marshal_state \<Rightarrow> marshal_state option" where
  "marshal_arg a t v s =
     (case arg_word t v of
        None \<Rightarrow> None
      | Some val \<Rightarrow>
          if is_float_arg t then
            (if m_float_idx s < max_float_reg_args
             then Some (s\<lparr>m_regs := set_float_arg (m_float_idx s) val (m_regs s), m_float_idx := m_float_idx s + 1\<rparr>)
             else map_option (\<lambda>r. s\<lparr>m_result := r\<rparr>) (push_stack_arg val (m_result s)))
          else
            (if m_int_idx s < max_int_reg_args a
             then Some (s\<lparr>m_regs := set_int_arg a (m_int_idx s) val (m_regs s), m_int_idx := m_int_idx s + 1\<rparr>)
             else map_option (\<lambda>r. s\<lparr>m_result := r\<rparr>) (push_stack_arg val (m_result s))))"

fun marshal_loop :: "arch \<Rightarrow> (cxx_type \<times> byte list) list \<Rightarrow> marshal_state \<Rightarrow> marshal_state option" where
  "marshal_loop a [] s = Some s"
| "marshal_loop a ((t, v) # xs) s = (case marshal_arg a t v s of None \<Rightarrow> None | Some s' \<Rightarrow> marshal_loop a xs s')"

definition marshal_start :: "LFIRegs \<Rightarrow> marshal_state" where
  "marshal_start regs = \<lparr>m_regs = regs, m_result = \<lparr>m_stack_args = replicate max_args 0, m_n_stack = 0\<rparr>,
     m_int_idx = 0, m_float_idx = 0\<rparr>"

text \<open>More than \<open>max_args\<close> arguments do not compile.\<close>

definition marshal_args_lfi ::
  "arch \<Rightarrow> cxx_type list \<Rightarrow> byte list list \<Rightarrow> LFIRegs \<Rightarrow> (LFIRegs \<times> MarshalResult) option" where
  "marshal_args_lfi a ts vs regs =
     (if length ts \<le> max_args
      then map_option (\<lambda>s. (m_regs s, m_result s)) (marshal_loop a (zip ts vs) (marshal_start regs)) else None)"

text \<open>The loop of \<open>stage_stack_args\<close>, from \<open>i = 0\<close>, and the whole.\<close>

fun stage_loop :: "u64 \<Rightarrow> nat \<Rightarrow> u64 list \<Rightarrow> memory \<Rightarrow> memory" where
  "stage_loop aligned i [] m = m"
| "stage_loop aligned i (x # xs) m =
     stage_loop aligned (Suc i) xs (write_bytes m (aligned + 8 * word_of_nat i) (to_bytes x))"

definition stage_stack_args :: "arch \<Rightarrow> MarshalResult \<Rightarrow> LFIRegs \<Rightarrow> memory \<Rightarrow> LFIRegs \<times> memory" where
  "stage_stack_args a r regs m =
     (if m_n_stack r = 0 then (regs, m)
      else
        let rsp = get_sp a regs;
            aligned = (rsp - 8 * word_of_nat (m_n_stack r)) AND NOT 0xF
        in (set_sp a aligned regs, stage_loop aligned 0 (take (m_n_stack r) (m_stack_args r)) m))"

text \<open>The result: \<open>memcpy(&ret, &raw, sizeof(ret))\<close>; \<open>junk\<close> is the uninitialised \<open>ret\<close>.\<close>

definition lfi_return :: "arch \<Rightarrow> cxx_type \<Rightarrow> byte list \<Rightarrow> LFIRegs \<Rightarrow> byte list option" where
  "lfi_return a ret junk regs =
     (if is_floating (remove_cv ret) then memcpy_to junk 0 (to_bytes (get_float_return regs)) (length junk)
      else if is_pointer ret then Some (to_bytes (get_int_return a regs))
      else memcpy_to junk 0 (to_bytes (get_int_return a regs)) (length junk))"

section \<open>Agreement with the process backend\<close>

text \<open>For the types that a call can carry in either backend, both compute the same word and class.\<close>

abbreviation ffi_type :: "cxx_type \<Rightarrow> DyfnType" where
  "ffi_type t \<equiv> sent_type (pbox_type_v t)"

definition portable_type :: "cxx_type \<Rightarrow> bool" where
  "portable_type t \<longleftrightarrow> pbox_type t \<noteq> None \<and> t \<noteq> CVoid"

lemma portable_type_facts:
  assumes "portable_type t" "has_type t v"
  shows "length v = dyfn_type_size (ffi_type t)" "is_float_arg t = is_float_type (ffi_type t)" "arg_word t v = Some (poke64 0 v)"
proof -
  have p: "pbox_type t \<noteq> None" "t \<noteq> CVoid" using assms(1) by (simp_all add: portable_type_def)
  show n: "length v = dyfn_type_size (ffi_type t)"
    using pbox_type_matches [OF p(1)] p(2) assms(2) by (simp add: has_type_def)
  show "is_float_arg t = is_float_type (ffi_type t)"
    using p by (cases t) (auto simp: is_float_arg_def is_floating_def is_float_type_iff pbox_type_v_def dyfn_of_code_def)
  have "is_pointer t \<Longrightarrow> length v = 8" using pointer_size [of t] assms(2) by (simp add: has_type_def)
  moreover have "length v \<le> 8" using n dyfn_type_size_le_8 by simp
  ultimately show "arg_word t v = Some (poke64 0 v)"
    by (auto simp: arg_word_def memcpy_to_def poke64_def blit_def)
qed

definition marshal_sim :: "arch \<Rightarrow> u64 \<Rightarrow> DyfnCallArgs \<Rightarrow> marshal_state \<Rightarrow> bool" where
  "marshal_sim a sp call s \<longleftrightarrow>
     length (int_regs call) = 8 \<and> length (float_regs call) = 8 \<and> length (stack_args call) = 4 \<and>
     length (m_stack_args (m_result s)) = max_args \<and>
     m_int_idx s = int_count call \<and> m_float_idx s = float_count call \<and> m_n_stack (m_result s) = stack_count call \<and>
     stack_count call \<le> 4 \<and> int_count call \<le> dyfn_int_arg_regs a \<and> float_count call \<le> 8 \<and>
     (\<forall>k<8. int_count call \<le> k \<longrightarrow> int_regs call ! k = 0) \<and>
     (\<forall>k<8. float_count call \<le> k \<longrightarrow> float_regs call ! k = 0) \<and>
     (\<forall>k<4. stack_count call \<le> k \<longrightarrow> stack_args call ! k = 0) \<and>
     (\<forall>k<int_count call. gprs (m_regs s) (int_arg_gprs a ! k) = int_regs call ! k) \<and>
     (\<forall>k<float_count call. fprs (m_regs s) (2 * k) = float_regs call ! k) \<and>
     (\<forall>k < stack_count call. m_stack_args (m_result s) ! k = stack_args call ! k) \<and>
     get_sp a (m_regs s) = sp"

lemma int_arg_gprs_facts:
  "length (int_arg_gprs a) = dyfn_int_arg_regs a" "max_int_reg_args a = dyfn_int_arg_regs a" "distinct (int_arg_gprs a)"
  "sp_gpr a \<notin> set (int_arg_gprs a)" "dyfn_int_arg_regs a \<le> 8"
  by (cases a; simp add: max_int_reg_args_def)+

lemma get_sp_set_int_arg [simp]: "get_sp a (set_int_arg a i v regs) = get_sp a regs"
  using int_arg_gprs_facts(4) [of a] nth_mem [of i "int_arg_gprs a"] by (auto simp: get_sp_def set_int_arg_def)

lemma get_sp_set_float_arg [simp]: "get_sp a (set_float_arg i v regs) = get_sp a regs"
  by (simp add: get_sp_def set_float_arg_def)

lemma fprs_set_int_arg [simp]: "fprs (set_int_arg a i v regs) = fprs regs"
  by (simp add: set_int_arg_def)

lemma gprs_set_int_arg:
  "i < dyfn_int_arg_regs a \<Longrightarrow> k < dyfn_int_arg_regs a \<Longrightarrow>
     gprs (set_int_arg a i v regs) (int_arg_gprs a ! k) = (if k = i then v else gprs regs (int_arg_gprs a ! k))"
  using nth_eq_iff_index_eq [OF int_arg_gprs_facts(3), of k a i]
  by (auto simp: set_int_arg_def int_arg_gprs_facts(1))

lemma marshal_arg_sim:
  assumes sim: "marshal_sim a sp call s" and t: "portable_type t" "has_type t v"
    and step: "dyfn_prep_arg a (ffi_type t) v call = Some call'"
  shows "\<exists>s'. marshal_arg a t v s = Some s' \<and> marshal_sim a sp call' s'"
proof -
  note f = portable_type_facts [OF t]
  note sim' = sim [unfolded marshal_sim_def]
  have put: "put_reg regs k v (dyfn_type_size (ffi_type t)) = Some r \<longleftrightarrow> k < length regs \<and> r = regs[k := poke64 (regs ! k) v]" for regs k r
    using f(1) dyfn_type_size_le_8 [of "ffi_type t"] by (auto simp: put_reg_def)
  show ?thesis
  proof (cases "is_float_arg t")
    case True
    then have cls: "dyfn_classify (ffi_type t) = DYFN_CLASS_FLOAT \<or> dyfn_classify (ffi_type t) = DYFN_CLASS_DOUBLE"
      using f(2) by (simp add: is_float_type_def)
    show ?thesis
    proof (cases "float_count call < 8")
      case True
      with step cls have "call' = call\<lparr>float_regs := (float_regs call)[float_count call := poke64 0 v], float_count := float_count call + 1\<rparr>"
        using sim' by (auto simp: dyfn_prep_arg_def put)
      with True \<open>is_float_arg t\<close> f(3) sim show ?thesis
        by (auto simp: marshal_arg_def marshal_sim_def set_float_arg_def nth_list_update less_Suc_eq get_sp_def)
    next
      case False
      with step cls have "call' = call\<lparr>stack_args := (stack_args call)[stack_count call := poke64 0 v], stack_count := stack_count call + 1\<rparr>"
        "stack_count call < 4"
        using sim' by (auto simp: dyfn_prep_arg_def put)
      with False \<open>is_float_arg t\<close> f(3) sim show ?thesis
        by (auto simp: marshal_arg_def marshal_sim_def push_stack_arg_def store_at_def nth_list_update less_Suc_eq)
    qed
  next
    case nf: False
    then have cls: "\<not> (dyfn_classify (ffi_type t) = DYFN_CLASS_FLOAT \<or> dyfn_classify (ffi_type t) = DYFN_CLASS_DOUBLE)"
      using f(2) by (simp add: is_float_type_def)
    show ?thesis
    proof (cases "int_count call < dyfn_int_arg_regs a")
      case True
      with step cls have "call' = call\<lparr>int_regs := (int_regs call)[int_count call := poke64 0 v], int_count := int_count call + 1\<rparr>"
        using sim' int_arg_gprs_facts(5) [of a] by (auto simp: dyfn_prep_arg_def put)
      with True nf f(3) sim int_arg_gprs_facts(2,5) [of a] show ?thesis
        by (auto simp: marshal_arg_def marshal_sim_def gprs_set_int_arg nth_list_update less_Suc_eq)
    next
      case False
      with step cls have "call' = call\<lparr>stack_args := (stack_args call)[stack_count call := poke64 0 v], stack_count := stack_count call + 1\<rparr>"
        "stack_count call < 4"
        using sim' by (auto simp: dyfn_prep_arg_def put)
      with False nf f(3) sim int_arg_gprs_facts(2) [of a] show ?thesis
        by (auto simp: marshal_arg_def marshal_sim_def push_stack_arg_def store_at_def nth_list_update less_Suc_eq)
    qed
  qed
qed

text \<open>The whole loop; no out-of-bounds write happens in either backend.\<close>

lemma marshal_loop_sim:
  assumes "marshal_sim a sp call s" "list_all portable_type ts" "list_all2 has_type ts vs"
    and "dyfn_prep_loop a (zip (map ffi_type ts) vs) call = Some call'"
  shows "\<exists>s'. marshal_loop a (zip ts vs) s = Some s' \<and> marshal_sim a sp call' s'"
  using assms
proof (induction ts vs arbitrary: call s rule: list_induct2')
  case (4 t ts v vs)
  from "4.prems"(4) obtain c where c: "dyfn_prep_arg a (ffi_type t) v call = Some c" "dyfn_prep_loop a (zip (map ffi_type ts) vs) c = Some call'"
    by (auto split: option.splits)
  obtain s1 where s1: "marshal_arg a t v s = Some s1" "marshal_sim a sp c s1"
    using marshal_arg_sim [OF "4.prems"(1) _ _ c(1)] "4.prems"(2,3) by auto
  from "4.IH" [OF s1(2) _ _ c(2)] "4.prems"(2,3) s1(1) show ?case by simp
qed simp_all

section \<open>The staged stack\<close>

lemma stage_loop_below:
  "unat q + n \<le> unat al + 8 * i \<Longrightarrow> unat al + 8 * (i + length xs) < 2 ^ 64 \<Longrightarrow>
     read_bytes (stage_loop al i xs m) q n = read_bytes m q n"
proof (induction xs arbitrary: i m)
  case (Cons x xs)
  have "unat (8 * word_of_nat i :: u64) = 8 * i" using Cons.prems(2) by (simp add: unat_word_ariths unat_of_nat)
  then have u: "unat (al + 8 * word_of_nat i) = unat al + 8 * i" using Cons.prems(2) by (subst unat_add64) simp_all
  have "read_bytes (write_bytes m (al + 8 * word_of_nat i) (to_bytes x)) q n = read_bytes m q n"
    using Cons.prems u by (intro read_write_other) simp_all
  then show ?case using Cons.IH [of "Suc i"] Cons.prems by simp
qed simp

lemma stage_loop_above:
  "unat al + 8 * (i + length xs) \<le> unat q \<Longrightarrow> unat q + n \<le> 2 ^ 64 \<Longrightarrow>
     read_bytes (stage_loop al i xs m) q n = read_bytes m q n"
proof (induction xs arbitrary: i m)
  case (Cons x xs)
  have q: "unat q < 2 ^ 64" using unsigned_less [of q, where ?'a = nat] by simp
  have "unat (8 * word_of_nat i :: u64) = 8 * i" using Cons.prems(1) q by (simp add: unat_word_ariths unat_of_nat)
  then have u: "unat (al + 8 * word_of_nat i) = unat al + 8 * i" using Cons.prems(1) q by (subst unat_add64) simp_all
  have "read_bytes (write_bytes m (al + 8 * word_of_nat i) (to_bytes x)) q n = read_bytes m q n"
    using Cons.prems u by (intro read_write_above) simp_all
  then show ?case using Cons.IH [of "Suc i"] Cons.prems by simp
qed simp

lemma stage_loop_slot:
  "j < length xs \<Longrightarrow> unat al + 8 * (i + length xs) < 2 ^ 64 \<Longrightarrow>
     read_bytes (stage_loop al i xs m) (al + 8 * word_of_nat (i + j)) 8 = to_bytes (xs ! j)"
proof (induction xs arbitrary: i j m)
  case (Cons x xs)
  have "unat (8 * word_of_nat i :: u64) = 8 * i" using Cons.prems(2) by (simp add: unat_word_ariths unat_of_nat)
  then have u: "unat (al + 8 * word_of_nat i) = unat al + 8 * i" using Cons.prems(2) by (subst unat_add64) simp_all
  show ?case
  proof (cases j)
    case 0
    have "read_bytes (stage_loop al (Suc i) xs (write_bytes m (al + 8 * word_of_nat i) (to_bytes x))) (al + 8 * word_of_nat i) 8 =
        read_bytes (write_bytes m (al + 8 * word_of_nat i) (to_bytes x)) (al + 8 * word_of_nat i) 8"
      using Cons.prems u by (intro stage_loop_below) simp_all
    also have "\<dots> = to_bytes x" using read_write_bytes [of "to_bytes x" m "al + 8 * word_of_nat i"] by simp
    finally show ?thesis using 0 by simp
  next
    case (Suc j')
    with Cons.IH [of j' "Suc i"] Cons.prems show ?thesis by simp
  qed
qed simp

text \<open>Where the callee finds its arguments; on x86-64 the trampoline pushes the return address below them.\<close>

fun lfi_loc :: "arch \<Rightarrow> LFIRegs \<Rightarrow> memory \<Rightarrow> arg_loc \<Rightarrow> u64" where
  "lfi_loc a regs m (IntReg k) = gprs regs (int_arg_gprs a ! k)"
| "lfi_loc a regs m (FloatReg k) = fprs regs (2 * k)"
| "lfi_loc a regs m (StackSlot k) = of_bytes (read_bytes m (get_sp a regs + 8 * word_of_nat k) 8)"

lemma get_set_sp [simp]: "get_sp a (set_sp a sp regs) = sp"
  by (simp add: get_sp_def set_sp_def)

lemma set_sp_other: "k < dyfn_int_arg_regs a \<Longrightarrow> gprs (set_sp a sp regs) (int_arg_gprs a ! k) = gprs regs (int_arg_gprs a ! k)"
  using int_arg_gprs_facts(4) [of a] nth_mem [of k "int_arg_gprs a"] unfolding int_arg_gprs_facts(1) by (auto simp: set_sp_def)

text \<open>The staged stack pointer: 16-byte aligned, at most 15 bytes below the \<open>8 * n\<close> bytes of the slots.\<close>

lemma align_down16:
  assumes "8 * n + 15 \<le> unat sp"
  shows "unat ((sp - 8 * word_of_nat n) AND NOT 0xF) + 8 * n \<le> unat sp"
    and "unat sp < unat ((sp - 8 * word_of_nat n) AND NOT 0xF) + 8 * n + 16"
    and "16 dvd unat ((sp - 8 * word_of_nat n :: u64) AND NOT 0xF)"
proof -
  have e: "(0xF :: u64) = mask 4" by (simp add: mask_eq_exp_minus_1)
  have "unat sp < 2 ^ 64" using unsigned_less [of sp, where ?'a = nat] by simp
  then have n: "unat (8 * word_of_nat n :: u64) = 8 * n" using assms by (simp add: unat_word_ariths unat_of_nat)
  then have "unat (sp - 8 * word_of_nat n) = unat sp - 8 * n"
    using assms by (subst unat_sub) (simp_all add: word_le_nat_alt)
  then have al: "unat ((sp - 8 * word_of_nat n) AND NOT 0xF) = (unat sp - 8 * n) - (unat sp - 8 * n) mod 16"
    unfolding e unat_and_not_mask64 by simp
  show "unat ((sp - 8 * word_of_nat n) AND NOT 0xF) + 8 * n \<le> unat sp" using al assms by simp
  have "(unat sp - 8 * n) mod 16 < 16" by simp
  then show "unat sp < unat ((sp - 8 * word_of_nat n) AND NOT 0xF) + 8 * n + 16" using al assms by linarith
  show "16 dvd unat ((sp - 8 * word_of_nat n) AND NOT 0xF)" unfolding al by (rule dvd_minus_mod)
qed

text \<open>What the two steps establish together, for a stack pointer with room below it.\<close>

definition frame_agrees :: "arch \<Rightarrow> DyfnType list \<Rightarrow> DyfnCallArgs \<Rightarrow> LFIRegs \<Rightarrow> memory \<Rightarrow> bool" where
  "frame_agrees a ts call regs m \<longleftrightarrow> (\<forall>i<length ts. lfi_loc a regs m (abi_loc a ts i) = call_loc call (abi_loc a ts i))"

lemma stage_facts:
  assumes "stage_stack_args a r regs m = (regs2, m2)" "m_n_stack r \<le> length (m_stack_args r)" "8 * m_n_stack r + 15 \<le> unat (get_sp a regs)"
  shows "unat (get_sp a regs2) + 8 * m_n_stack r \<le> unat (get_sp a regs)"
    "m_n_stack r \<noteq> 0 \<Longrightarrow> 16 dvd unat (get_sp a regs2)"
    "m_n_stack r = 0 \<Longrightarrow> get_sp a regs2 = get_sp a regs"
    "\<And>k. k < dyfn_int_arg_regs a \<Longrightarrow> gprs regs2 (int_arg_gprs a ! k) = gprs regs (int_arg_gprs a ! k)" "fprs regs2 = fprs regs"
    "\<And>k. k < m_n_stack r \<Longrightarrow> lfi_loc a regs2 m2 (StackSlot k) = m_stack_args r ! k"
    "\<And>q n. unat (get_sp a regs) \<le> unat q \<Longrightarrow> unat q + n \<le> 2 ^ 64 \<Longrightarrow> read_bytes m2 q n = read_bytes m q n"
    "\<And>g. g \<noteq> sp_gpr a \<Longrightarrow> gprs regs2 g = gprs regs g"
proof -
  let ?n = "m_n_stack r" and ?sp = "get_sp a regs"
  let ?al = "(?sp - 8 * word_of_nat ?n) AND NOT 0xF"
  note al = align_down16 [OF assms(3)]
  have lt: "unat ?sp < 2 ^ 64" using unsigned_less [of ?sp, where ?'a = nat] by simp
  have res: "?n \<noteq> 0 \<Longrightarrow> regs2 = set_sp a ?al regs \<and> m2 = stage_loop ?al 0 (take ?n (m_stack_args r)) m"
    "?n = 0 \<Longrightarrow> regs2 = regs \<and> m2 = m"
    using assms(1) by (auto simp: stage_stack_args_def Let_def)
  show "unat (get_sp a regs2) + 8 * ?n \<le> unat ?sp" using res al(1) by (cases "?n = 0") simp_all
  show "?n \<noteq> 0 \<Longrightarrow> 16 dvd unat (get_sp a regs2)" using res(1) al(3) by simp
  show "?n = 0 \<Longrightarrow> get_sp a regs2 = ?sp" using res(2) by simp
  show "gprs regs2 (int_arg_gprs a ! k) = gprs regs (int_arg_gprs a ! k)" if "k < dyfn_int_arg_regs a" for k
    using res set_sp_other [OF that] by (cases "?n = 0") simp_all
  show "fprs regs2 = fprs regs" using res by (cases "?n = 0") (simp_all add: set_sp_def)
  show "gprs regs2 g = gprs regs g" if "g \<noteq> sp_gpr a" for g
    using res that by (cases "?n = 0") (simp_all add: set_sp_def)
  show "lfi_loc a regs2 m2 (StackSlot k) = m_stack_args r ! k" if "k < ?n" for k
    using stage_loop_slot [of k "take ?n (m_stack_args r)" ?al 0 m] res(1) al(1) lt that assms(2) by simp
  show "read_bytes m2 q n = read_bytes m q n" if "unat ?sp \<le> unat q" "unat q + n \<le> 2 ^ 64" for q n
    using stage_loop_above [of ?al 0 "take ?n (m_stack_args r)" q n m] res al(1) that assms(2)
    by (cases "?n = 0") simp_all
qed

lemma lfi_frame:
  assumes "list_all portable_type ts" "list_all2 has_type ts vs" "length ts \<le> max_args" "47 \<le> unat (get_sp a regs)"
  obtains regs1 r regs2 m2 call where
    "marshal_args_lfi a ts vs regs = Some (regs1, r)" "get_sp a regs1 = get_sp a regs" "stage_stack_args a r regs1 m = (regs2, m2)"
    "dyfn_prep_call a f rt (int (length ts)) (map ffi_type ts) vs = Some call" "frame_agrees a (map ffi_type ts) call regs2 m2"
    "m_n_stack r = stack_count call" "stack_count call \<le> 4" "length (m_stack_args r) = max_args"
proof -
  let ?ts = "map ffi_type ts" and ?c0 = "zeroed_call\<lparr>func := f, ret_class := dyfn_classify rt\<rparr>"
  have len: "length vs = length ts" using assms(2) by (simp add: list_all2_lengthD)
  have "dyfn_type_size (?ts ! i) \<le> length (vs ! i)" if "i < length ts" for i
    using assms(1,2) that portable_type_facts(1) [of "ts ! i" "vs ! i"] by (simp add: list_all_length list_all2_conv_all_nth)
  then have "args_ok (int (length ts)) ?ts vs" using assms(3) len by (simp add: args_ok_def)
  then obtain call where call: "dyfn_prep_call a f rt (int (length ts)) ?ts vs = Some call"
    using dyfn_prep_call_total by blast
  then have loop: "dyfn_prep_loop a (zip ?ts vs) ?c0 = Some call" by (simp add: dyfn_prep_call_def len)
  have "marshal_sim a (get_sp a regs) ?c0 (marshal_start regs)"
    by (simp add: marshal_sim_def zeroed_call_def marshal_start_def)
  from marshal_loop_sim [OF this assms(1,2) loop] obtain s where
    s: "marshal_loop a (zip ts vs) (marshal_start regs) = Some s" and sim: "marshal_sim a (get_sp a regs) call s" by blast
  have inv: "prep_inv a f (dyfn_classify rt) (zip ?ts vs) call" by (rule prep_loop_inv [OF loop])
  have ml: "map fst (zip ?ts vs) = ?ts" by (simp add: len)
  have cnt: "int_count call = min (ints_before ?ts (length ?ts)) (dyfn_int_arg_regs a)" "float_count call = min (floats_before ?ts (length ?ts)) 8"
    "stack_count call = stack_before a ?ts (length ?ts)"
    using inv unfolding prep_inv_def Let_def ml by (simp_all add: len)
  note sim' = sim [unfolded marshal_sim_def]
  obtain regs2 m2 where st: "stage_stack_args a (m_result s) (m_regs s) m = (regs2, m2)" by fastforce
  have n: "m_n_stack (m_result s) = stack_count call" "stack_count call \<le> 4" "length (m_stack_args (m_result s)) = max_args"
    "get_sp a (m_regs s) = get_sp a regs" using sim' by blast+
  have "m_n_stack (m_result s) \<le> length (m_stack_args (m_result s))" "8 * m_n_stack (m_result s) + 15 \<le> unat (get_sp a (m_regs s))"
    using n assms(4) by simp_all
  note sf = stage_facts [OF st this]
  have "lfi_loc a regs2 m2 (abi_loc a ?ts i) = call_loc call (abi_loc a ?ts i)" if "i < length ?ts" for i
  proof -
    have used: "loc_used (int_count call) (float_count call) (stack_count call) (abi_loc a ?ts i)"
      unfolding cnt by (rule abi_loc_used [OF that])
    have le: "int_count call \<le> dyfn_int_arg_regs a" using sim' by blast
    show ?thesis
    proof (cases "abi_loc a ?ts i")
      case (IntReg k)
      with used le have "k < int_count call" "k < dyfn_int_arg_regs a" by simp_all
      then show ?thesis using sf(4) sim' IntReg by simp
    next
      case (FloatReg k)
      with used have "k < float_count call" by simp
      then show ?thesis using sf(5) sim' FloatReg by simp
    next
      case (StackSlot k)
      with used have "k < stack_count call" by simp
      then show ?thesis using sf(6) [of k] sim' n(1) StackSlot by (simp del: lfi_loc.simps)
    qed
  qed
  then have "frame_agrees a ?ts call regs2 m2" by (simp only: frame_agrees_def) blast
  moreover have "marshal_args_lfi a ts vs regs = Some (m_regs s, m_result s)" using s assms(3) by (simp add: marshal_args_lfi_def)
  ultimately show thesis using that [of "m_regs s" "m_result s" regs2 m2 call] st call n by blast
qed

end
