(* ===== verification/Lfi.thy ===== *)
theory Lfi
  imports LfiCalls ContextParams
begin

text \<open>
  The class \<open>Sandbox<LFI>\<close> and its \<open>CallContext\<close> (\<open>include/sbox/lfi.hh\<close>, \<open>src/sbox_lfi.cc\<close>), as one host
  thread sees them. The sandbox lives in the host's address space, so there is one memory. The LFI
  runtime is not part of the repository: the entry into the sandbox, its heap, its symbol table and
  its contexts are the parameter \<open>lfi_env\<close>. Dereferencing a null context is \<open>Aborts\<close>.
\<close>

section \<open>State\<close>

text \<open>
  \<open>l_ctx_regs\<close> gives the registers of an \<open>LFIContext\<close> (\<open>lfi_ctx_regs\<close>); \<open>l_entries\<close> is the thread's
  deque of boxes and contexts, and a pointer into it is an index; \<open>l_invoke\<close> is \<open>lfi_invoke_info\<close>.
\<close>

record 'g lfi_world =
  l_mem :: memory
  l_ctx_regs :: "u64 \<Rightarrow> LFIRegs"
  l_entries :: "(u64 \<times> u64) list"
  l_symbols :: "byte list \<Rightarrow> u64 option"
  l_idmem :: "u64 list"
  l_vars :: "nat \<Rightarrow> byte list"
  l_tls :: u64
  l_invoke :: "nat \<times> u64 \<times> u64"
  l_user :: 'g

record lfi_sandbox =
  ls_this :: u64
  ls_box :: u64
  ls_main_tid :: u64

text \<open>The constants \<open>LFI_PROT_*\<close> and \<open>LFI_MAP_*\<close> of the runtime's headers.\<close>

record lfi_flags =
  LFI_PROT_READ :: u32
  LFI_PROT_WRITE :: u32
  LFI_PROT_EXEC :: u32
  LFI_MAP_SHARED :: u32
  LFI_MAP_PRIVATE :: u32
  LFI_MAP_FIXED :: u32
  LFI_MAP_ANONYMOUS :: u32

text \<open>\<open>le_main_ctx\<close> is \<open>*lfi_thread_ctxp(main_thread)\<close>, \<open>le_tid\<close> the calling thread.\<close>

record 'g lfi_env =
  le_arch :: arch
  le_tid :: u64
  le_main_ctx :: u64
  le_clone :: "u64 \<Rightarrow> 'g lfi_world \<Rightarrow> u64 \<times> 'g lfi_world"
  le_trampoline :: "'g lfi_world \<Rightarrow> 'g lfi_world outcome"
  le_proc_sym :: "byte list \<Rightarrow> u64"
  le_malloc :: "u64 \<Rightarrow> nat \<Rightarrow> u64 \<Rightarrow> 'g lfi_world \<Rightarrow> u64 \<times> 'g lfi_world"
  le_calloc :: "u64 \<Rightarrow> nat \<Rightarrow> u64 \<Rightarrow> u64 \<Rightarrow> 'g lfi_world \<Rightarrow> u64 \<times> 'g lfi_world"
  le_realloc :: "u64 \<Rightarrow> nat \<Rightarrow> u64 \<Rightarrow> u64 \<Rightarrow> 'g lfi_world \<Rightarrow> u64 \<times> 'g lfi_world"
  le_free :: "u64 \<Rightarrow> nat \<Rightarrow> u64 \<Rightarrow> 'g lfi_world \<Rightarrow> 'g lfi_world"
  le_bufvalid :: "u64 \<Rightarrow> u64 \<Rightarrow> u64 \<Rightarrow> bool"
  le_register_cb :: "u64 \<Rightarrow> u64 \<Rightarrow> u64"
  le_mapat :: "u64 \<Rightarrow> u64 \<Rightarrow> u64 \<Rightarrow> u32 \<Rightarrow> u32 \<Rightarrow> int \<Rightarrow> int \<Rightarrow> 'g lfi_world \<Rightarrow> u64 \<times> 'g lfi_world"
  le_mapany :: "u64 \<Rightarrow> u64 \<Rightarrow> u32 \<Rightarrow> u32 \<Rightarrow> int \<Rightarrow> int \<Rightarrow> 'g lfi_world \<Rightarrow> u64 \<times> 'g lfi_world"
  le_munmap :: "u64 \<Rightarrow> u64 \<Rightarrow> u64 \<Rightarrow> 'g lfi_world \<Rightarrow> int \<times> 'g lfi_world"
  le_flags :: lfi_flags

section \<open>The context of a thread\<close>

definition get_thread_ctx :: "'g lfi_env \<Rightarrow> lfi_sandbox \<Rightarrow> 'g lfi_world \<Rightarrow> nat \<times> 'g lfi_world" where
  "get_thread_ctx e sb w =
     (case scan_from (\<lambda>x. fst x = ls_box sb) 0 (l_entries w) of
        Some i \<Rightarrow> (i, w)
      | None \<Rightarrow> (length (l_entries w),
          w\<lparr>l_entries := l_entries w @ [(ls_box sb, if ls_main_tid sb = le_tid e then le_main_ctx e else 0)]\<rparr>))"

abbreviation ctx_at :: "nat \<Rightarrow> 'g lfi_world \<Rightarrow> u64" where
  "ctx_at i w \<equiv> snd (l_entries w ! i)"

definition set_regs :: "u64 \<Rightarrow> LFIRegs \<Rightarrow> 'g lfi_world \<Rightarrow> 'g lfi_world" where
  "set_regs c regs w = w\<lparr>l_ctx_regs := (l_ctx_regs w)(c := regs)\<rparr>"

text \<open>\<open>lfi_ctx_regs(*get_thread_ctx())\<close> as the stack operations use it, without a test for null.\<close>

definition thread_regs :: "'g lfi_env \<Rightarrow> lfi_sandbox \<Rightarrow> 'g lfi_world \<Rightarrow> (u64 \<times> 'g lfi_world) outcome" where
  "thread_regs e sb w =
     (let (i, w1) = get_thread_ctx e sb w in if ctx_at i w1 = 0 then Aborts else Returns (ctx_at i w1, w1))"

definition stack_push :: "'g lfi_env \<Rightarrow> lfi_sandbox \<Rightarrow> u64 \<Rightarrow> u64 \<Rightarrow> 'g lfi_world \<Rightarrow> (u64 \<times> 'g lfi_world) outcome" where
  "stack_push e sb sz al w =
     and_then (thread_regs e sb w)
       (\<lambda>(c, w1).
          let regs = l_ctx_regs w1 c; sp = (get_sp (le_arch e) regs - sz) AND NOT (al - 1)
          in Returns (sp, set_regs c (set_sp (le_arch e) sp regs) w1))"

definition stack_save :: "'g lfi_env \<Rightarrow> lfi_sandbox \<Rightarrow> 'g lfi_world \<Rightarrow> (u64 \<times> 'g lfi_world) outcome" where
  "stack_save e sb w = and_then (thread_regs e sb w) (\<lambda>(c, w1). Returns (get_sp (le_arch e) (l_ctx_regs w1 c), w1))"

definition stack_restore :: "'g lfi_env \<Rightarrow> lfi_sandbox \<Rightarrow> u64 \<Rightarrow> 'g lfi_world \<Rightarrow> 'g lfi_world outcome" where
  "stack_restore e sb sp w =
     and_then (thread_regs e sb w) (\<lambda>(c, w1). Returns (set_regs c (set_sp (le_arch e) sp (l_ctx_regs w1 c)) w1))"

section \<open>Calls\<close>

text \<open>The first call of a worker thread clones a context; a failure aborts.\<close>

definition ensure_ctx :: "'g lfi_env \<Rightarrow> lfi_sandbox \<Rightarrow> nat \<Rightarrow> 'g lfi_world \<Rightarrow> 'g lfi_world outcome" where
  "ensure_ctx e sb i w =
     (if ctx_at i w = 0 then
        (let (c, w1) = le_clone e (ls_box sb) w;
             w2 = w1\<lparr>l_entries := (l_entries w1)[i := (fst (l_entries w1 ! i), c)]\<rparr>
         in if ctx_at i w2 = 0 then Aborts else Returns w2)
      else Returns w)"

text \<open>What happens up to the trampoline: the context, its stack pointer before staging, and the state at the entry.\<close>

definition lfi_enter ::
  "'g lfi_env \<Rightarrow> lfi_sandbox \<Rightarrow> u64 \<Rightarrow> cxx_type list \<Rightarrow> byte list list \<Rightarrow> 'g lfi_world \<Rightarrow> (u64 \<times> u64 \<times> 'g lfi_world) outcome" where
  "lfi_enter e sb fn params vs w =
     (let (i, w1) = get_thread_ctx e sb (w\<lparr>l_tls := ls_this sb\<rparr>) in
      and_then (ensure_ctx e sb i w1) (\<lambda>w2.
        let w3 = w2\<lparr>l_invoke := (i, fn, ls_box sb)\<rparr>; c = ctx_at i w3 in
        and_then (checked (marshal_args_lfi (le_arch e) params vs (l_ctx_regs w3 c))) (\<lambda>(regs, r).
          let saved_sp = get_sp (le_arch e) regs;
              (regs', m) = stage_stack_args (le_arch e) r regs (l_mem w3)
          in Returns (c, saved_sp, set_regs c regs' (w3\<lparr>l_mem := m\<rparr>)))))"

text \<open>\<open>call_ptr\<close>; a result that is larger than a register is read out of bounds.\<close>

definition lfi_call_ptr ::
  "'g lfi_env \<Rightarrow> lfi_sandbox \<Rightarrow> u64 \<Rightarrow> cxx_type \<Rightarrow> cxx_type list \<Rightarrow> byte list list \<Rightarrow> byte list \<Rightarrow> 'g lfi_world \<Rightarrow>
     (byte list option \<times> 'g lfi_world) outcome" where
  "lfi_call_ptr e sb fn ret params vs junk w =
     and_then (lfi_enter e sb fn params vs w) (\<lambda>(c, saved_sp, w1).
       and_then (le_trampoline e w1) (\<lambda>w2.
         let regs = set_sp (le_arch e) saved_sp (l_ctx_regs w2 c); w3 = set_regs c regs w2 in
         if ret = CVoid then Returns (None, w3)
         else and_then (checked (lfi_return (le_arch e) ret junk regs)) (\<lambda>b. Returns (Some b, w3))))"

text \<open>\<open>lookup\<close>: names are compared as strings, an unknown one aborts.\<close>

definition lfi_lookup :: "'g lfi_env \<Rightarrow> byte list \<Rightarrow> 'g lfi_world \<Rightarrow> (u64 \<times> 'g lfi_world) outcome" where
  "lfi_lookup e =
     cached_lookup (\<lambda>n w. if le_proc_sym e n = 0 then Aborts else Returns (le_proc_sym e n, w)) l_symbols
       (\<lambda>n s w. w\<lparr>l_symbols := (l_symbols w)(n \<mapsto> s)\<rparr>)"

definition lfi_call ::
  "'g lfi_env \<Rightarrow> lfi_sandbox \<Rightarrow> bool \<Rightarrow> (cxx_type \<Rightarrow> cxx_type \<Rightarrow> byte list \<Rightarrow> byte list) \<Rightarrow> byte list \<Rightarrow> cxx_type \<Rightarrow>
     cxx_type list \<Rightarrow> (cxx_type \<times> byte list) list \<Rightarrow> byte list \<Rightarrow> 'g lfi_world \<Rightarrow> (byte list option \<times> 'g lfi_world) outcome" where
  "lfi_call e sb ch fp name ret params xs junk w =
     and_then (lfi_lookup e name w) (\<lambda>(fn, w1).
       and_then (checked (convert_args ch fp params xs)) (\<lambda>vs. lfi_call_ptr e sb fn ret params vs junk w1))"

definition lfi_typed_call ::
  "'g lfi_env \<Rightarrow> lfi_sandbox \<Rightarrow> bool \<Rightarrow> (cxx_type \<Rightarrow> cxx_type \<Rightarrow> byte list \<Rightarrow> byte list) \<Rightarrow> byte list \<Rightarrow> cxx_type \<Rightarrow>
     cxx_type list \<Rightarrow> (cxx_type \<times> byte list) list \<Rightarrow> byte list \<Rightarrow> 'g lfi_world \<Rightarrow> (byte list option \<times> 'g lfi_world) outcome" where
  "lfi_typed_call e sb ch fp name ret params xs junk w =
     (if typed_call_ok params (map fst xs) then lfi_call e sb ch fp name ret params xs junk w else Aborts)"

text \<open>Function handles.\<close>

definition lfi_fn :: "'g lfi_env \<Rightarrow> lfi_sandbox \<Rightarrow> byte list \<Rightarrow> 'g lfi_world \<Rightarrow> (FnHandle \<times> 'g lfi_world) outcome" where
  "lfi_fn e sb name w =
     and_then (lfi_lookup e name w) (\<lambda>(fn, w1). Returns (\<lparr>fh_sandbox = ls_this sb, fh_fn_ptr = fn\<rparr>, w1))"

definition lfi_handle_call ::
  "'g lfi_env \<Rightarrow> lfi_sandbox \<Rightarrow> bool \<Rightarrow> (cxx_type \<Rightarrow> cxx_type \<Rightarrow> byte list \<Rightarrow> byte list) \<Rightarrow> FnHandle \<Rightarrow> cxx_type \<Rightarrow>
     cxx_type list \<Rightarrow> (cxx_type \<times> byte list) list \<Rightarrow> byte list \<Rightarrow> 'g lfi_world \<Rightarrow> (byte list option \<times> 'g lfi_world) outcome" where
  "lfi_handle_call e sb ch fp fh ret params xs junk w =
     and_then (checked (convert_args ch fp params xs)) (\<lambda>vs. lfi_call_ptr e sb (fh_fn_ptr fh) ret params vs junk w)"

section \<open>Memory\<close>

definition lfi_alloc :: "'g lfi_env \<Rightarrow> lfi_sandbox \<Rightarrow> nat \<Rightarrow> u64 \<Rightarrow> 'g lfi_world \<Rightarrow> u64 \<times> 'g lfi_world" where
  "lfi_alloc e sb sz cnt w = (let (i, w1) = get_thread_ctx e sb w in le_malloc e (ls_box sb) i (object_bytes sz cnt) w1)"

definition lfi_calloc :: "'g lfi_env \<Rightarrow> lfi_sandbox \<Rightarrow> nat \<Rightarrow> u64 \<Rightarrow> 'g lfi_world \<Rightarrow> u64 \<times> 'g lfi_world" where
  "lfi_calloc e sb sz cnt w = (let (i, w1) = get_thread_ctx e sb w in le_calloc e (ls_box sb) i cnt (word_of_nat sz) w1)"

definition lfi_realloc :: "'g lfi_env \<Rightarrow> lfi_sandbox \<Rightarrow> u64 \<Rightarrow> nat \<Rightarrow> u64 \<Rightarrow> 'g lfi_world \<Rightarrow> u64 \<times> 'g lfi_world" where
  "lfi_realloc e sb p sz cnt w =
     (let (i, w1) = get_thread_ctx e sb w in le_realloc e (ls_box sb) i p (object_bytes sz cnt) w1)"

definition lfi_free :: "'g lfi_env \<Rightarrow> lfi_sandbox \<Rightarrow> u64 \<Rightarrow> 'g lfi_world \<Rightarrow> 'g lfi_world" where
  "lfi_free e sb p w = (let (i, w1) = get_thread_ctx e sb w in le_free e (ls_box sb) i p w1)"

text \<open>Identity memory is the sandbox's heap, with a list of what to free. A null result is listed too.\<close>

definition lfi_idmem_alloc :: "'g lfi_env \<Rightarrow> lfi_sandbox \<Rightarrow> nat \<Rightarrow> u64 \<Rightarrow> 'g lfi_world \<Rightarrow> u64 \<times> 'g lfi_world" where
  "lfi_idmem_alloc e sb sz cnt w = (let (p, w1) = lfi_alloc e sb sz cnt w in (p, w1\<lparr>l_idmem := l_idmem w1 @ [p]\<rparr>))"

definition lfi_idmem_reset :: "'g lfi_env \<Rightarrow> lfi_sandbox \<Rightarrow> 'g lfi_world \<Rightarrow> 'g lfi_world" where
  "lfi_idmem_reset e sb w = (fold (lfi_free e sb) (l_idmem w) w)\<lparr>l_idmem := []\<rparr>"

definition lfi_verify :: "'g lfi_env \<Rightarrow> lfi_sandbox \<Rightarrow> nat \<Rightarrow> u64 \<Rightarrow> u64 \<Rightarrow> u64 outcome" where
  "lfi_verify e sb sz raw cnt =
     (if raw \<noteq> 0 \<and> \<not> le_bufvalid e (ls_box sb) raw (object_bytes sz cnt) then Aborts else Returns raw)"

definition lfi_copy_to :: "u64 \<Rightarrow> byte list \<Rightarrow> 'g lfi_world \<Rightarrow> 'g lfi_world" where
  "lfi_copy_to d s w = w\<lparr>l_mem := write_bytes (l_mem w) d s\<rparr>"

definition lfi_copy_from :: "u64 \<Rightarrow> nat \<Rightarrow> 'g lfi_world \<Rightarrow> byte list" where
  "lfi_copy_from s n w = read_bytes (l_mem w) s n"

definition lfi_copy_string :: "'g lfi_env \<Rightarrow> lfi_sandbox \<Rightarrow> byte list \<Rightarrow> 'g lfi_world \<Rightarrow> u64 \<times> 'g lfi_world" where
  "lfi_copy_string e sb s w =
     (let len = length s + 1; (buf, w1) = lfi_alloc e sb 1 (word_of_nat len) w
      in if buf = 0 then (0, w1) else (buf, lfi_copy_to buf (s @ [0]) w1))"

text \<open>The host's constants (Linux) are translated bit by bit; other flags are dropped.\<close>

definition lfi_prot :: "lfi_flags \<Rightarrow> u32 \<Rightarrow> u32" where
  "lfi_prot f prot =
     (if prot AND 1 \<noteq> 0 then LFI_PROT_READ f else 0) OR (if prot AND 2 \<noteq> 0 then LFI_PROT_WRITE f else 0) OR
     (if prot AND 4 \<noteq> 0 then LFI_PROT_EXEC f else 0)"

definition lfi_map_flags :: "lfi_flags \<Rightarrow> u32 \<Rightarrow> u32" where
  "lfi_map_flags f flags =
     (if flags AND 1 \<noteq> 0 then LFI_MAP_SHARED f else 0) OR (if flags AND 2 \<noteq> 0 then LFI_MAP_PRIVATE f else 0) OR
     (if flags AND 0x10 \<noteq> 0 then LFI_MAP_FIXED f else 0) OR (if flags AND 0x20 \<noteq> 0 then LFI_MAP_ANONYMOUS f else 0)"

definition lfi_mmap ::
  "'g lfi_env \<Rightarrow> lfi_sandbox \<Rightarrow> u64 \<Rightarrow> u64 \<Rightarrow> u32 \<Rightarrow> u32 \<Rightarrow> int \<Rightarrow> int \<Rightarrow> 'g lfi_world \<Rightarrow> u64 \<times> 'g lfi_world" where
  "lfi_mmap e sb addr len prot flags fd off w =
     (let p = lfi_prot (le_flags e) prot; fl = lfi_map_flags (le_flags e) flags in
      if flags AND 0x10 \<noteq> 0 then le_mapat e (ls_box sb) addr len p fl fd off w
      else le_mapany e (ls_box sb) len p fl fd off w)"

definition lfi_munmap :: "'g lfi_env \<Rightarrow> lfi_sandbox \<Rightarrow> u64 \<Rightarrow> u64 \<Rightarrow> 'g lfi_world \<Rightarrow> int \<times> 'g lfi_world" where
  "lfi_munmap e sb addr len w = le_munmap e (ls_box sb) addr len w"

text \<open>\<open>register_callback\<close>: a signature that needs stack arguments does not compile.\<close>

definition lfi_register_callback :: "'g lfi_env \<Rightarrow> lfi_sandbox \<Rightarrow> cxx_type list \<Rightarrow> u64 \<Rightarrow> u64 option" where
  "lfi_register_callback e sb params fn =
     (let n_int = length (filter (\<lambda>t. \<not> is_float_arg t) params); n_float = length (filter is_float_arg params)
      in if n_int \<le> max_int_reg_args (le_arch e) \<and> n_float \<le> max_float_reg_args
         then Some (le_register_cb e (ls_box sb) fn) else None)"

section \<open>The call context\<close>

record lfi_call_context =
  lc_context :: call_context
  lc_saved_sp :: u64

definition lfi_context :: "'g lfi_env \<Rightarrow> lfi_sandbox \<Rightarrow> 'g lfi_world \<Rightarrow> (lfi_call_context \<times> 'g lfi_world) outcome" where
  "lfi_context e sb w =
     and_then (stack_save e sb w) (\<lambda>(sp, w1). Returns (\<lparr>lc_context = new_context, lc_saved_sp = sp\<rparr>, w1))"

definition lfi_run_copyback :: "nat \<times> u64 \<times> nat \<Rightarrow> 'g lfi_world \<Rightarrow> 'g lfi_world" where
  "lfi_run_copyback cb w = (case cb of (v, p, n) \<Rightarrow> w\<lparr>l_vars := (l_vars w)(v := lfi_copy_from p n w)\<rparr>)"

definition lfi_finalize :: "call_context \<Rightarrow> 'g lfi_world \<Rightarrow> call_context \<times> 'g lfi_world" where
  "lfi_finalize c w =
     (if finalized c then (c, w) else (c\<lparr>finalized := True\<rparr>, fold lfi_run_copyback (copybacks c) w))"

definition lfi_destroy_context :: "'g lfi_env \<Rightarrow> lfi_sandbox \<Rightarrow> lfi_call_context \<Rightarrow> 'g lfi_world \<Rightarrow> 'g lfi_world outcome" where
  "lfi_destroy_context e sb c w = stack_restore e sb (lc_saved_sp c) (snd (lfi_finalize (lc_context c) w))"

text \<open>The parameters; \<open>al v\<close> is the alignment of the type of variable \<open>v\<close>.\<close>

definition lfi_param ::
  "'g lfi_env \<Rightarrow> lfi_sandbox \<Rightarrow> (nat \<Rightarrow> u64) \<Rightarrow> param_kind \<Rightarrow> nat \<Rightarrow> call_context \<Rightarrow> 'g lfi_world \<Rightarrow>
     ((u64 \<times> call_context) option \<times> 'g lfi_world) outcome" where
  "lfi_param e sb al d v c w =
     (let n = length (l_vars w v) in
      and_then (stack_push e sb (word_of_nat n) (al v) w)
        (\<lambda>(p, w1).
           case d of
             ParOut \<Rightarrow> Returns (Some (p, c\<lparr>copybacks := copybacks c @ [(v, p, n)]\<rparr>), w1)
           | ParIn \<Rightarrow> Returns (Some (p, c), lfi_copy_to p (l_vars w1 v) w1)
           | ParInOut \<Rightarrow> Returns (Some (p, c\<lparr>copybacks := copybacks c @ [(v, p, n)]\<rparr>), lfi_copy_to p (l_vars w1 v) w1)))"

definition lfi_params where
  "lfi_params e sb al = params_loop (lfi_param e sb al)"

definition lfi_context_call ::
  "'g lfi_env \<Rightarrow> lfi_sandbox \<Rightarrow> bool \<Rightarrow> (cxx_type \<Rightarrow> cxx_type \<Rightarrow> byte list \<Rightarrow> byte list) \<Rightarrow> call_context \<Rightarrow> byte list \<Rightarrow> cxx_type \<Rightarrow>
     cxx_type list \<Rightarrow> (cxx_type \<times> byte list) list \<Rightarrow> byte list \<Rightarrow> 'g lfi_world \<Rightarrow>
     (byte list option \<times> call_context \<times> 'g lfi_world) outcome" where
  "lfi_context_call e sb ch fp c name ret params xs junk w =
     and_then (lfi_call e sb ch fp name ret params xs junk w) (\<lambda>(r, w1). let (c', w2) = lfi_finalize c w1 in Returns (r, c', w2))"

definition lfi_typed_context_call ::
  "'g lfi_env \<Rightarrow> lfi_sandbox \<Rightarrow> bool \<Rightarrow> (cxx_type \<Rightarrow> cxx_type \<Rightarrow> byte list \<Rightarrow> byte list) \<Rightarrow> call_context \<Rightarrow> byte list \<Rightarrow> cxx_type \<Rightarrow>
     cxx_type list \<Rightarrow> (cxx_type \<times> byte list) list \<Rightarrow> byte list \<Rightarrow> 'g lfi_world \<Rightarrow>
     (byte list option \<times> call_context \<times> 'g lfi_world) outcome" where
  "lfi_typed_context_call e sb ch fp c name ret params xs junk w =
     (if typed_call_ok params (map fst xs) then lfi_context_call e sb ch fp c name ret params xs junk w else Aborts)"

section \<open>Lemmas\<close>

text \<open>The thread has the context \<open>k\<close> for this box; \<open>lfi_sp\<close> is its stack pointer.\<close>

definition lfi_ready :: "lfi_sandbox \<Rightarrow> u64 \<Rightarrow> 'g lfi_world \<Rightarrow> bool" where
  "lfi_ready sb k w \<longleftrightarrow>
     k \<noteq> 0 \<and> (case scan_from (\<lambda>x. fst x = ls_box sb) 0 (l_entries w) of None \<Rightarrow> False | Some i \<Rightarrow> ctx_at i w = k)"

abbreviation lfi_sp :: "'g lfi_env \<Rightarrow> u64 \<Rightarrow> 'g lfi_world \<Rightarrow> u64" where
  "lfi_sp e k w \<equiv> get_sp (le_arch e) (l_ctx_regs w k)"

lemma lfi_ready_ctx:
  assumes "lfi_ready sb k w"
  obtains i where "get_thread_ctx e sb w = (i, w)" "ctx_at i w = k" "k \<noteq> 0"
  using assms by (auto simp: lfi_ready_def get_thread_ctx_def split: option.splits)

lemma lfi_ready_cong: "l_entries w = l_entries w' \<Longrightarrow> lfi_ready sb k w = lfi_ready sb k w'"
  by (simp add: lfi_ready_def split: option.splits)

lemma set_regs_simps [simp]:
  "l_mem (set_regs k r w) = l_mem w" "l_entries (set_regs k r w) = l_entries w" "l_vars (set_regs k r w) = l_vars w"
  "l_ctx_regs (set_regs k r w) k = r"
  by (simp_all add: set_regs_def)

lemma thread_regs_ready: "lfi_ready sb k w \<Longrightarrow> thread_regs e sb w = Returns (k, w)"
  by (erule lfi_ready_ctx [of sb k w e]) (simp add: thread_regs_def)

abbreviation is_align :: "u64 \<Rightarrow> bool" where "is_align al \<equiv> al \<in> {1, 2, 4, 8, 16}"

lemma stack_push_ready:
  assumes "lfi_ready sb k w" "is_align al" "n + 15 \<le> unat (lfi_sp e k w)"
  obtains sp where "stack_push e sb (word_of_nat n) al w = Returns (sp, set_regs k (set_sp (le_arch e) sp (l_ctx_regs w k)) w)"
    "unat sp + n \<le> unat (lfi_sp e k w)" "unat (lfi_sp e k w) \<le> unat sp + n + 15"
proof -
  let ?sp = "lfi_sp e k w"
  obtain j where j: "al - 1 = mask j" "j \<le> 4"
  proof -
    have "(1 :: u64) - 1 = mask 0" "(2 :: u64) - 1 = mask 1" "(4 :: u64) - 1 = mask 2" "(8 :: u64) - 1 = mask 3" "(16 :: u64) - 1 = mask 4"
      by (simp_all add: mask_eq_exp_minus_1)
    then have "\<exists>j\<in>{0, 1, 2, 3, 4}. al - 1 = mask j" using assms(2) by blast
    then obtain j :: nat where j: "j \<in> {0, 1, 2, 3, 4}" "al - 1 = mask j" by blast
    then have "j \<le> 4" by auto
    with j(2) show thesis by (rule that)
  qed
  have lt: "unat ?sp < 2 ^ 64" using unsigned_less [of ?sp, where ?'a = nat] by simp
  have n: "unat (word_of_nat n :: u64) = n" using assms(3) lt by (simp add: unat_of_nat)
  have "unat (?sp - word_of_nat n) = unat ?sp - n"
    using n assms(3) by (subst unat_sub) (simp_all add: word_le_nat_alt)
  then have sp: "unat ((?sp - word_of_nat n) AND NOT (al - 1)) = (unat ?sp - n) - (unat ?sp - n) mod 2 ^ j"
    unfolding j(1) unat_and_not_mask64 by simp
  have "(unat ?sp - n) mod 2 ^ j < 2 ^ j" "(2 :: nat) ^ j \<le> 2 ^ 4" using j(2) by (simp, intro power_increasing) simp_all
  then have "(unat ?sp - n) mod 2 ^ j < 2 ^ 4" by (rule less_le_trans)
  then have m: "(unat ?sp - n) mod 2 ^ j \<le> 15" by simp
  show thesis
  proof (rule that [of "(?sp - word_of_nat n) AND NOT (al - 1)"])
    show "stack_push e sb (word_of_nat n) al w =
        Returns ((?sp - word_of_nat n) AND NOT (al - 1), set_regs k (set_sp (le_arch e) ((?sp - word_of_nat n) AND NOT (al - 1)) (l_ctx_regs w k)) w)"
      by (simp add: stack_push_def thread_regs_ready [OF assms(1)] Let_def)
    show "unat ((?sp - word_of_nat n) AND NOT (al - 1)) + n \<le> unat ?sp" unfolding sp using assms(3) by linarith
    show "unat ?sp \<le> unat ((?sp - word_of_nat n) AND NOT (al - 1)) + n + 15" unfolding sp using m assms(3) by linarith
  qed
qed

lemma lfi_copy_to_simps [simp]:
  "l_entries (lfi_copy_to d s w) = l_entries w" "l_vars (lfi_copy_to d s w) = l_vars w" "l_ctx_regs (lfi_copy_to d s w) = l_ctx_regs w"
  by (simp_all add: lfi_copy_to_def)

lemma lfi_copy_from_set_regs [simp]: "lfi_copy_from p n (set_regs k r w) = lfi_copy_from p n w"
  by (simp add: lfi_copy_from_def)

lemma lfi_param_step:
  assumes "lfi_ready sb k w" "is_align (al v)" "length (l_vars w v) + 15 \<le> unat (lfi_sp e k w)"
    and "lfi_param e sb al d v c w = Returns (Some (p, c1), w1)"
  shows "lfi_ready sb k w1 \<and> l_vars w1 = l_vars w \<and> p = lfi_sp e k w1 \<and>
    unat p + length (l_vars w v) \<le> unat (lfi_sp e k w) \<and> unat (lfi_sp e k w) \<le> unat p + length (l_vars w v) + 15 \<and>
    finalized c1 = finalized c \<and> copybacks c1 = copybacks c @ (if d = ParIn then [] else [(v, p, length (l_vars w v))]) \<and>
    (d \<noteq> ParOut \<longrightarrow> lfi_copy_from p (length (l_vars w v)) w1 = l_vars w v) \<and>
    (\<forall>q m. unat (lfi_sp e k w) \<le> unat q \<and> unat q + m \<le> 2 ^ 64 \<longrightarrow> lfi_copy_from q m w1 = lfi_copy_from q m w)"
proof -
  let ?bs = "l_vars w v"
  obtain sp where push: "stack_push e sb (word_of_nat (length ?bs)) (al v) w = Returns (sp, set_regs k (set_sp (le_arch e) sp (l_ctx_regs w k)) w)"
    and sp: "unat sp + length ?bs \<le> unat (lfi_sp e k w)" "unat (lfi_sp e k w) \<le> unat sp + length ?bs + 15"
    by (rule stack_push_ready [OF assms(1-3)])
  define w0 where "w0 = set_regs k (set_sp (le_arch e) sp (l_ctx_regs w k)) w"
  have w0: "l_vars w0 = l_vars w" "l_entries w0 = l_entries w" "lfi_sp e k w0 = sp" "l_mem w0 = l_mem w" by (simp_all add: w0_def)
  have w1: "p = sp" "w1 = (if d = ParOut then w0 else lfi_copy_to sp ?bs w0)"
    "c1 = (if d = ParIn then c else c\<lparr>copybacks := copybacks c @ [(v, sp, length ?bs)]\<rparr>)"
    using assms(4) push by (cases d; simp add: lfi_param_def Let_def w0_def)+
  have len: "length ?bs < 2 ^ 64" using assms(3) unsigned_less [of "lfi_sp e k w", where ?'a = nat] by simp
  have "lfi_ready sb k w1" using assms(1) w0(2) w1(2) lfi_ready_cong [of w1 w] by simp
  moreover have "\<forall>q m. unat (lfi_sp e k w) \<le> unat q \<and> unat q + m \<le> 2 ^ 64 \<longrightarrow> lfi_copy_from q m w1 = lfi_copy_from q m w"
    using w1(2) w0(4) sp(1) by (simp add: lfi_copy_from_def lfi_copy_to_def read_write_above)
  moreover have "d \<noteq> ParOut \<Longrightarrow> lfi_copy_from sp (length ?bs) w1 = ?bs"
    using w1(2) read_write_bytes [OF len] by (simp add: lfi_copy_from_def lfi_copy_to_def)
  ultimately show ?thesis using w1 w0 sp by simp
qed

text \<open>Blocks at or above the stack pointer are safe.\<close>

definition lfi_room :: "'g lfi_env \<Rightarrow> lfi_sandbox \<Rightarrow> (nat \<Rightarrow> u64) \<Rightarrow> u64 \<Rightarrow> 'g lfi_world \<Rightarrow> nat list \<Rightarrow> bool" where
  "lfi_room e sb al k w ns \<longleftrightarrow>
     lfi_ready sb k w \<and> (\<forall>v. is_align (al v)) \<and> sum_list (map (\<lambda>n. n + 15) ns) \<le> unat (lfi_sp e k w)"

interpretation lfi_blocks: param_blocks "lfi_param e sb al" l_vars "\<lambda>w p n. lfi_copy_from p n w"
  "\<lambda>w q m. unat (lfi_sp e k w) \<le> unat q \<and> unat q + m \<le> 2 ^ 64" "lfi_room e sb al k"
  for e :: "'g lfi_env" and sb al k
proof unfold_locales
  fix w w1 :: "'g lfi_world" and v m :: nat and p q :: u64 and ns d c c1
  assume r: "lfi_room e sb al k w (length (l_vars w v) # ns)" and a: "lfi_param e sb al d v c w = Returns (Some (p, c1), w1)"
  have room: "lfi_ready sb k w" "is_align (al v)" "length (l_vars w v) + 15 \<le> unat (lfi_sp e k w)"
    and rest: "length (l_vars w v) + 15 + sum_list (map (\<lambda>n. n + 15) ns) \<le> unat (lfi_sp e k w)" "\<forall>v. is_align (al v)"
    using r by (auto simp: lfi_room_def)
  have lt: "unat (lfi_sp e k w) < 2 ^ 64" using unsigned_less [of "lfi_sp e k w", where ?'a = nat] by simp
  note st = lfi_param_step [OF room a]
  have "p = lfi_sp e k w1" "unat (lfi_sp e k w) \<le> unat p + length (l_vars w v) + 15" using st by blast+
  then have "sum_list (map (\<lambda>n. n + 15) ns) \<le> unat (lfi_sp e k w1)" using rest(1) by simp
  then show "lfi_room e sb al k w1 ns \<and> l_vars w1 = l_vars w" using st rest(2) by (simp add: lfi_room_def)
  show "finalized c1 = finalized c \<and> copybacks c1 = copybacks c @ (if d = ParIn then [] else [(v, p, length (l_vars w v))])"
    using st by blast
  have "unat p + length (l_vars w v) \<le> 2 ^ 64" using st lt by linarith
  then show "(unat (lfi_sp e k w1) \<le> unat p \<and> unat p + length (l_vars w v) \<le> 2 ^ 64) \<and>
      (d \<noteq> ParOut \<longrightarrow> lfi_copy_from p (length (l_vars w v)) w1 = l_vars w v)"
    using st by auto
  have "p = lfi_sp e k w1" "unat p + length (l_vars w v) \<le> unat (lfi_sp e k w)" using st by blast+
  then have le: "unat (lfi_sp e k w1) \<le> unat (lfi_sp e k w)" by simp
  assume q: "unat (lfi_sp e k w) \<le> unat q \<and> unat q + m \<le> 2 ^ 64"
  then have "lfi_copy_from q m w1 = lfi_copy_from q m w" using st by blast
  with q le show "(unat (lfi_sp e k w1) \<le> unat q \<and> unat q + m \<le> 2 ^ 64) \<and> lfi_copy_from q m w1 = lfi_copy_from q m w"
    by linarith
qed

text \<open>A block always comes.\<close>

lemma lfi_param_Some:
  assumes "lfi_room e sb al k w (length (l_vars w v) # ns)"
  shows "\<exists>p c1 w1. lfi_param e sb al d v c w = Returns (Some (p, c1), w1)"
proof -
  have "lfi_ready sb k w" "is_align (al v)" "length (l_vars w v) + 15 \<le> unat (lfi_sp e k w)"
    using assms by (auto simp: lfi_room_def)
  from stack_push_ready [OF this] obtain sp where
    "stack_push e sb (word_of_nat (length (l_vars w v))) (al v) w = Returns (sp, set_regs k (set_sp (le_arch e) sp (l_ctx_regs w k)) w)"
    by blast
  then show ?thesis by (cases d) (auto simp: lfi_param_def)
qed

lemma lfi_params_Some:
  "lfi_room e sb al k w (map (\<lambda>(d, v). length (l_vars w v)) ops) \<Longrightarrow>
     \<exists>ps c1 w1. lfi_params e sb al ops c w = Returns (Some (ps, c1), w1)"
proof (induction ops arbitrary: c w)
  case Nil
  then show ?case by (simp add: lfi_params_def)
next
  case (Cons op ops)
  obtain d v where op: "op = (d, v)" by (cases op)
  note room = Cons.prems [unfolded op list.map prod.case]
  obtain p c1 w1 where one: "lfi_param e sb al d v c w = Returns (Some (p, c1), w1)" using lfi_param_Some [OF room] by blast
  have "lfi_room e sb al k w1 (map (\<lambda>(d, v). length (l_vars w1 v)) ops)"
    using lfi_blocks.step_room [OF room one] by simp
  from Cons.IH [OF this] obtain ps c2 w2 where "lfi_params e sb al ops c1 w1 = Returns (Some (ps, c2), w2)" by blast
  with one show ?case by (simp add: lfi_params_def op)
qed

lemma lfi_copybacks_vars:
  "fold lfi_run_copyback cbs w = w\<lparr>l_vars := copied_vars cbs (\<lambda>p n. lfi_copy_from p n w) (l_vars w)\<rparr>"
proof (induction cbs rule: rev_induct)
  case Nil
  then show ?case by simp
next
  case (snoc cb cbs)
  obtain v p n where cb: "cb = (v, p, n)" by (cases cb)
  have "fold lfi_run_copyback (cbs @ [cb]) w = lfi_run_copyback (v, p, n) (fold lfi_run_copyback cbs w)" by (simp add: cb)
  also have "\<dots> = w\<lparr>l_vars := (copied_vars cbs (\<lambda>p n. lfi_copy_from p n w) (l_vars w))(v := lfi_copy_from p n w)\<rparr>"
    unfolding snoc.IH by (simp add: lfi_run_copyback_def lfi_copy_from_def)
  finally show ?case unfolding cb copied_vars_snoc .
qed

lemma lfi_finalize_vars:
  "lfi_finalize c w = (if finalized c then (c, w)
     else (c\<lparr>finalized := True\<rparr>, w\<lparr>l_vars := copied_vars (copybacks c) (\<lambda>p n. lfi_copy_from p n w) (l_vars w)\<rparr>))"
  by (simp add: lfi_finalize_def lfi_copybacks_vars)

section \<open>Properties\<close>

text \<open>An example: the library's functions store 7 at their first argument; the sandbox's stack ends at \<open>0x10000\<close>.\<close>

definition lfi_example_env :: "unit lfi_env" where
  "lfi_example_env = \<lparr>le_arch = X86_64, le_tid = 1, le_main_ctx = 1, le_clone = (\<lambda>b w. (0, w)),
     le_trampoline = (\<lambda>w. Returns (lfi_copy_to (gprs (l_ctx_regs w 1) RDI) [7, 0, 0, 0] w)),
     le_proc_sym = (\<lambda>n. 0x2000), le_malloc = (\<lambda>b i n w. (0, w)), le_calloc = (\<lambda>b i c n w. (0, w)),
     le_realloc = (\<lambda>b i p n w. (0, w)), le_free = (\<lambda>b i p w. w), le_bufvalid = (\<lambda>b p n. False), le_register_cb = (\<lambda>b f. 0),
     le_mapat = (\<lambda>b a n p f d off w. (0, w)), le_mapany = (\<lambda>b n p f d off w. (0, w)), le_munmap = (\<lambda>b a n w. (0, w)),
     le_flags = \<lparr>LFI_PROT_READ = 1, LFI_PROT_WRITE = 2, LFI_PROT_EXEC = 4, LFI_MAP_SHARED = 1, LFI_MAP_PRIVATE = 2,
       LFI_MAP_FIXED = 4, LFI_MAP_ANONYMOUS = 8\<rparr>\<rparr>"

definition lfi_example_sandbox :: lfi_sandbox where
  "lfi_example_sandbox = \<lparr>ls_this = 16, ls_box = 5, ls_main_tid = 1\<rparr>"

definition lfi_example_world :: "unit lfi_world" where
  "lfi_example_world = \<lparr>l_mem = (\<lambda>_. 0), l_ctx_regs = (\<lambda>_. \<lparr>gprs = (\<lambda>_. 0x10000), fprs = (\<lambda>_. 0)\<rparr>), l_entries = [(5, 1)],
     l_symbols = Map.empty, l_idmem = [], l_vars = (\<lambda>v. if v = 0 then [1, 0, 0, 0] else [2, 0, 0, 0]), l_tls = 0,
     l_invoke = (0, 0, 0), l_user = ()\<rparr>"

lemma lfi_example_ready: "lfi_ready lfi_example_sandbox 1 lfi_example_world"
  by (simp add: lfi_ready_def lfi_example_sandbox_def lfi_example_world_def)

lemma lfi_example_sp: "lfi_sp lfi_example_env 1 lfi_example_world = 0x10000"
  by (simp add: lfi_example_env_def lfi_example_world_def get_sp_def)

lemma lfi_example_call:
  assumes "lfi_ready lfi_example_sandbox 1 w" "l_symbols w = Map.empty"
  obtains w2 where "lfi_call lfi_example_env lfi_example_sandbox True no_fp [105] CVoid [CPtr CInt] [(CPtr CInt, to_bytes q)] [] w = Returns (None, w2)"
    "lfi_copy_from q 4 w2 = [7, 0, 0, 0]"
proof -
  let ?e = lfi_example_env and ?sb = lfi_example_sandbox
  define w1 where "w1 = w\<lparr>l_symbols := (l_symbols w)([105] \<mapsto> 0x2000)\<rparr>"
  have look: "lfi_lookup ?e [105] w = Returns (0x2000, w1)"
    using assms(2) by (simp add: lfi_lookup_def cached_lookup_def w1_def lfi_example_env_def)
  have conv: "convert_args True no_fp [CPtr CInt] [(CPtr CInt, to_bytes q)] = Some [to_bytes q]"
    by (simp add: convert_call_arg_def is_sbox_ptr_def is_sbox_safe_ptr_def is_pointer_def reinterpret_cast_def reinterpret_ok_def)
  have "lfi_ready ?sb 1 (w1\<lparr>l_tls := ls_this ?sb\<rparr>)"
    using assms(1) lfi_ready_cong [of w "w1\<lparr>l_tls := ls_this ?sb\<rparr>" ?sb 1] by (simp add: w1_def)
  from lfi_ready_ctx [OF this, of ?e] obtain i where
    i: "get_thread_ctx ?e ?sb (w1\<lparr>l_tls := ls_this ?sb\<rparr>) = (i, w1\<lparr>l_tls := ls_this ?sb\<rparr>)" "ctx_at i w1 = 1" by auto
  have arch: "le_arch ?e = X86_64" by (simp add: lfi_example_env_def)
  have marshal: "marshal_args_lfi X86_64 [CPtr CInt] [to_bytes q] regs =
      Some (set_int_arg X86_64 0 q regs, \<lparr>m_stack_args = replicate 10 0, m_n_stack = 0\<rparr>)" for regs
    by (simp add: marshal_args_lfi_def marshal_start_def marshal_arg_def arg_word_def is_float_arg_def is_floating_def is_pointer_def
        max_int_reg_args_def)
  define w3 where "w3 = set_regs 1 (set_int_arg X86_64 0 q (l_ctx_regs w1 1)) (w1\<lparr>l_tls := ls_this ?sb, l_invoke := (i, 0x2000, ls_box ?sb)\<rparr>)"
  have enter: "lfi_enter ?e ?sb 0x2000 [CPtr CInt] [to_bytes q] w1 = Returns (1, lfi_sp ?e 1 w3, w3)"
    using i by (simp add: lfi_enter_def ensure_ctx_def arch marshal stage_stack_args_def w3_def)
  have rdi: "gprs (l_ctx_regs w3 1) RDI = q" by (simp add: w3_def set_int_arg_def)
  have run: "le_trampoline ?e w3 = Returns (lfi_copy_to q [7, 0, 0, 0] w3)" by (simp add: lfi_example_env_def rdi)
  have "length [7, 0, 0, 0 :: byte] = 4" by simp
  then have seven: "read_bytes (write_bytes m q [7, 0, 0, 0]) q 4 = [7, 0, 0, 0]" for m
    using read_write_4 by blast
  define w2 where "w2 = set_regs 1 (set_sp (le_arch ?e) (lfi_sp ?e 1 w3) (l_ctx_regs (lfi_copy_to q [7, 0, 0, 0] w3) 1)) (lfi_copy_to q [7, 0, 0, 0] w3)"
  have ptr: "lfi_call_ptr ?e ?sb 0x2000 CVoid [CPtr CInt] [to_bytes q] [] w1 = Returns (None, w2)"
    by (simp add: lfi_call_ptr_def enter run w2_def Let_def)
  show thesis
  proof (rule that)
    show "lfi_call ?e ?sb True no_fp [105] CVoid [CPtr CInt] [(CPtr CInt, to_bytes q)] [] w = Returns (None, w2)"
      unfolding lfi_call_def by (simp only: look conv and_then.simps checked_simps prod.case ptr)
    show "lfi_copy_from q 4 w2 = [7, 0, 0, 0]" by (simp add: w2_def lfi_copy_from_def lfi_copy_to_def seven)
  qed
qed

text \<open>The state at the trampoline: the frame of the calling convention in the context's registers and on the sandbox's stack.\<close>

lemma lfi_enter_frame:
  fixes w :: "'g lfi_world"
  assumes "lfi_ready sb k w" "list_all portable_type params" "list_all2 has_type params vs" "length params \<le> max_args"
    and "47 \<le> unat (lfi_sp e k w)"
  obtains i regs2 m2 call where "lfi_enter e sb fn params vs w =
      Returns (k, lfi_sp e k w, set_regs k regs2 (w\<lparr>l_tls := ls_this sb, l_invoke := (i, fn, ls_box sb), l_mem := m2\<rparr>))"
    "dyfn_prep_call (le_arch e) f rt (int (length params)) (map ffi_type params) vs = Some call"
    "frame_agrees (le_arch e) (map ffi_type params) call regs2 m2"
    "unat (get_sp (le_arch e) regs2) + 8 * stack_count call \<le> unat (lfi_sp e k w)"
    "stack_count call \<noteq> 0 \<longrightarrow> 16 dvd unat (get_sp (le_arch e) regs2)"
    "\<And>q n. unat (lfi_sp e k w) \<le> unat q \<Longrightarrow> unat q + n \<le> 2 ^ 64 \<Longrightarrow> read_bytes m2 q n = read_bytes (l_mem w) q n"
proof -
  obtain i where i: "get_thread_ctx e sb (w\<lparr>l_tls := ls_this sb\<rparr>) = (i, w\<lparr>l_tls := ls_this sb\<rparr>)" "ctx_at i w = k" "k \<noteq> 0"
    using lfi_ready_ctx [of sb k "w\<lparr>l_tls := ls_this sb\<rparr>" e] assms(1) lfi_ready_cong [of w "w\<lparr>l_tls := ls_this sb\<rparr>" sb k] by auto
  obtain regs1 r regs2 m2 call where fr: "marshal_args_lfi (le_arch e) params vs (l_ctx_regs w k) = Some (regs1, r)"
    "get_sp (le_arch e) regs1 = lfi_sp e k w" "stage_stack_args (le_arch e) r regs1 (l_mem w) = (regs2, m2)"
    "dyfn_prep_call (le_arch e) f rt (int (length params)) (map ffi_type params) vs = Some call"
    "frame_agrees (le_arch e) (map ffi_type params) call regs2 m2"
    "m_n_stack r = stack_count call" "stack_count call \<le> 4" "length (m_stack_args r) = max_args"
    by (rule lfi_frame [OF assms(2-5), of "l_mem w" f rt])
  have "m_n_stack r \<le> length (m_stack_args r)" "8 * m_n_stack r + 15 \<le> unat (get_sp (le_arch e) regs1)"
    using fr(2,6-8) assms(5) by simp_all
  note sf = stage_facts [OF fr(3) this]
  show thesis
  proof (rule that)
    show "lfi_enter e sb fn params vs w =
        Returns (k, lfi_sp e k w, set_regs k regs2 (w\<lparr>l_tls := ls_this sb, l_invoke := (i, fn, ls_box sb), l_mem := m2\<rparr>))"
      using i fr(1-3) by (simp add: lfi_enter_def ensure_ctx_def)
  qed (use fr sf(1,2,7) in auto)
qed

text \<open>C6: the LFI backend passes arguments as the process backend does. For every call that compiles for
  both, on a thread that has its context, with 47 bytes of room on the sandbox's stack: when the
  trampoline is entered, every argument lies where the calling convention puts it and holds the word
  that \<open>dyfn_prep_call\<close> of the process backend computes for it; no register array or overflow array is
  overrun; if arguments were staged on the stack, the stack pointer is 16-byte aligned below them; no
  byte at or above the caller's stack pointer has changed. Whatever the library does, after the
  call the stack pointer is the one before it, so the blocks of a call context stay allocated.\<close>

theorem lfi_arguments_abi:
  fixes w :: "'g lfi_world"
  assumes "lfi_ready sb k w" "list_all portable_type params" "list_all2 has_type params vs" "length params \<le> max_args"
    and "47 \<le> unat (lfi_sp e k w)"
  shows "(\<exists>w1 call. lfi_enter e sb fn params vs w = Returns (k, lfi_sp e k w, w1) \<and>
      dyfn_prep_call (le_arch e) f rt (int (length params)) (map ffi_type params) vs = Some call \<and>
      frame_agrees (le_arch e) (map ffi_type params) call (l_ctx_regs w1 k) (l_mem w1) \<and>
      unat (lfi_sp e k w1) + 8 * stack_count call \<le> unat (lfi_sp e k w) \<and>
      (stack_count call \<noteq> 0 \<longrightarrow> 16 dvd unat (lfi_sp e k w1)) \<and>
      (\<forall>q n. unat (lfi_sp e k w) \<le> unat q \<and> unat q + n \<le> 2 ^ 64 \<longrightarrow> read_bytes (l_mem w1) q n = read_bytes (l_mem w) q n)) \<and>
    (\<forall>ret junk b w2. lfi_call_ptr e sb fn ret params vs junk w = Returns (b, w2) \<longrightarrow> lfi_sp e k w2 = lfi_sp e k w)"
proof -
  obtain i regs2 m2 call where enter: "lfi_enter e sb fn params vs w =
      Returns (k, lfi_sp e k w, set_regs k regs2 (w\<lparr>l_tls := ls_this sb, l_invoke := (i, fn, ls_box sb), l_mem := m2\<rparr>))"
    and call: "dyfn_prep_call (le_arch e) f rt (int (length params)) (map ffi_type params) vs = Some call"
      "frame_agrees (le_arch e) (map ffi_type params) call regs2 m2"
      "unat (get_sp (le_arch e) regs2) + 8 * stack_count call \<le> unat (lfi_sp e k w)"
      "stack_count call \<noteq> 0 \<longrightarrow> 16 dvd unat (get_sp (le_arch e) regs2)"
      "\<And>q n. unat (lfi_sp e k w) \<le> unat q \<Longrightarrow> unat q + n \<le> 2 ^ 64 \<Longrightarrow> read_bytes m2 q n = read_bytes (l_mem w) q n"
    by (rule lfi_enter_frame [OF assms]) blast
  moreover have "\<forall>ret junk b w2. lfi_call_ptr e sb fn ret params vs junk w = Returns (b, w2) \<longrightarrow> lfi_sp e k w2 = lfi_sp e k w"
    using enter by (auto simp: lfi_call_ptr_def Let_def split: if_splits)
  ultimately show ?thesis by simp
qed

theorem lfi_arguments_abi_witness:
  "\<exists>w1. lfi_enter lfi_example_env lfi_example_sandbox 0x2000 (replicate 7 CUChar) (replicate 7 [9]) lfi_example_world = Returns (1, 0x10000, w1) \<and>
    lfi_loc X86_64 (l_ctx_regs w1 1) (l_mem w1) (StackSlot 0) = 9 \<and> 16 dvd unat (lfi_sp lfi_example_env 1 w1)"
proof -
  let ?ts = "replicate 7 DYFN_TYPE_UINT8" and ?e = lfi_example_env
  have ty: "list_all portable_type (replicate 7 CUChar)" "list_all2 has_type (replicate 7 CUChar) (replicate 7 [9])"
    "map ffi_type (replicate 7 CUChar) = ?ts"
    by (simp_all add: portable_type_def has_type_def list_all_length list_all2_conv_all_nth pbox_type_v_def dyfn_of_code_def)
  have a: "le_arch ?e = X86_64" by (simp add: lfi_example_env_def)
  obtain w1 call where w1: "lfi_enter ?e lfi_example_sandbox 0x2000 (replicate 7 CUChar) (replicate 7 [9]) lfi_example_world = Returns (1, 0x10000, w1)"
    and call: "dyfn_prep_call X86_64 0x1000 DYFN_TYPE_VOID (int 7) ?ts (replicate 7 [9]) = Some call"
    and agrees: "frame_agrees X86_64 ?ts call (l_ctx_regs w1 1) (l_mem w1)"
    and al: "stack_count call \<noteq> 0 \<longrightarrow> 16 dvd unat (lfi_sp ?e 1 w1)"
    using lfi_arguments_abi [OF lfi_example_ready ty(1,2), of ?e "0x2000" "0x1000" DYFN_TYPE_VOID, unfolded ty(3) a] lfi_example_sp
    by (auto simp: a)
  have loc: "abi_loc X86_64 ?ts 6 = StackSlot 0"
    by (simp add: abi_loc_def is_float_type_iff ints_before_def floats_before_def stack_before_def)
  have ok: "args_ok (int 7) ?ts (replicate 7 [9])" by (simp add: args_ok_def)
  have "to_bytes (call_loc call (StackSlot 0)) = 9 # replicate 7 0"
    using dyfn_prep_call_value [OF call ok, of 6] loc by simp
  then have "of_bytes (to_bytes (call_loc call (StackSlot 0))) = of_bytes (9 # replicate 7 0)" by (rule arg_cong)
  also have "replicate 7 (0 :: byte) = [0, 0, 0, 0, 0, 0, 0]" by (simp add: eval_nat_numeral)
  also have "of_bytes [9, 0, 0, 0, 0, 0, 0, 0] = 9" by (simp add: of_bytes_def)
  finally have nine: "call_loc call (StackSlot 0) = 9" by simp
  have "stack_count call = 1"
    using dyfn_prep_call_inv [OF call] by (simp add: prep_inv_def stack_before_def ints_before_def floats_before_def is_float_type_iff)
  moreover have "lfi_loc X86_64 (l_ctx_regs w1 1) (l_mem w1) (StackSlot 0) = 9"
    using agrees [unfolded frame_agrees_def, rule_format, of 6] nine loc by (simp del: lfi_loc.simps)
  ultimately show ?thesis using w1 al by (intro exI [of _ w1]) simp
qed

text \<open>the parameters of an LFI call context reach the library and come back. With room on the
  sandbox's stack, the context's parameters always get their blocks; at the call the block of every
  \<open>in\<close> and \<open>inout\<close> parameter holds the variable; and after a context-aware call every \<open>out\<close> and \<open>inout\<close>
  variable is what the library left in its block, every \<open>in\<close> variable what the call left in it.\<close>

theorem lfi_context_passes_values:
  fixes w :: "'g lfi_world"
  assumes "lfi_room e sb al k w (map (\<lambda>(d, v). length (l_vars w v)) ops)" "distinct (map snd ops)"
  shows "\<exists>ps c w1. lfi_params e sb al ops new_context w = Returns (Some (ps, c), w1) \<and>
    (\<forall>d v p. ((d, v), p) \<in> set (zip ops ps) \<longrightarrow>
      (d \<noteq> ParOut \<longrightarrow> lfi_copy_from p (length (l_vars w v)) w1 = l_vars w v) \<and>
      (\<forall>ch fp name ret params xs junk r c' w3.
         lfi_context_call e sb ch fp c name ret params xs junk w1 = Returns (r, c', w3) \<longrightarrow>
         (\<exists>w2. lfi_call e sb ch fp name ret params xs junk w1 = Returns (r, w2) \<and>
           l_vars w3 v = (if d = ParIn then l_vars w2 v else lfi_copy_from p (length (l_vars w v)) w2))))"
proof -
  obtain ps c w1 where run: "lfi_params e sb al ops new_context w = Returns (Some (ps, c), w1)"
    using lfi_params_Some [OF assms(1)] by blast
  note room = assms(1) [folded lfi_blocks.param_sizes_def]
  note ctx = lfi_blocks.run_context [OF room run [unfolded lfi_params_def]]
  have vals: "lfi_copy_from p (length (l_vars w v)) w1 = l_vars w v"
    if "((d, v), p) \<in> set (zip ops ps)" "d \<noteq> ParOut" for d v p
    using lfi_blocks.run_values [OF room run [unfolded lfi_params_def] that] by blast
  have copied: "\<exists>w2. lfi_call e sb ch fp name ret params xs junk w1 = Returns (r, w2) \<and>
      l_vars w3 v = (if d = ParIn then l_vars w2 v else lfi_copy_from p (length (l_vars w v)) w2)"
    if p: "((d, v), p) \<in> set (zip ops ps)"
      and call: "lfi_context_call e sb ch fp c name ret params xs junk w1 = Returns (r, c', w3)"
    for d v p ch fp name ret params xs junk r c' w3
  proof -
    obtain w2 where w2: "lfi_call e sb ch fp name ret params xs junk w1 = Returns (r, w2)" "lfi_finalize c w2 = (c', w3)"
      using call by (auto simp: lfi_context_call_def split: prod.splits)
    have "l_vars w3 v = copied_vars (copybacks c) (\<lambda>p n. lfi_copy_from p n w2) (l_vars w2) v"
      using w2(2) ctx by (auto simp: lfi_finalize_vars new_context_def)
    also have "\<dots> = (if d = ParIn then l_vars w2 v else lfi_copy_from p (length (l_vars w v)) w2)"
      using copied_vars_param [OF assms(2) _ p] ctx by (simp add: new_context_def)
    finally show ?thesis using w2(1) by blast
  qed
  show ?thesis using run vals copied by blast
qed

theorem lfi_context_passes_values_witness:
  "\<exists>w1 c' w3. lfi_params lfi_example_env lfi_example_sandbox (\<lambda>_. 4) [(ParIn, 1), (ParInOut, 0)] new_context lfi_example_world =
      Returns (Some ([0xFFFC, 0xFFF8], \<lparr>copybacks = [(0, 0xFFF8, 4)], finalized = False\<rparr>), w1) \<and>
    lfi_context_call lfi_example_env lfi_example_sandbox True no_fp \<lparr>copybacks = [(0, 0xFFF8, 4)], finalized = False\<rparr> [105] CVoid
      [CPtr CInt] [(CPtr CInt, to_bytes 0xFFF8)] [] w1 = Returns (None, c', w3) \<and> l_vars w3 0 = [7, 0, 0, 0]"
proof -
  let ?e = lfi_example_env and ?sb = lfi_example_sandbox and ?w = lfi_example_world
  let ?ops = "[(ParIn, 1), (ParInOut, 0 :: nat)]" and ?c = "\<lparr>copybacks = [(0, 0xFFF8, 4)], finalized = False\<rparr>"
  have len: "length (l_vars ?w v) = 4" for v by (simp add: lfi_example_world_def)
  have room: "lfi_room ?e ?sb (\<lambda>_. 4) 1 ?w (map (\<lambda>(d, v). length (l_vars ?w v)) ?ops)"
    using lfi_example_ready lfi_example_sp len by (simp add: lfi_room_def)
  obtain w1 where run: "lfi_params ?e ?sb (\<lambda>_. 4) ?ops new_context ?w = Returns (Some ([0xFFFC, 0xFFF8], ?c), w1)"
    and ready: "lfi_ready ?sb 1 w1" "l_symbols w1 = Map.empty"
    by (simp add: lfi_params_def lfi_param_def stack_push_def thread_regs_def get_thread_ctx_def lfi_ready_def set_regs_def get_sp_def
        set_sp_def lfi_copy_to_def new_context_def lfi_example_env_def lfi_example_sandbox_def lfi_example_world_def)
  obtain w2 where call: "lfi_call ?e ?sb True no_fp [105] CVoid [CPtr CInt] [(CPtr CInt, to_bytes 0xFFF8)] [] w1 = Returns (None, w2)"
    and seven: "lfi_copy_from 0xFFF8 4 w2 = [7, 0, 0, 0]"
    by (rule lfi_example_call [OF ready])
  obtain c' w3 where fin: "lfi_finalize ?c w2 = (c', w3)" by fastforce
  have cc: "lfi_context_call ?e ?sb True no_fp ?c [105] CVoid [CPtr CInt] [(CPtr CInt, to_bytes 0xFFF8)] [] w1 = Returns (None, c', w3)"
    using call fin by (simp add: lfi_context_call_def)
  obtain ps c w1' where th: "lfi_params ?e ?sb (\<lambda>_. 4) ?ops new_context ?w = Returns (Some (ps, c), w1')"
    and copied: "\<And>d v p ch fp name ret params xs junk r c' w3. ((d, v), p) \<in> set (zip ?ops ps) \<Longrightarrow>
      lfi_context_call ?e ?sb ch fp c name ret params xs junk w1' = Returns (r, c', w3) \<Longrightarrow>
      \<exists>w2. lfi_call ?e ?sb ch fp name ret params xs junk w1' = Returns (r, w2) \<and>
           l_vars w3 v = (if d = ParIn then l_vars w2 v else lfi_copy_from p (length (l_vars ?w v)) w2)"
    using lfi_context_passes_values [OF room] by auto
  have eq: "ps = [0xFFFC, 0xFFF8]" "c = ?c" "w1' = w1" using th run by simp_all
  have "l_vars w3 0 = [7, 0, 0, 0]"
    using copied [of ParInOut 0 "0xFFF8", unfolded eq, OF _ cc] call seven unfolding len by auto
  with run cc show ?thesis by blast
qed

text \<open>C12: LFI contexts nest. A context made while another is in use takes its blocks below the stack
  pointer, so every block at or above it, such as those of the outer context, keeps its bytes; and
  when the inner context is destroyed, whenever that is, the stack pointer is back where it was.\<close>

theorem lfi_contexts_nest:
  fixes w :: "'g lfi_world"
  assumes "lfi_context e sb w = Returns (inner, w0)" "lfi_ready sb k w"
    and "lfi_room e sb al k w0 (map (\<lambda>(d, v). length (l_vars w0 v)) ops)"
    and "lfi_params e sb al ops (lc_context inner) w0 = Returns (Some (ps, c), w1)"
    and "lfi_ready sb k w2" "lfi_destroy_context e sb (inner\<lparr>lc_context := c\<rparr>) w2 = Returns w3"
  shows "lfi_sp e k w3 = lfi_sp e k w \<and>
    (\<forall>q m. unat (lfi_sp e k w) \<le> unat q \<and> unat q + m \<le> 2 ^ 64 \<longrightarrow> lfi_copy_from q m w1 = lfi_copy_from q m w)"
proof -
  have w0: "w0 = w" "lc_saved_sp inner = lfi_sp e k w"
    using assms(1) by (auto simp: lfi_context_def stack_save_def thread_regs_ready [OF assms(2)])
  note room = assms(3) [folded lfi_blocks.param_sizes_def]
  have "lfi_copy_from q m w1 = lfi_copy_from q m w" if "unat (lfi_sp e k w) \<le> unat q \<and> unat q + m \<le> 2 ^ 64" for q m
    using lfi_blocks.run_safe [OF room assms(4) [unfolded lfi_params_def]] that unfolding w0(1) by blast
  moreover have "lfi_ready sb k (snd (lfi_finalize c w2))"
    using assms(5) lfi_ready_cong [of w2 "snd (lfi_finalize c w2)" sb k] by (simp add: lfi_finalize_vars)
  then have "lfi_sp e k w3 = lc_saved_sp inner"
    using assms(6) by (auto simp: lfi_destroy_context_def stack_restore_def thread_regs_ready)
  ultimately show ?thesis using w0(2) by simp
qed

theorem lfi_contexts_nest_witness:
  "\<exists>inner ps c w1 w3. lfi_context lfi_example_env lfi_example_sandbox lfi_example_world = Returns (inner, lfi_example_world) \<and>
    lfi_params lfi_example_env lfi_example_sandbox (\<lambda>_. 8) [(ParInOut, 0)] (lc_context inner) lfi_example_world = Returns (Some (ps, c), w1) \<and>
    lfi_sp lfi_example_env 1 w1 \<noteq> 0x10000 \<and>
    lfi_destroy_context lfi_example_env lfi_example_sandbox (inner\<lparr>lc_context := c\<rparr>) w1 = Returns w3 \<and> lfi_sp lfi_example_env 1 w3 = 0x10000"
proof -
  let ?e = lfi_example_env and ?sb = lfi_example_sandbox and ?w = lfi_example_world
  obtain inner where i: "lfi_context ?e ?sb ?w = Returns (inner, ?w)"
    by (simp add: lfi_context_def stack_save_def thread_regs_ready [OF lfi_example_ready])
  have room: "lfi_room ?e ?sb (\<lambda>_. 8) 1 ?w (map (\<lambda>(d, v). length (l_vars ?w v)) [(ParInOut, 0)])"
    using lfi_example_ready lfi_example_sp by (simp add: lfi_room_def) (simp add: lfi_example_world_def)
  obtain ps c w1 where run: "lfi_params ?e ?sb (\<lambda>_. 8) [(ParInOut, 0)] (lc_context inner) ?w = Returns (Some (ps, c), w1)"
    using lfi_params_Some [OF room] by blast
  obtain p c1 where one: "lfi_param ?e ?sb (\<lambda>_. 8) ParInOut 0 (lc_context inner) ?w = Returns (Some (p, c1), w1)"
    using run by (auto simp: lfi_params_def split: option.splits)
  have len: "length (l_vars ?w 0) = 4" by (simp add: lfi_example_world_def)
  then have "length (l_vars ?w 0) + 15 \<le> unat (lfi_sp ?e 1 ?w)" unfolding lfi_example_sp by simp
  note st = lfi_param_step [OF lfi_example_ready _ this one, unfolded len lfi_example_sp, simplified]
  have "unat p \<le> 65532" using st by blast
  then have "p \<noteq> 0x10000" by auto
  then have "lfi_sp ?e 1 w1 \<noteq> 0x10000" using st by blast
  have "lfi_ready ?sb 1 (snd (lfi_finalize c w1))"
    using st lfi_ready_cong [of w1 "snd (lfi_finalize c w1)" ?sb 1] by (simp add: lfi_finalize_vars)
  then obtain w3 where w3: "lfi_destroy_context ?e ?sb (inner\<lparr>lc_context := c\<rparr>) w1 = Returns w3"
    by (simp add: lfi_destroy_context_def stack_restore_def thread_regs_ready)
  have "lfi_sp ?e 1 w3 = 0x10000"
    using lfi_contexts_nest [OF i lfi_example_ready room run _ w3] st lfi_example_sp by simp
  with i run w3 \<open>lfi_sp ?e 1 w1 \<noteq> 0x10000\<close> show ?thesis by blast
qed

end
