(* ===== verification/LfiEngine.thy ===== *)
theory LfiEngine
  imports Prelude
begin

text \<open>
  The process-wide LFI engine and the creation and destruction of LFI sandboxes
  (\<open>src/sbox_lfi.cc\<close>). The LFI runtime is not part of the repository: what it answers is the
  parameter \<open>lfi_runtime\<close>, a null answer being 0. What has been obtained from it and not given back
  is the multiset \<open>lm_held\<close>; giving back what is not held is \<open>Aborts\<close>.
\<close>

section \<open>State\<close>

datatype lfi_resource = Engine u64 | LinuxEngine u64 | Proc u64 | Thread u64

record lfi_manager =
  lm_engine :: u64
  lm_linux_engine :: u64
  lm_held :: "lfi_resource multiset"

text \<open>The answers for one operation; \<open>rt_run\<close> is the exit status of the library's initialisation.\<close>

record lfi_runtime =
  rt_new :: "nat \<Rightarrow> u64"
  rt_linux_new :: u64
  rt_proc_new :: u64
  rt_load_file :: "byte list \<Rightarrow> bool"
  rt_proc_box :: "u64 \<Rightarrow> u64"
  rt_ret_sym :: u64
  rt_thread_new :: u64
  rt_run :: int

text \<open>The members of \<open>Sandbox<LFI>\<close> that own something; \<open>lo_inited\<close> records \<open>lfi_linux_init_clone\<close>.\<close>

record lfi_object =
  lo_proc :: u64
  lo_main_thread :: u64
  lo_box :: u64
  lo_inited :: bool

definition fresh_object :: lfi_object where
  "fresh_object = \<lparr>lo_proc = 0, lo_main_thread = 0, lo_box = 0, lo_inited = False\<rparr>"

definition obtain_res :: "lfi_resource \<Rightarrow> lfi_manager \<Rightarrow> lfi_manager" where
  "obtain_res r m = m\<lparr>lm_held := add_mset r (lm_held m)\<rparr>"

definition give_back :: "lfi_resource \<Rightarrow> lfi_manager \<Rightarrow> lfi_manager outcome" where
  "give_back r m = (if r \<in># lm_held m then Returns (m\<lparr>lm_held := lm_held m - {#r#}\<rparr>) else Aborts)"

section \<open>The engine manager\<close>

definition lfim_create :: "lfi_runtime \<Rightarrow> nat \<Rightarrow> lfi_manager \<Rightarrow> (bool \<times> lfi_manager) outcome" where
  "lfim_create rt n m =
     (let m1 = m\<lparr>lm_engine := rt_new rt n\<rparr> in
      if lm_engine m1 = 0 then Returns (False, m1)
      else
        let m2 = (obtain_res (Engine (lm_engine m1)) m1)\<lparr>lm_linux_engine := rt_linux_new rt\<rparr> in
        if lm_linux_engine m2 = 0 then
          and_then (give_back (Engine (lm_engine m2)) m2) (\<lambda>m3. Returns (False, m3\<lparr>lm_engine := 0\<rparr>))
        else Returns (True, obtain_res (LinuxEngine (lm_linux_engine m2)) m2))"

definition lfim_init :: "lfi_runtime \<Rightarrow> nat \<Rightarrow> lfi_manager \<Rightarrow> (bool \<times> lfi_manager) outcome" where
  "lfim_init rt n m = (if lm_engine m \<noteq> 0 then Returns (False, m) else lfim_create rt n m)"

definition lfim_destroy :: "lfi_manager \<Rightarrow> lfi_manager outcome" where
  "lfim_destroy m =
     and_then (if lm_linux_engine m \<noteq> 0
               then and_then (give_back (LinuxEngine (lm_linux_engine m)) m) (\<lambda>m1. Returns (m1\<lparr>lm_linux_engine := 0\<rparr>))
               else Returns m)
     (\<lambda>m1. if lm_engine m1 \<noteq> 0
           then and_then (give_back (Engine (lm_engine m1)) m1) (\<lambda>m2. Returns (m2\<lparr>lm_engine := 0\<rparr>))
           else Returns m1)"

definition lfim_ensure :: "lfi_runtime \<Rightarrow> lfi_manager \<Rightarrow> (bool \<times> lfi_manager) outcome" where
  "lfim_ensure rt m = (if lm_engine m = 0 then lfim_create rt 1 m else Returns (True, m))"

definition lfim_get :: "lfi_runtime \<Rightarrow> lfi_manager \<Rightarrow> (u64 \<times> lfi_manager) outcome" where
  "lfim_get rt m =
     and_then (lfim_ensure rt m) (\<lambda>(ok, m1). Returns (if \<not> ok then 0 else lm_linux_engine m1, m1))"

section \<open>Sandboxes\<close>

text \<open>The destructor.\<close>

definition lfi_sandbox_destroy :: "lfi_object \<Rightarrow> lfi_manager \<Rightarrow> lfi_manager outcome" where
  "lfi_sandbox_destroy sb m =
     and_then (if lo_main_thread sb \<noteq> 0 then give_back (Thread (lo_main_thread sb)) m else Returns m)
       (\<lambda>m1. if lo_proc sb \<noteq> 0 then give_back (Proc (lo_proc sb)) m1 else Returns m1)"

text \<open>\<open>return nullptr\<close> while \<open>sb\<close> exists: the \<open>unique_ptr\<close> runs the destructor.\<close>

definition fail_create :: "lfi_object \<Rightarrow> lfi_manager \<Rightarrow> (lfi_object option \<times> lfi_manager) outcome" where
  "fail_create sb m = and_then (lfi_sandbox_destroy sb m) (\<lambda>m1. Returns (None, m1))"

definition lfi_sandbox_create :: "lfi_runtime \<Rightarrow> byte list \<Rightarrow> lfi_manager \<Rightarrow> (lfi_object option \<times> lfi_manager) outcome" where
  "lfi_sandbox_create rt path m =
     and_then (lfim_get rt m) (\<lambda>(eng, m1).
       if eng = 0 then Returns (None, m1)
       else
         let sb = fresh_object\<lparr>lo_proc := rt_proc_new rt\<rparr> in
         if lo_proc sb = 0 then fail_create sb m1
         else
           let m2 = obtain_res (Proc (lo_proc sb)) m1 in
           if \<not> rt_load_file rt path then fail_create sb m2
           else
             let sb = sb\<lparr>lo_box := rt_proc_box rt (lo_proc sb)\<rparr> in
             if rt_ret_sym rt = 0 then fail_create sb m2
             else
               let sb = sb\<lparr>lo_main_thread := rt_thread_new rt\<rparr> in
               if lo_main_thread sb = 0 then fail_create sb m2
               else
                 let m3 = obtain_res (Thread (lo_main_thread sb)) m2 in
                 if rt_run rt \<noteq> 0 then fail_create sb m3
                 else Returns (Some (sb\<lparr>lo_inited := True\<rparr>), m3))"

section \<open>Lemmas\<close>

text \<open>The two engines exist together, and the manager holds what its pointers name.\<close>

definition engines :: "lfi_manager \<Rightarrow> lfi_resource multiset" where
  "engines m = (if lm_engine m = 0 then {#} else {#Engine (lm_engine m), LinuxEngine (lm_linux_engine m)#})"

definition owned_by :: "lfi_object \<Rightarrow> lfi_resource multiset" where
  "owned_by sb = {#Proc (lo_proc sb), Thread (lo_main_thread sb)#}"

definition lfim_inv :: "lfi_object multiset \<Rightarrow> lfi_manager \<Rightarrow> bool" where
  "lfim_inv sbs m \<longleftrightarrow>
     (lm_engine m = 0 \<longleftrightarrow> lm_linux_engine m = 0) \<and> (\<forall>sb\<in>#sbs. lo_proc sb \<noteq> 0 \<and> lo_main_thread sb \<noteq> 0 \<and> lo_inited sb) \<and>
     lm_held m = engines m + (\<Sum>sb\<in>#sbs. owned_by sb)"

lemma lfim_create_inv:
  assumes inv: "lfim_inv sbs m" and none: "lm_engine m = 0"
  shows "\<exists>m1. lfim_create rt n m = Returns (lm_engine m1 \<noteq> 0, m1) \<and> lfim_inv sbs m1"
proof -
  consider "rt_new rt n = 0" | "rt_new rt n \<noteq> 0" "rt_linux_new rt = 0" | "rt_new rt n \<noteq> 0" "rt_linux_new rt \<noteq> 0" by blast
  then show ?thesis
    using inv none by cases (simp_all add: lfim_create_def Let_def obtain_res_def give_back_def lfim_inv_def engines_def)
qed

lemma lfim_get_inv:
  assumes "lfim_inv sbs m"
  shows "\<exists>eng m1. lfim_get rt m = Returns (eng, m1) \<and> lfim_inv sbs m1"
proof (cases "lm_engine m = 0")
  case True
  obtain m1 where "lfim_create rt 1 m = Returns (lm_engine m1 \<noteq> 0, m1)" "lfim_inv sbs m1"
    using lfim_create_inv [OF assms True, of rt 1] by blast
  with True show ?thesis
    by (intro exI [of _ "if lm_engine m1 = 0 then 0 else lm_linux_engine m1"] exI [of _ m1]) (auto simp: lfim_get_def lfim_ensure_def)
qed (use assms in \<open>simp add: lfim_get_def lfim_ensure_def\<close>)

lemma lfim_init_inv:
  assumes "lfim_inv sbs m"
  shows "\<exists>ok m1. lfim_init rt n m = Returns (ok, m1) \<and> lfim_inv sbs m1"
  using assms lfim_create_inv [OF assms, of rt n] by (auto simp: lfim_init_def)

lemma lfim_destroy_inv:
  assumes "lfim_inv sbs m"
  shows "\<exists>m1. lfim_destroy m = Returns m1 \<and> lfim_inv sbs m1 \<and> lm_engine m1 = 0"
  using assms by (cases "lm_engine m = 0") (auto simp: lfim_destroy_def give_back_def lfim_inv_def engines_def)

lemma lfi_sandbox_create_inv:
  assumes "lfim_inv sbs m"
  shows "\<exists>r m1. lfi_sandbox_create rt path m = Returns (r, m1) \<and>
    lfim_inv (case r of None \<Rightarrow> sbs | Some sb \<Rightarrow> add_mset sb sbs) m1"
proof -
  obtain eng m1 where get: "lfim_get rt m = Returns (eng, m1)" and inv: "lfim_inv sbs m1" using lfim_get_inv [OF assms] by blast
  note fail = fail_create_def lfi_sandbox_destroy_def give_back_def obtain_res_def fresh_object_def Let_def
  note simps = lfi_sandbox_create_def get fail lfim_inv_def engines_def owned_by_def
  consider "eng = 0 \<or> rt_proc_new rt = 0" | "eng \<noteq> 0" "rt_proc_new rt \<noteq> 0" "\<not> rt_load_file rt path \<or> rt_ret_sym rt = 0 \<or> rt_thread_new rt = 0"
    | "eng \<noteq> 0" "rt_proc_new rt \<noteq> 0" "rt_load_file rt path" "rt_ret_sym rt \<noteq> 0" "rt_thread_new rt \<noteq> 0" "rt_run rt \<noteq> 0"
    | "eng \<noteq> 0" "rt_proc_new rt \<noteq> 0" "rt_load_file rt path" "rt_ret_sym rt \<noteq> 0" "rt_thread_new rt \<noteq> 0" "rt_run rt = 0"
    by blast
  then show ?thesis
    using inv by cases (auto simp: simps)
qed

lemma lfi_sandbox_destroy_inv:
  assumes "lfim_inv (add_mset sb sbs) m"
  shows "\<exists>m1. lfi_sandbox_destroy sb m = Returns m1 \<and> lfim_inv sbs m1"
proof -
  have sb: "lo_proc sb \<noteq> 0" "lo_main_thread sb \<noteq> 0"
    and held: "lm_held m = add_mset (Thread (lo_main_thread sb)) (add_mset (Proc (lo_proc sb)) (engines m + (\<Sum>sb\<in>#sbs. owned_by sb)))"
    using assms by (simp_all add: lfim_inv_def owned_by_def)
  have "lfi_sandbox_destroy sb m = Returns (m\<lparr>lm_held := engines m + (\<Sum>sb\<in>#sbs. owned_by sb)\<rparr>)"
    using sb by (simp add: lfi_sandbox_destroy_def give_back_def held)
  then show ?thesis using assms by (simp add: lfim_inv_def engines_def)
qed

section \<open>Lifetimes\<close>

text \<open>
  The operations of an application, in any order: the optional \<open>init\<close> and \<open>destroy\<close> of the engine,
  creating sandboxes and destroying any that exist.
\<close>

inductive lfi_step :: "lfi_manager \<times> lfi_object multiset \<Rightarrow> lfi_manager \<times> lfi_object multiset \<Rightarrow> bool" where
  step_init: "lfim_init rt n m = Returns (ok, m1) \<Longrightarrow> lfi_step (m, sbs) (m1, sbs)"
| step_destroy: "lfim_destroy m = Returns m1 \<Longrightarrow> lfi_step (m, sbs) (m1, sbs)"
| step_failed: "lfi_sandbox_create rt path m = Returns (None, m1) \<Longrightarrow> lfi_step (m, sbs) (m1, sbs)"
| step_created: "lfi_sandbox_create rt path m = Returns (Some sb, m1) \<Longrightarrow> lfi_step (m, sbs) (m1, add_mset sb sbs)"
| step_delete: "lfi_sandbox_destroy sb m = Returns m1 \<Longrightarrow> lfi_step (m, add_mset sb sbs) (m1, sbs)"

definition fresh_manager :: lfi_manager where
  "fresh_manager = \<lparr>lm_engine = 0, lm_linux_engine = 0, lm_held = {#}\<rparr>"

lemma fresh_manager_inv: "lfim_inv {#} fresh_manager"
  by (simp add: lfim_inv_def fresh_manager_def engines_def)

lemma lfi_step_inv: "lfi_step s s' \<Longrightarrow> lfim_inv (snd s) (fst s) \<Longrightarrow> lfim_inv (snd s') (fst s')"
proof (induction rule: lfi_step.induct)
  case (step_init rt n m ok m1 sbs)
  then show ?case using lfim_init_inv [of sbs m rt n] by simp
next
  case (step_destroy m m1 sbs)
  then show ?case using lfim_destroy_inv [of sbs m] by simp
next
  case (step_failed rt path m m1 sbs)
  then show ?case using lfi_sandbox_create_inv [of sbs m rt path] by simp
next
  case (step_created rt path m sb m1 sbs)
  then show ?case using lfi_sandbox_create_inv [of sbs m rt path] by simp
next
  case (step_delete sb m m1 sbs)
  then show ?case using lfi_sandbox_destroy_inv [of sb sbs m] by simp
qed

lemma lfi_steps_inv: "lfi_step\<^sup>*\<^sup>* s s' \<Longrightarrow> lfim_inv (snd s) (fst s) \<Longrightarrow> lfim_inv (snd s') (fst s')"
  by (induction rule: rtranclp_induct) (auto intro: lfi_step_inv)

section \<open>Properties\<close>

text \<open>C9: the LFI side neither leaks nor frees twice. Through any sequence of engine initialisations and
  destructions, sandbox creations (failing at any point, for any answers of the runtime) and sandbox
  destructions, what is held from the LFI runtime is exactly the pair of engines, if there is one, and
  one process and one thread for every sandbox that exists; and from every such state each of the
  operations returns, it never gives back what it does not hold.\<close>

theorem lfi_resources_balanced:
  assumes "lfi_step\<^sup>*\<^sup>* (fresh_manager, {#}) (m, sbs)"
  shows "lm_held m = engines m + (\<Sum>sb\<in>#sbs. owned_by sb) \<and> (lm_engine m = 0 \<longleftrightarrow> lm_linux_engine m = 0) \<and>
    (\<exists>m1. lfim_destroy m = Returns m1) \<and> (\<forall>rt n. \<exists>r. lfim_init rt n m = Returns r) \<and>
    (\<forall>rt path. \<exists>r. lfi_sandbox_create rt path m = Returns r) \<and> (\<forall>sb\<in>#sbs. \<exists>m1. lfi_sandbox_destroy sb m = Returns m1)"
proof -
  have inv: "lfim_inv sbs m" using lfi_steps_inv [OF assms] fresh_manager_inv by simp
  have "\<exists>m1. lfi_sandbox_destroy sb m = Returns m1" if sb: "sb \<in># sbs" for sb
  proof -
    from multi_member_split [OF sb] obtain rest where "sbs = add_mset sb rest" by blast
    with lfi_sandbox_destroy_inv [of sb rest m] inv show ?thesis by auto
  qed
  moreover have "\<exists>m1. lfim_destroy m = Returns m1" using lfim_destroy_inv [OF inv] by blast
  moreover have "\<forall>rt n. \<exists>r. lfim_init rt n m = Returns r" using lfim_init_inv [OF inv] by blast
  moreover have "\<forall>rt path. \<exists>r. lfi_sandbox_create rt path m = Returns r" using lfi_sandbox_create_inv [OF inv] by blast
  ultimately show ?thesis using inv by (simp add: lfim_inv_def)
qed

text \<open>An example: a sandbox is created, then creating a second one fails in its initialisation.\<close>

definition lfi_example_runtime :: lfi_runtime where
  "lfi_example_runtime = \<lparr>rt_new = (\<lambda>n. 1), rt_linux_new = 2, rt_proc_new = 3, rt_load_file = (\<lambda>p. True), rt_proc_box = (\<lambda>p. 4),
     rt_ret_sym = 5, rt_thread_new = 6, rt_run = 0\<rparr>"

theorem lfi_resources_balanced_witness:
  "\<exists>m sb. lfi_step\<^sup>*\<^sup>* (fresh_manager, {#}) (m, {#sb#}) \<and> lm_held m = {#Engine 1, LinuxEngine 2, Proc 3, Thread 6#}"
proof -
  let ?rt = lfi_example_runtime and ?sb = "\<lparr>lo_proc = 3, lo_main_thread = 6, lo_box = 4, lo_inited = True\<rparr>"
  let ?m = "\<lparr>lm_engine = 1, lm_linux_engine = 2, lm_held = {#Thread 6, Proc 3, LinuxEngine 2, Engine 1#}\<rparr>"
  have c: "lfi_sandbox_create ?rt [] fresh_manager = Returns (Some ?sb, ?m)"
    by (simp add: lfi_sandbox_create_def lfim_get_def lfim_ensure_def lfim_create_def obtain_res_def lfi_example_runtime_def
        fresh_manager_def fresh_object_def)
  have "lfi_sandbox_create (?rt\<lparr>rt_proc_new := 7, rt_thread_new := 8, rt_run := 1\<rparr>) [] ?m = Returns (None, ?m)"
    by (simp add: lfi_sandbox_create_def lfim_get_def lfim_ensure_def obtain_res_def lfi_example_runtime_def
        fresh_object_def fail_create_def lfi_sandbox_destroy_def give_back_def)
  then have "lfi_step (?m, {#?sb#}) (?m, {#?sb#})" by (rule step_failed)
  with step_created [OF c, of "{#}"] have run: "lfi_step\<^sup>*\<^sup>* (fresh_manager, {#}) (?m, {#?sb#})" by auto
  from lfi_resources_balanced [OF this] have "lm_held ?m = engines ?m + (\<Sum>sb\<in>#{#?sb#}. owned_by sb)" by blast
  also have "\<dots> = {#Engine 1, LinuxEngine 2, Proc 3, Thread 6#}" by (simp add: engines_def owned_by_def)
  finally show ?thesis using run by blast
qed

end
