(* ===== verification/Passthrough.thy ===== *)
theory Passthrough
  imports Copying ProcessBox
begin

text \<open>
  The passthrough backend \<open>Sandbox<Passthrough>\<close> and its \<open>CallContext\<close>
  (\<open>include/sbox/passthrough.hh\<close>): the library runs in the host process. The dynamic linker, the C
  library and the code behind a function pointer are the parameter \<open>pt_env\<close>. There is one memory,
  which holds the host's variables too.
\<close>

section \<open>State\<close>

text \<open>\<open>pw_cache\<close> is the sandbox's symbol cache, \<open>pw_arena\<close> the thread's arena, which is made when it is first used.\<close>

record 'g pt_world =
  pw_mem :: memory
  pw_tls :: u64
  pw_cache :: "u64 \<Rightarrow> u64 option"
  pw_arena :: "PassthroughArena option"
  pw_user :: 'g

record pt_sandbox =
  pt_this :: u64
  pt_handle :: u64

record 'g pt_env =
  pe_dlopen :: "byte list \<Rightarrow> 'g pt_world \<Rightarrow> u64 \<times> 'g pt_world"
  pe_dlclose :: "u64 \<Rightarrow> 'g pt_world \<Rightarrow> 'g pt_world"
  pe_dlsym :: "u64 \<Rightarrow> byte list \<Rightarrow> u64"
  pe_code :: "u64 \<Rightarrow> byte list list \<Rightarrow> 'g pt_world \<Rightarrow> (byte list option \<times> 'g pt_world) outcome"
  pe_malloc :: "u64 \<Rightarrow> 'g pt_world \<Rightarrow> u64 \<times> 'g pt_world"
  pe_calloc :: "u64 \<Rightarrow> u64 \<Rightarrow> 'g pt_world \<Rightarrow> u64 \<times> 'g pt_world"
  pe_realloc :: "u64 \<Rightarrow> u64 \<Rightarrow> 'g pt_world \<Rightarrow> u64 \<times> 'g pt_world"
  pe_free :: "u64 \<Rightarrow> 'g pt_world \<Rightarrow> 'g pt_world"
  pe_mmap :: "u64 \<Rightarrow> u64 \<Rightarrow> int \<Rightarrow> int \<Rightarrow> int \<Rightarrow> int \<Rightarrow> 'g pt_world \<Rightarrow> u64 \<times> 'g pt_world"
  pe_munmap :: "u64 \<Rightarrow> u64 \<Rightarrow> 'g pt_world \<Rightarrow> int \<times> 'g pt_world"
  pe_close :: "int \<Rightarrow> 'g pt_world \<Rightarrow> int \<times> 'g pt_world"

section \<open>Loading and symbols\<close>

text \<open>The constructors and the destructor. A failed \<open>dlopen\<close> is not noticed.\<close>

definition pt_load :: "'g pt_env \<Rightarrow> u64 \<Rightarrow> byte list \<Rightarrow> 'g pt_world \<Rightarrow> pt_sandbox \<times> 'g pt_world" where
  "pt_load e this path w = (let (h, w1) = pe_dlopen e path w in (\<lparr>pt_this = this, pt_handle = h\<rparr>, w1))"

definition pt_static :: "u64 \<Rightarrow> pt_sandbox" where
  "pt_static this = \<lparr>pt_this = this, pt_handle = 0\<rparr>"

definition pt_unload :: "'g pt_env \<Rightarrow> pt_sandbox \<Rightarrow> 'g pt_world \<Rightarrow> 'g pt_world" where
  "pt_unload e sb w = (if pt_handle sb \<noteq> 0 then pe_dlclose e (pt_handle sb) w else w)"

definition pt_store :: "u64 \<Rightarrow> u64 \<Rightarrow> 'g pt_world \<Rightarrow> 'g pt_world" where
  "pt_store n s w = w\<lparr>pw_cache := (pw_cache w)(n \<mapsto> s)\<rparr>"

definition pt_lookup ::
  "'g pt_env \<Rightarrow> pt_sandbox \<Rightarrow> (u64 \<Rightarrow> byte list) \<Rightarrow> u64 \<Rightarrow> 'g pt_world \<Rightarrow> (u64 \<times> 'g pt_world) outcome" where
  "pt_lookup e sb lits =
     cached_lookup (\<lambda>n w. Returns (pe_dlsym e (pt_handle sb) (lits n), w)) pw_cache pt_store"

section \<open>Calls\<close>

text \<open>\<open>call_ptr_sig\<close> and \<open>call_ptr\<close>: the arguments are converted, the function runs.\<close>

definition pt_run :: "'g pt_env \<Rightarrow> pt_sandbox \<Rightarrow> u64 \<Rightarrow> byte list list \<Rightarrow> 'g pt_world \<Rightarrow> (byte list option \<times> 'g pt_world) outcome" where
  "pt_run e sb fn vs w = pe_code e fn vs (w\<lparr>pw_tls := pt_this sb\<rparr>)"

definition pt_call ::
  "'g pt_env \<Rightarrow> pt_sandbox \<Rightarrow> bool \<Rightarrow> (cxx_type \<Rightarrow> cxx_type \<Rightarrow> byte list \<Rightarrow> byte list) \<Rightarrow> (u64 \<Rightarrow> byte list) \<Rightarrow> u64 \<Rightarrow>
     cxx_type list \<Rightarrow> (cxx_type \<times> byte list) list \<Rightarrow> 'g pt_world \<Rightarrow> (byte list option \<times> 'g pt_world) outcome" where
  "pt_call e sb ch fp lits name params xs w =
     and_then (pt_lookup e sb lits name w) (\<lambda>(fn, w1).
       if fn = 0 then Aborts
       else and_then (checked (convert_args ch fp params xs)) (\<lambda>vs. pt_run e sb fn vs w1))"

definition pt_typed_call ::
  "'g pt_env \<Rightarrow> pt_sandbox \<Rightarrow> bool \<Rightarrow> (cxx_type \<Rightarrow> cxx_type \<Rightarrow> byte list \<Rightarrow> byte list) \<Rightarrow> (u64 \<Rightarrow> byte list) \<Rightarrow> u64 \<Rightarrow>
     cxx_type list \<Rightarrow> (cxx_type \<times> byte list) list \<Rightarrow> 'g pt_world \<Rightarrow> (byte list option \<times> 'g pt_world) outcome" where
  "pt_typed_call e sb ch fp lits name params xs w =
     (if typed_call_ok params (map fst xs) then pt_call e sb ch fp lits name params xs w else Aborts)"

text \<open>
  Calls of a function pointer. \<open>vs\<close> is the arguments after \<open>unwrap_sbox_arg\<close> and the implicit conversions.
  The variant with a context has its own body, which does not assign \<open>tls_current_sandbox\<close>.
\<close>

definition pt_call_fn :: "'g pt_env \<Rightarrow> pt_sandbox \<Rightarrow> u64 \<Rightarrow> byte list list \<Rightarrow> 'g pt_world \<Rightarrow> (byte list option \<times> 'g pt_world) outcome" where
  "pt_call_fn e sb fn vs w = pe_code e fn vs (w\<lparr>pw_tls := pt_this sb\<rparr>)"

definition pt_context_call_fn :: "'g pt_env \<Rightarrow> pt_sandbox \<Rightarrow> u64 \<Rightarrow> byte list list \<Rightarrow> 'g pt_world \<Rightarrow> (byte list option \<times> 'g pt_world) outcome" where
  "pt_context_call_fn e sb fn vs w = pe_code e fn vs w"

text \<open>Function handles: the call converts and uses the pointer as it is.\<close>

definition pt_fn :: "'g pt_env \<Rightarrow> pt_sandbox \<Rightarrow> (u64 \<Rightarrow> byte list) \<Rightarrow> u64 \<Rightarrow> 'g pt_world \<Rightarrow> (FnHandle \<times> 'g pt_world) outcome" where
  "pt_fn e sb lits name w =
     and_then (pt_lookup e sb lits name w) (\<lambda>(fn, w1). Returns (\<lparr>fh_sandbox = pt_this sb, fh_fn_ptr = fn\<rparr>, w1))"

definition pt_handle_call ::
  "'g pt_env \<Rightarrow> pt_sandbox \<Rightarrow> bool \<Rightarrow> (cxx_type \<Rightarrow> cxx_type \<Rightarrow> byte list \<Rightarrow> byte list) \<Rightarrow> FnHandle \<Rightarrow>
     cxx_type list \<Rightarrow> (cxx_type \<times> byte list) list \<Rightarrow> 'g pt_world \<Rightarrow> (byte list option \<times> 'g pt_world) outcome" where
  "pt_handle_call e sb ch fp fh params xs w =
     and_then (checked (convert_args ch fp params xs)) (\<lambda>vs. pt_run e sb (fh_fn_ptr fh) vs w)"

text \<open>The context: every parameter is the host variable itself, at \<open>p\<close>; \<open>finalize\<close> does nothing.\<close>

definition pt_param :: "u64 \<Rightarrow> u64" where "pt_param p = p"

definition pt_finalize :: "'g pt_world \<Rightarrow> 'g pt_world" where "pt_finalize w = w"

definition pt_context_call ::
  "'g pt_env \<Rightarrow> pt_sandbox \<Rightarrow> bool \<Rightarrow> (cxx_type \<Rightarrow> cxx_type \<Rightarrow> byte list \<Rightarrow> byte list) \<Rightarrow> (u64 \<Rightarrow> byte list) \<Rightarrow> u64 \<Rightarrow>
     cxx_type list \<Rightarrow> (cxx_type \<times> byte list) list \<Rightarrow> 'g pt_world \<Rightarrow> (byte list option \<times> 'g pt_world) outcome" where
  "pt_context_call e sb ch fp lits name params xs w =
     and_then (pt_call e sb ch fp lits name params xs w) (\<lambda>(r, w1). Returns (r, pt_finalize w1))"

definition pt_typed_context_call ::
  "'g pt_env \<Rightarrow> pt_sandbox \<Rightarrow> bool \<Rightarrow> (cxx_type \<Rightarrow> cxx_type \<Rightarrow> byte list \<Rightarrow> byte list) \<Rightarrow> (u64 \<Rightarrow> byte list) \<Rightarrow> u64 \<Rightarrow>
     cxx_type list \<Rightarrow> (cxx_type \<times> byte list) list \<Rightarrow> 'g pt_world \<Rightarrow> (byte list option \<times> 'g pt_world) outcome" where
  "pt_typed_context_call e sb ch fp lits name params xs w =
     (if typed_call_ok params (map fst xs) then pt_context_call e sb ch fp lits name params xs w else Aborts)"

section \<open>Memory\<close>

definition pt_alloc :: "'g pt_env \<Rightarrow> nat \<Rightarrow> u64 \<Rightarrow> 'g pt_world \<Rightarrow> u64 \<times> 'g pt_world" where
  "pt_alloc e sz cnt w = pe_malloc e (object_bytes sz cnt) w"

definition pt_calloc :: "'g pt_env \<Rightarrow> nat \<Rightarrow> u64 \<Rightarrow> 'g pt_world \<Rightarrow> u64 \<times> 'g pt_world" where
  "pt_calloc e sz cnt w = pe_calloc e cnt (word_of_nat sz) w"

definition pt_realloc :: "'g pt_env \<Rightarrow> u64 \<Rightarrow> nat \<Rightarrow> u64 \<Rightarrow> 'g pt_world \<Rightarrow> u64 \<times> 'g pt_world" where
  "pt_realloc e p sz cnt w = pe_realloc e p (object_bytes sz cnt) w"

definition pt_free :: "'g pt_env \<Rightarrow> u64 \<Rightarrow> 'g pt_world \<Rightarrow> 'g pt_world" where
  "pt_free e p w = pe_free e p w"

definition pt_verify :: "nat \<Rightarrow> u64 \<Rightarrow> u64 \<Rightarrow> u64 outcome" where
  "pt_verify sz raw cnt = Returns raw"

definition pt_mmap :: "'g pt_env \<Rightarrow> u64 \<Rightarrow> u64 \<Rightarrow> int \<Rightarrow> int \<Rightarrow> int \<Rightarrow> int \<Rightarrow> 'g pt_world \<Rightarrow> u64 \<times> 'g pt_world" where
  "pt_mmap e addr len prot flags fd off w = pe_mmap e addr len prot flags fd off w"

definition pt_munmap :: "'g pt_env \<Rightarrow> u64 \<Rightarrow> u64 \<Rightarrow> 'g pt_world \<Rightarrow> int \<times> 'g pt_world" where
  "pt_munmap e addr len w = pe_munmap e addr len w"

text \<open>\<open>MAP_PRIVATE | MAP_ANONYMOUS\<close> is \<open>0x22\<close>.\<close>

definition pt_mmap_identity :: "'g pt_env \<Rightarrow> u64 \<Rightarrow> int \<Rightarrow> 'g pt_world \<Rightarrow> u64 \<times> 'g pt_world" where
  "pt_mmap_identity e len prot w = pe_mmap e 0 len prot 0x22 (- 1) 0 w"

definition pt_munmap_identity :: "'g pt_env \<Rightarrow> u64 \<Rightarrow> u64 \<Rightarrow> 'g pt_world \<Rightarrow> int \<times> 'g pt_world" where
  "pt_munmap_identity e addr len w = pe_munmap e addr len w"

text \<open>\<open>get_thread_arena\<close>: the arena's constructor takes 64 KiB from \<open>malloc\<close>.\<close>

definition get_thread_arena :: "'g pt_env \<Rightarrow> 'g pt_world \<Rightarrow> PassthroughArena \<times> 'g pt_world" where
  "get_thread_arena e w =
     (case pw_arena w of
        Some a \<Rightarrow> (a, w)
      | None \<Rightarrow>
          let (p, w1) = pe_malloc e 0x10000 w; a = \<lparr>pa_base = p, pa_offset = 0\<rparr>
          in (a, w1\<lparr>pw_arena := Some a\<rparr>))"

definition pt_idmem_alloc :: "'g pt_env \<Rightarrow> nat \<Rightarrow> u64 \<Rightarrow> u64 \<Rightarrow> 'g pt_world \<Rightarrow> u64 \<times> 'g pt_world" where
  "pt_idmem_alloc e sz al cnt w =
     (let (a, w1) = get_thread_arena e w; (p, a1) = pa_alloc (object_bytes sz cnt) al a
      in (p, w1\<lparr>pw_arena := Some a1\<rparr>))"

definition pt_idmem_reset :: "'g pt_env \<Rightarrow> 'g pt_world \<Rightarrow> 'g pt_world" where
  "pt_idmem_reset e w = (let (a, w1) = get_thread_arena e w in w1\<lparr>pw_arena := Some (pa_reset a)\<rparr>)"

definition pt_register_fd :: "int \<Rightarrow> int" where "pt_register_fd fd = fd"

definition pt_close_fd :: "'g pt_env \<Rightarrow> int \<Rightarrow> 'g pt_world \<Rightarrow> int \<times> 'g pt_world" where
  "pt_close_fd e fd w = pe_close e fd w"

definition pt_copy_to :: "u64 \<Rightarrow> byte list \<Rightarrow> 'g pt_world \<Rightarrow> 'g pt_world" where
  "pt_copy_to d s w = w\<lparr>pw_mem := write_bytes (pw_mem w) d s\<rparr>"

definition pt_copy_from :: "u64 \<Rightarrow> nat \<Rightarrow> 'g pt_world \<Rightarrow> byte list" where
  "pt_copy_from s n w = read_bytes (pw_mem w) s n"

definition pt_copy_string :: "'g pt_env \<Rightarrow> byte list \<Rightarrow> 'g pt_world \<Rightarrow> u64 \<times> 'g pt_world" where
  "pt_copy_string e s w =
     (let len = length s + 1; (buf, w1) = pt_alloc e 1 (word_of_nat len) w
      in if buf = 0 then (0, w1) else (buf, pt_copy_to buf (s @ [0]) w1))"

text \<open>A registered callback is the function itself, or its thunk.\<close>

definition pt_register_callback :: "u64 \<Rightarrow> u64" where "pt_register_callback fn = fn"

section \<open>Symbols\<close>

text \<open>The backend's search is a symbol source, as is the process backend's.\<close>

interpretation passthrough_symbols: symbol_source "\<lambda>n w. Returns (pe_dlsym e (pt_handle sb) (lits n), w)"
  "pw_cache :: 'g pt_world \<Rightarrow> u64 \<Rightarrow> u64 option" pt_store "\<lambda>n. pe_dlsym e (pt_handle sb) (lits n)" "\<lambda>w. True"
  for e :: "'g pt_env" and sb lits
  by unfold_locales (simp_all add: pt_store_def)

definition pt_coherent :: "'g pt_env \<Rightarrow> pt_sandbox \<Rightarrow> (u64 \<Rightarrow> byte list) \<Rightarrow> 'g pt_world \<Rightarrow> bool" where
  "pt_coherent e sb lits w \<longleftrightarrow>
     (\<forall>n s. pw_cache w n = Some s \<longrightarrow> s = pe_dlsym e (pt_handle sb) (lits n) \<and> s \<noteq> 0)"

text \<open>The interface's fact for this backend.\<close>

lemma pt_lookup_sound:
  assumes "pt_coherent e sb lits w"
  shows "\<exists>w1. pt_lookup e sb lits n w = Returns (pe_dlsym e (pt_handle sb) (lits n), w1) \<and> pt_coherent e sb lits w1"
proof -
  have co: "symbol_source.coherent pw_cache (\<lambda>n. pe_dlsym e (pt_handle sb) (lits n)) v = pt_coherent e sb lits v" for v
    by (simp add: passthrough_symbols.coherent_def pt_coherent_def)
  show ?thesis
    using passthrough_symbols.lookup_sound [where e = e and sb = sb and lits = lits and w = w and n = n] assms
    unfolding co pt_lookup_def by blast
qed

text \<open>A call by name runs the library's function on the converted arguments, in the sandbox's name.\<close>

lemma pt_call_function:
  assumes "pt_coherent e sb lits w" "pe_dlsym e (pt_handle sb) (lits n) \<noteq> 0" "convert_args ch fp params xs = Some vs"
  shows "pt_call e sb ch fp lits n params xs w =
    pe_code e (pe_dlsym e (pt_handle sb) (lits n)) vs
      (w\<lparr>pw_cache := (pw_cache w)(n \<mapsto> pe_dlsym e (pt_handle sb) (lits n)), pw_tls := pt_this sb\<rparr>)"
proof (cases "pw_cache w n")
  case None
  with assms show ?thesis by (simp add: pt_call_def pt_lookup_def cached_lookup_def pt_store_def pt_run_def)
next
  case (Some s)
  with assms(1) have s: "s = pe_dlsym e (pt_handle sb) (lits n)" by (simp add: pt_coherent_def)
  then have "(pw_cache w)(n \<mapsto> pe_dlsym e (pt_handle sb) (lits n)) = pw_cache w" using Some by auto
  then have w: "w\<lparr>pw_cache := (pw_cache w)(n \<mapsto> pe_dlsym e (pt_handle sb) (lits n))\<rparr> = w" by simp
  show ?thesis
    using Some s assms(2,3) by (subst w [symmetric]) (simp add: pt_call_def pt_lookup_def cached_lookup_def pt_run_def w)
qed

text \<open>An unknown name aborts and is not cached.\<close>

lemma pt_call_unknown:
  "pt_coherent e sb lits w \<Longrightarrow> pe_dlsym e (pt_handle sb) (lits n) = 0 \<Longrightarrow> pt_call e sb ch fp lits n params xs w = Aborts"
  by (cases "pw_cache w n") (auto simp: pt_call_def pt_lookup_def cached_lookup_def pt_coherent_def)

end
