(* ===== verification/Threads.thy ===== *)
theory Threads
  imports Prelude "HOL-Library.Multiset"
begin

text \<open>
  Host threads that share a box. A thread is a resumption over its local state (what
  \<open>pthread_getspecific\<close> gives it) and the shared world: it takes and gives mutexes
  (\<open>pthread_mutex_lock\<close>, \<open>std::lock_guard\<close>) and acts on the world in between. The interleavings are a step
  relation; the locale \<open>lock_discipline\<close> shows once what a lock order and protected parts of the
  world give for every interleaving. Theory \<open>BoxThreads\<close> writes the operations of the box in this form.
\<close>

section \<open>Threads\<close>

text \<open>An action that does not return (\<open>Blocks\<close>, \<open>Aborts\<close>) keeps its thread where it is.\<close>

datatype ('x, 'l, 'w, 'a) thread =
    Finished 'a
  | Lock 'x "('x, 'l, 'w, 'a) thread"
  | Unlock 'x "('x, 'l, 'w, 'a) thread"
  | Atomic "'l \<Rightarrow> 'w \<Rightarrow> ('l \<times> 'w \<times> ('x, 'l, 'w, 'a) thread) outcome"

primrec after :: "('x, 'l, 'w, 'a) thread \<Rightarrow> ('a \<Rightarrow> ('x, 'l, 'w, 'b) thread) \<Rightarrow> ('x, 'l, 'w, 'b) thread" where
  "after (Finished a) g = g a"
| "after (Lock m t) g = Lock m (after t g)"
| "after (Unlock m t) g = Unlock m (after t g)"
| "after (Atomic f) g =
     Atomic (\<lambda>l w. map_outcome (map_prod id (map_prod id (\<lambda>t. after t g))) (f l w))"

lemma map_outcome_cong2: "(\<And>x. m = Returns x \<Longrightarrow> h x = g x) \<Longrightarrow> map_outcome h m = map_outcome g m"
  by (cases m) simp_all

text \<open>What a thread does when it has the world to itself: it gets every lock it asks for.\<close>

primrec alone :: "('x, 'l, 'w, 'a) thread \<Rightarrow> 'l \<Rightarrow> 'w \<Rightarrow> ('a \<times> 'l \<times> 'w) outcome" where
  "alone (Finished a) = (\<lambda>l w. Returns (a, l, w))"
| "alone (Lock m t) = alone t"
| "alone (Unlock m t) = alone t"
| "alone (Atomic f) =
     (\<lambda>l w. and_then (map_outcome (map_prod id (map_prod id alone)) (f l w)) (\<lambda>(l', w', r). r l' w'))"

lemma and_then_map [simp]: "and_then (map_outcome h m) g = and_then m (\<lambda>x. g (h x))"
  by (cases m) simp_all

lemma and_then_assoc: "and_then (and_then m f) g = and_then m (\<lambda>x. and_then (f x) g)"
  by (cases m) simp_all

lemma and_then_return [simp]: "and_then m Returns = m"
  by (cases m) simp_all

lemma map_outcome_iff [simp]: "map_outcome h m = Returns y \<longleftrightarrow> (\<exists>x. m = Returns x \<and> y = h x)"
  by (cases m) auto

lemma alone_Atomic: "alone (Atomic f) l w = and_then (f l w) (\<lambda>(l', w', t). alone t l' w')"
  by (simp add: split_def)

text \<open>Induction over the threads that an action can leave.\<close>

lemma thread_induct [case_names Finished Lock Unlock Atomic]:
  assumes "\<And>a. P (Finished a)" "\<And>m t. P t \<Longrightarrow> P (Lock m t)" "\<And>m t. P t \<Longrightarrow> P (Unlock m t)"
    and atomic: "\<And>f. (\<And>l w l' w' t. f l w = Returns (l', w', t) \<Longrightarrow> P t) \<Longrightarrow> P (Atomic f)"
  shows "P t"
proof (induction t)
  case (Atomic f)
  show ?case
  proof (rule atomic)
    fix l w l' w' t
    assume r: "f l w = Returns (l', w', t)"
    have "f l \<in> range f" "f l w \<in> range (f l)" by simp_all
    then show "P t" by (rule Atomic.IH [of "f l" "f l w" "(l', w', t)" "(w', t)" t]) (simp_all add: r)
  qed
qed (simp_all add: assms)

lemma after_assoc: "after (after t g) h = after t (\<lambda>a. after (g a) h)"
proof (induction t rule: thread_induct)
  case (Atomic f)
  then show ?case
    by (auto simp: outcome.map_comp fun_eq_iff intro!: map_outcome_cong2)
qed simp_all

lemma alone_after: "alone (after t g) l w = and_then (alone t l w) (\<lambda>(a, l', w'). alone (g a) l' w')"
proof (induction t arbitrary: l w rule: thread_induct)
  case (Atomic f)
  show ?case by (cases "f l w") (auto simp: Atomic)
qed simp_all

section \<open>Interleavings\<close>

record ('x, 'l, 'w, 'a) system =
  sy_world :: 'w
  sy_owner :: "'x \<Rightarrow> nat option"
  sy_threads :: "('l \<times> ('x, 'l, 'w, 'a) thread) list"

inductive thread_step :: "nat \<Rightarrow> ('x, 'l, 'w, 'a) system \<Rightarrow> ('x, 'l, 'w, 'a) system \<Rightarrow> bool" where
  step_lock: "i < length (sy_threads s) \<Longrightarrow> sy_threads s ! i = (l, Lock m t) \<Longrightarrow> sy_owner s m = None \<Longrightarrow>
    thread_step i s (s\<lparr>sy_owner := (sy_owner s)(m \<mapsto> i), sy_threads := (sy_threads s)[i := (l, t)]\<rparr>)"
| step_unlock: "i < length (sy_threads s) \<Longrightarrow> sy_threads s ! i = (l, Unlock m t) \<Longrightarrow> sy_owner s m = Some i \<Longrightarrow>
    thread_step i s (s\<lparr>sy_owner := (sy_owner s)(m := None), sy_threads := (sy_threads s)[i := (l, t)]\<rparr>)"
| step_atomic: "i < length (sy_threads s) \<Longrightarrow> sy_threads s ! i = (l, Atomic f) \<Longrightarrow>
    f l (sy_world s) = Returns (l', w', t) \<Longrightarrow>
    thread_step i s (s\<lparr>sy_world := w', sy_threads := (sy_threads s)[i := (l', t)]\<rparr>)"

text \<open>The same step as a function, and a run under a schedule that names the thread of each step.\<close>

definition step_thread :: "nat \<Rightarrow> ('x, 'l, 'w, 'a) system \<Rightarrow> ('x, 'l, 'w, 'a) system option" where
  "step_thread i s =
     (if i < length (sy_threads s) then
        case sy_threads s ! i of (l, t) \<Rightarrow>
          (case t of
             Finished a \<Rightarrow> None
           | Lock m t \<Rightarrow>
               if sy_owner s m = None
               then Some (s\<lparr>sy_owner := (sy_owner s)(m \<mapsto> i), sy_threads := (sy_threads s)[i := (l, t)]\<rparr>) else None
           | Unlock m t \<Rightarrow>
               if sy_owner s m = Some i
               then Some (s\<lparr>sy_owner := (sy_owner s)(m := None), sy_threads := (sy_threads s)[i := (l, t)]\<rparr>) else None
           | Atomic f \<Rightarrow>
               (case f l (sy_world s) of
                  Returns (l', w', t) \<Rightarrow> Some (s\<lparr>sy_world := w', sy_threads := (sy_threads s)[i := (l', t)]\<rparr>)
                | _ \<Rightarrow> None))
      else None)"

fun run_schedule :: "nat list \<Rightarrow> ('x, 'l, 'w, 'a) system \<Rightarrow> ('x, 'l, 'w, 'a) system option" where
  "run_schedule [] s = Some s"
| "run_schedule (i # is) s = (case step_thread i s of None \<Rightarrow> None | Some s' \<Rightarrow> run_schedule is s')"

inductive thread_steps :: "('x, 'l, 'w, 'a) system \<Rightarrow> ('x, 'l, 'w, 'a) system \<Rightarrow> bool" where
  steps_refl: "thread_steps s s"
| steps_step: "thread_steps s s1 \<Longrightarrow> thread_step i s1 s2 \<Longrightarrow> thread_steps s s2"

lemma thread_step_iff: "thread_step i s s' \<longleftrightarrow> step_thread i s = Some s'"
proof
  assume "thread_step i s s'"
  then show "step_thread i s = Some s'" by cases (simp_all add: step_thread_def)
next
  assume "step_thread i s = Some s'"
  then show "thread_step i s s'"
    by (auto simp: step_thread_def intro: thread_step.intros split: if_splits prod.splits thread.splits outcome.splits)
qed

lemma thread_steps_trans: "thread_steps s1 s2 \<Longrightarrow> thread_steps s s1 \<Longrightarrow> thread_steps s s2"
  by (induction rule: thread_steps.induct) (auto intro: steps_step)

lemma thread_steps_first: "thread_step i s s1 \<Longrightarrow> thread_steps s1 s2 \<Longrightarrow> thread_steps s s2"
  by (meson steps_refl steps_step thread_steps_trans)

lemma run_schedule_steps: "run_schedule is s = Some s' \<Longrightarrow> thread_steps s s'"
  by (induction "is" s rule: run_schedule.induct)
    (auto intro: steps_refl thread_steps_first simp: thread_step_iff split: option.splits)

text \<open>A state in which no thread can go on.\<close>

definition stuck :: "('x, 'l, 'w, 'a) system \<Rightarrow> bool" where
  "stuck s \<longleftrightarrow> (\<forall>i<length (sy_threads s). step_thread i s = None)"

definition finished :: "('x, 'l, 'w, 'a) thread \<Rightarrow> bool" where
  "finished t = (case t of Finished a \<Rightarrow> True | _ \<Rightarrow> False)"

text \<open>Thread \<open>i\<close> is at an action that does not return in the present world.\<close>

definition waits :: "('x, 'l, 'w, 'a) system \<Rightarrow> nat \<Rightarrow> bool" where
  "waits s i =
     (case sy_threads s ! i of
        (l, Atomic f) \<Rightarrow> (case f l (sy_world s) of Returns r \<Rightarrow> False | _ \<Rightarrow> True)
      | _ \<Rightarrow> False)"

definition start_threads :: "'w \<Rightarrow> ('l \<times> ('x, 'l, 'w, 'a) thread) list \<Rightarrow> ('x, 'l, 'w, 'a) system" where
  "start_threads w ts = \<lparr>sy_world = w, sy_owner = (\<lambda>m. None), sy_threads = ts\<rparr>"

section \<open>Every run ends\<close>

text \<open>\<open>t'\<close> is what one step of \<open>t\<close> can leave.\<close>

inductive part :: "('x, 'l, 'w, 'a) thread \<Rightarrow> ('x, 'l, 'w, 'a) thread \<Rightarrow> bool" where
  part_lock: "part t (Lock m t)"
| part_unlock: "part t (Unlock m t)"
| part_atomic: "f l w = Returns (l', w', t) \<Longrightarrow> part t (Atomic f)"

inductive_simps part_simps:
  "part t' (Finished a)" "part t' (Lock m t)" "part t' (Unlock m t)" "part t' (Atomic f)"

lemma wfp_part: "wfp (part :: ('x, 'l, 'w, 'a) thread \<Rightarrow> _)"
proof -
  have "Wellfounded.accp part t" for t :: "('x, 'l, 'w, 'a) thread"
  proof (induction t rule: thread_induct)
    case (Finished a)
    show ?case by (rule accp.accI) (simp add: part_simps)
  next
    case (Lock m t)
    then show ?case by (intro accp.accI [of _ "Lock m t"]) (simp add: part_simps)
  next
    case (Unlock m t)
    then show ?case by (intro accp.accI [of _ "Unlock m t"]) (simp add: part_simps)
  next
    case (Atomic f)
    show ?case by (rule accp.accI) (use Atomic in \<open>auto simp: part_simps\<close>)
  qed
  then show ?thesis unfolding wfp_iff_accp by blast
qed

lemma step_part:
  assumes "thread_step i s s'"
  shows "i < length (sy_threads s) \<and> (\<exists>p. sy_threads s' = (sy_threads s)[i := p] \<and> part (snd p) (snd (sy_threads s ! i)))"
  using assms by cases (auto intro: part.intros)

lemma step_decreases:
  assumes "thread_step i s s'"
  shows "(mset (map snd (sy_threads s')), mset (map snd (sy_threads s))) \<in> mult {(t', t). part t' t}"
proof -
  let ?ts = "map snd (sy_threads s)"
  from step_part [OF assms] obtain p where i: "i < length ?ts"
    and p: "map snd (sy_threads s') = ?ts[i := snd p]" "part (snd p) (?ts ! i)"
    by (auto simp: map_update)
  have "(mset ?ts - {#?ts ! i#} + {#snd p#}, mset ?ts - {#?ts ! i#} + {#?ts ! i#}) \<in> mult {(t', t). part t' t}"
    using p(2) by (intro one_step_implies_mult) auto
  then show ?thesis using i by (simp add: p(1) mset_update)
qed

lemma wfp_thread_step: "wfp (\<lambda>s' (s :: ('x, 'l, 'w, 'a) system). \<exists>i. thread_step i s s')"
proof -
  have "wf {(t', t). part t' (t :: ('x, 'l, 'w, 'a) thread)}" using wfp_part by (simp add: wfp_def)
  then have "wf (inv_image (mult {(t', t). part t' t}) (\<lambda>s :: ('x, 'l, 'w, 'a) system. mset (map snd (sy_threads s))))"
    by (intro wf_inv_image wf_mult)
  then show ?thesis
    unfolding wfp_def by (rule wf_subset) (auto dest: step_decreases)
qed

text \<open>So every state can be run to one in which no thread can go on.\<close>

lemma runs_to_stuck: "\<exists>s'. thread_steps s s' \<and> stuck s'"
proof (induction s rule: wfp_induct_rule [OF wfp_thread_step])
  case (1 s)
  show ?case
  proof (cases "stuck s")
    case False
    then obtain i s1 where "thread_step i s s1" by (auto simp: stuck_def thread_step_iff)
    with 1 show ?thesis by (meson thread_steps_first)
  qed (auto intro: steps_refl)
qed

section \<open>Lock order and protected parts\<close>

text \<open>
  \<open>follows rank keeps okl okw H t H' Q\<close>: the thread \<open>t\<close>, holding the mutexes \<open>H\<close>, asks only for mutexes
  above all those it holds, gives back only what it holds, changes what mutex \<open>m\<close> protects (\<open>keeps m\<close>) only
  while it holds \<open>m\<close>, keeps the conditions on its local state and on the world, and finishes, if it does,
  with a result in \<open>Q\<close> and the mutexes \<open>H'\<close>.
\<close>

inductive follows ::
  "('x \<Rightarrow> nat) \<Rightarrow> ('x \<Rightarrow> 'w \<Rightarrow> 'w \<Rightarrow> bool) \<Rightarrow> ('l \<Rightarrow> bool) \<Rightarrow> ('w \<Rightarrow> bool) \<Rightarrow>
     'x set \<Rightarrow> ('x, 'l, 'w, 'a) thread \<Rightarrow> 'x set \<Rightarrow> ('a \<Rightarrow> bool) \<Rightarrow> bool"
  for rank keeps okl okw where
  follows_finished: "Q a \<Longrightarrow> follows rank keeps okl okw H (Finished a) H Q"
| follows_lock: "\<forall>m'\<in>H. rank m' < rank m \<Longrightarrow> follows rank keeps okl okw (insert m H) t H' Q \<Longrightarrow>
    follows rank keeps okl okw H (Lock m t) H' Q"
| follows_unlock: "m \<in> H \<Longrightarrow> follows rank keeps okl okw (H - {m}) t H' Q \<Longrightarrow>
    follows rank keeps okl okw H (Unlock m t) H' Q"
| follows_atomic: "\<forall>l w l' w' t. okl l \<longrightarrow> okw w \<longrightarrow> f l w = Returns (l', w', t) \<longrightarrow>
      okl l' \<and> okw w' \<and> (\<forall>m. m \<notin> H \<longrightarrow> keeps m w w') \<and> follows rank keeps okl okw H t H' Q \<Longrightarrow>
    follows rank keeps okl okw H (Atomic f) H' Q"

inductive_simps follows_simps:
  "follows rank keeps okl okw H (Finished a) H' Q"
  "follows rank keeps okl okw H (Lock m t) H' Q"
  "follows rank keeps okl okw H (Unlock m t) H' Q"
  "follows rank keeps okl okw H (Atomic f) H' Q"

lemma follows_atomicD:
  assumes "follows rank keeps okl okw H (Atomic f) H' Q" "okl l" "okw w" "f l w = Returns (l', w', t)"
  shows "okl l' \<and> okw w' \<and> (\<forall>m. m \<notin> H \<longrightarrow> keeps m w w') \<and> follows rank keeps okl okw H t H' Q"
  using assms(1) unfolding follows_simps using assms(2-4) by blast

lemma follows_after:
  assumes "follows rank keeps okl okw H t H' Q" "\<And>a. Q a \<Longrightarrow> follows rank keeps okl okw H' (g a) H'' R"
  shows "follows rank keeps okl okw H (after t g) H'' R"
  using assms
proof (induction t arbitrary: H rule: thread_induct)
  case (Atomic f)
  have "okl l' \<and> okw w' \<and> (\<forall>m. m \<notin> H \<longrightarrow> keeps m w w') \<and> follows rank keeps okl okw H t' H'' R"
    if ok: "okl l" "okw w"
      and r: "map_outcome (map_prod id (map_prod id (\<lambda>t. after t g))) (f l w) = Returns (l', w', t')" for l w l' w' t'
  proof -
    from r obtain t where f: "f l w = Returns (l', w', t)" and t': "t' = after t g" by auto
    from follows_atomicD [OF Atomic.prems(1) ok f] Atomic.IH [OF f _ Atomic.prems(2)] show ?thesis
      unfolding t' by blast
  qed
  then show ?case unfolding after.simps by (intro follows.follows_atomic allI impI)
qed (simp_all add: follows_simps)

lemma follows_weaken:
  assumes "follows rank keeps okl okw H t H' Q" "\<And>a. Q a \<Longrightarrow> R a"
  shows "follows rank keeps okl okw H t H' R"
proof -
  have "after t Finished = t"
  proof (induction t rule: thread_induct)
    case (Atomic f)
    have "map_outcome (map_prod id (map_prod id (\<lambda>t. after t Finished))) (f l w) = f l w" for l w
      by (cases "f l w") (auto simp: Atomic)
    then show ?case by simp
  qed simp_all
  with follows_after [OF assms(1), of Finished H' R] assms(2) show ?thesis by (simp add: follows_simps)
qed

text \<open>The mutexes thread \<open>i\<close> holds.\<close>

definition held_by :: "('x, 'l, 'w, 'a) system \<Rightarrow> nat \<Rightarrow> 'x set" where
  "held_by s i = {m. sy_owner s m = Some i}"

definition disciplined ::
  "('x \<Rightarrow> nat) \<Rightarrow> ('x \<Rightarrow> 'w \<Rightarrow> 'w \<Rightarrow> bool) \<Rightarrow> ('l \<Rightarrow> bool) \<Rightarrow> ('w \<Rightarrow> bool) \<Rightarrow> ('x, 'l, 'w, 'a) system \<Rightarrow> bool" where
  "disciplined rank keeps okl okw s \<longleftrightarrow> okw (sy_world s) \<and>
     (\<forall>m i. sy_owner s m = Some i \<longrightarrow> i < length (sy_threads s)) \<and>
     (\<forall>i<length (sy_threads s). okl (fst (sy_threads s ! i)) \<and>
        follows rank keeps okl okw (held_by s i) (snd (sy_threads s ! i)) {} (\<lambda>a. True))"

text \<open>A run in which thread \<open>i\<close> takes no step.\<close>

inductive steps_of_others :: "nat \<Rightarrow> ('x, 'l, 'w, 'a) system \<Rightarrow> ('x, 'l, 'w, 'a) system \<Rightarrow> bool" for i where
  others_refl: "steps_of_others i s s"
| others_step: "steps_of_others i s s1 \<Longrightarrow> j \<noteq> i \<Longrightarrow> thread_step j s1 s2 \<Longrightarrow> steps_of_others i s s2"

lemma held_by_steps:
  "sy_owner s m = None \<Longrightarrow> held_by (s\<lparr>sy_owner := (sy_owner s)(m \<mapsto> i), sy_threads := ts\<rparr>) j =
     (if j = i then insert m (held_by s i) else held_by s j)"
  "sy_owner s m = Some i \<Longrightarrow> held_by (s\<lparr>sy_owner := (sy_owner s)(m := None), sy_threads := ts\<rparr>) j =
     (if j = i then held_by s i - {m} else held_by s j)"
  "held_by (s\<lparr>sy_world := w, sy_threads := ts\<rparr>) j = held_by s j"
  by (auto simp: held_by_def)

locale lock_discipline =
  fixes rank :: "'x \<Rightarrow> nat"
    and keeps :: "'x \<Rightarrow> 'w \<Rightarrow> 'w \<Rightarrow> bool"
    and okl :: "'l \<Rightarrow> bool"
    and okw :: "'w \<Rightarrow> bool"
  assumes keeps_refl: "keeps m w w"
    and keeps_trans: "keeps m w w1 \<Longrightarrow> keeps m w1 w2 \<Longrightarrow> keeps m w w2"
begin

lemma disciplined_start:
  assumes "okw w" "\<forall>(l, t)\<in>set ts. okl l \<and> follows rank keeps okl okw {} t {} (\<lambda>a. True)"
  shows "disciplined rank keeps okl okw (start_threads w ts)"
  using assms by (auto simp: disciplined_def start_threads_def held_by_def dest!: nth_mem)

lemma step_disciplined:
  assumes st: "thread_step i s s'" and ok: "disciplined rank keeps okl okw s"
  shows "disciplined rank keeps okl okw s' \<and> (\<forall>m. m \<notin> held_by s i \<longrightarrow> keeps m (sy_world s) (sy_world s'))"
proof -
  from st have i: "i < length (sy_threads s)" by (simp add: step_part)
  note rest = ok [unfolded disciplined_def]
  have foll: "follows rank keeps okl okw (held_by s i) (snd (sy_threads s ! i)) {} (\<lambda>a. True)"
    and okl: "okl (fst (sy_threads s ! i))"
    using rest i by auto
  have upd: "disciplined rank keeps okl okw s'"
    if "okw (sy_world s')" "\<And>m j. sy_owner s' m = Some j \<Longrightarrow> j < length (sy_threads s)"
      "sy_threads s' = (sy_threads s)[i := (l', t')]" "okl l'" "\<And>j. j \<noteq> i \<Longrightarrow> held_by s' j = held_by s j"
      "follows rank keeps okl okw (held_by s' i) t' {} (\<lambda>a. True)" for l' t'
    using that rest i by (auto simp: disciplined_def nth_list_update)
  from st show ?thesis
  proof cases
    case (step_lock l m t)
    with foll okl have "okl l" "follows rank keeps okl okw (insert m (held_by s i)) t {} (\<lambda>a. True)"
      by (simp_all add: follows_simps)
    with step_lock rest i show ?thesis
      by (intro conjI upd [of l t]) (auto simp: held_by_steps keeps_refl split: if_splits)
  next
    case (step_unlock l m t)
    with foll okl have "okl l" "follows rank keeps okl okw (held_by s i - {m}) t {} (\<lambda>a. True)"
      by (simp_all add: follows_simps)
    with step_unlock rest i show ?thesis
      by (intro conjI upd [of l t]) (auto simp: held_by_steps keeps_refl split: if_splits)
  next
    case (step_atomic l f l' w' t)
    with foll okl rest have "okl l' \<and> okw w' \<and> (\<forall>m. m \<notin> held_by s i \<longrightarrow> keeps m (sy_world s) w') \<and>
      follows rank keeps okl okw (held_by s i) t {} (\<lambda>a. True)"
      by (intro follows_atomicD [of _ _ _ _ _ f _ _ l]) simp_all
    with step_atomic rest i show ?thesis
      by (intro conjI upd [of l' t]) (auto simp: held_by_steps)
  qed
qed

lemma steps_disciplined: "thread_steps s s' \<Longrightarrow> disciplined rank keeps okl okw s \<Longrightarrow> disciplined rank keeps okl okw s'"
  by (induction rule: thread_steps.induct) (auto dest: step_disciplined)

text \<open>While a thread holds a mutex, the others leave what it protects alone.\<close>

lemma others_keep:
  assumes "steps_of_others i s s'" "disciplined rank keeps okl okw s" "sy_owner s m = Some i"
  shows "disciplined rank keeps okl okw s' \<and> sy_owner s' m = Some i \<and> keeps m (sy_world s) (sy_world s')"
  using assms
proof (induction rule: steps_of_others.induct)
  case (others_step s s1 j s2)
  then have ok: "disciplined rank keeps okl okw s1" and own: "sy_owner s1 m = Some i"
    and kept: "keeps m (sy_world s) (sy_world s1)" by simp_all
  from own others_step.hyps have "m \<notin> held_by s1 j" by (simp add: held_by_def)
  with step_disciplined [OF others_step.hyps(3) ok]
  have "disciplined rank keeps okl okw s2" "keeps m (sy_world s1) (sy_world s2)" by auto
  moreover have "sy_owner s2 m = Some i"
    using others_step.hyps(3,2) own by cases auto
  ultimately show ?case using kept keeps_trans by blast
qed (simp add: keeps_refl)

text \<open>Threads wait for each other only when one of them waits for something else.\<close>

lemma blocked_by_other:
  assumes ok: "disciplined rank keeps okl okw s" and st: "stuck s" and nw: "\<forall>i<length (sy_threads s). \<not> waits s i"
    and i: "i < length (sy_threads s)" "\<not> finished (snd (sy_threads s ! i))"
  obtains l m t j where "sy_threads s ! i = (l, Lock m t)" "sy_owner s m = Some j"
    "j < length (sy_threads s)" "\<not> finished (snd (sy_threads s ! j))"
proof -
  obtain l p where p: "sy_threads s ! i = (l, p)" by (cases "sy_threads s ! i")
  have foll: "follows rank keeps okl okw (held_by s j) (snd (sy_threads s ! j)) {} (\<lambda>a. True)"
    if "j < length (sy_threads s)" for j using ok that by (simp add: disciplined_def)
  have none: "step_thread i s = None" using st i(1) by (simp add: stuck_def)
  show thesis
  proof (cases p)
    case (Finished a)
    with i(2) p show ?thesis by (simp add: finished_def)
  next
    case (Unlock m t)
    with foll [OF i(1)] p have "sy_owner s m = Some i" by (simp add: follows_simps held_by_def)
    with none i(1) p Unlock show ?thesis by (simp add: step_thread_def)
  next
    case (Atomic f)
    with none i(1) p nw show ?thesis
      by (auto simp: step_thread_def waits_def split: outcome.splits)
  next
    case (Lock m t)
    with none i(1) p obtain j where j: "sy_owner s m = Some j" by (auto simp: step_thread_def split: if_splits)
    with ok have lt: "j < length (sy_threads s)" by (auto simp: disciplined_def)
    have "m \<in> held_by s j" using j by (simp add: held_by_def)
    with foll [OF lt] have "\<not> finished (snd (sy_threads s ! j))"
      by (cases "snd (sy_threads s ! j)") (auto simp: finished_def follows_simps)
    with that p Lock j lt show ?thesis by blast
  qed
qed

lemma no_deadlock:
  assumes ok: "disciplined rank keeps okl okw s" and st: "stuck s" and nw: "\<forall>i<length (sy_threads s). \<not> waits s i"
  shows "\<forall>i<length (sy_threads s). finished (snd (sy_threads s ! i))"
proof (rule ccontr)
  define B where "B = {i. i < length (sy_threads s) \<and> \<not> finished (snd (sy_threads s ! i))}"
  define want where "want i = (case snd (sy_threads s ! i) of Lock m t \<Rightarrow> rank m | _ \<Rightarrow> 0)" for i
  assume "\<not> ?thesis"
  then have "B \<noteq> {}" by (auto simp: B_def)
  have "finite B" by (simp add: B_def)
  have "\<exists>j\<in>B. want i < want j" if "i \<in> B" for i
  proof -
    from that have i: "i < length (sy_threads s)" "\<not> finished (snd (sy_threads s ! i))" by (simp_all add: B_def)
    from blocked_by_other [OF ok st nw i] obtain l m t j
      where m: "sy_threads s ! i = (l, Lock m t)" "sy_owner s m = Some j"
        and j: "j < length (sy_threads s)" "\<not> finished (snd (sy_threads s ! j))" by blast
    from blocked_by_other [OF ok st nw j] obtain l' m' t' j' where m': "sy_threads s ! j = (l', Lock m' t')" by blast
    have "follows rank keeps okl okw (held_by s j) (Lock m' t') {} (\<lambda>a. True)"
      using ok j(1) m' by (auto simp: disciplined_def)
    then have "rank m < rank m'" using m(2) by (auto simp: follows_simps held_by_def)
    with m m' j show ?thesis by (intro bexI [of _ j]) (simp_all add: want_def B_def)
  qed
  moreover have "Max (want ` B) \<in> want ` B" using \<open>finite B\<close> \<open>B \<noteq> {}\<close> by simp
  ultimately obtain j where "j \<in> B" "Max (want ` B) < want j" by (metis imageE)
  with \<open>finite B\<close> show False by (meson Max_ge finite_imageI imageI leD)
qed

text \<open>A thread that is alone does what \<open>alone\<close> says, and gives all mutexes back.\<close>

lemma alone_runs:
  assumes "follows rank keeps okl okw H t {} Q" "okl l" "okw w" "alone t l w = Returns (a, l', w')"
  shows "thread_steps \<lparr>sy_world = w, sy_owner = (\<lambda>m. if m \<in> H then Some 0 else None), sy_threads = [(l, t)]\<rparr>
    \<lparr>sy_world = w', sy_owner = (\<lambda>m. None), sy_threads = [(l', Finished a)]\<rparr>"
  using assms
proof (induction t arbitrary: H l w rule: thread_induct)
  case (Finished b)
  then show ?case by (auto simp: follows_simps intro: steps_refl)
next
  case (Lock m t)
  let ?s = "\<lparr>sy_world = w, sy_owner = (\<lambda>m. if m \<in> H then Some 0 else None), sy_threads = [(l, Lock m t)]\<rparr>"
  from Lock.prems have "m \<notin> H" and f: "follows rank keeps okl okw (insert m H) t {} Q"
    by (auto simp: follows_simps)
  then have "step_thread 0 ?s = Some \<lparr>sy_world = w, sy_owner = (\<lambda>m'. if m' \<in> insert m H then Some 0 else None), sy_threads = [(l, t)]\<rparr>"
    by (auto simp: step_thread_def fun_eq_iff)
  with Lock.IH [OF f Lock.prems(2,3)] Lock.prems(4) show ?case
    by (auto simp: thread_step_iff [symmetric] intro: thread_steps_first)
next
  case (Unlock m t)
  let ?s = "\<lparr>sy_world = w, sy_owner = (\<lambda>m. if m \<in> H then Some 0 else None), sy_threads = [(l, Unlock m t)]\<rparr>"
  from Unlock.prems have "m \<in> H" and f: "follows rank keeps okl okw (H - {m}) t {} Q"
    by (auto simp: follows_simps)
  then have "step_thread 0 ?s = Some \<lparr>sy_world = w, sy_owner = (\<lambda>m'. if m' \<in> H - {m} then Some 0 else None), sy_threads = [(l, t)]\<rparr>"
    by (auto simp: step_thread_def fun_eq_iff)
  with Unlock.IH [OF f Unlock.prems(2,3)] Unlock.prems(4) show ?case
    by (auto simp: thread_step_iff [symmetric] intro: thread_steps_first)
next
  case (Atomic f)
  let ?s = "\<lparr>sy_world = w, sy_owner = (\<lambda>m. if m \<in> H then Some 0 else None), sy_threads = [(l, Atomic f)]\<rparr>"
  from Atomic.prems(4) obtain l1 w1 t where r: "f l w = Returns (l1, w1, t)" and al: "alone t l1 w1 = Returns (a, l', w')"
    by (auto simp: alone_Atomic)
  from follows_atomicD [OF Atomic.prems(1-3) r] have *: "okl l1" "okw w1" "follows rank keeps okl okw H t {} Q" by simp_all
  from r have "thread_step 0 ?s \<lparr>sy_world = w1, sy_owner = (\<lambda>m. if m \<in> H then Some 0 else None), sy_threads = [(l1, t)]\<rparr>"
    by (simp add: thread_step_iff step_thread_def)
  then show ?case using Atomic.IH [OF r *(3,1,2) al] by (rule thread_steps_first)
qed

end

end
