(* ===== verification/BoxThreads.thy ===== *)
theory BoxThreads
  imports Threads ProcessBox
begin

text \<open>
  Several host threads on one box (\<open>src/pbox/pbox.c\<close>, and \<open>lookup\<close> of \<open>include/sbox/process.hh\<close>). The
  operations are those of \<open>Host\<close> and \<open>ProcessBox\<close>, cut at the points where another thread can come in
  between: every lock and unlock of a mutex, every message on the socket, every request and every turn
  of a wait. A thread alone does what the sequential definition says. For all interleavings: no deadlock among the mutexes, what they protect
  is protected, and where a mutex is missing (the socket that carries the descriptors) two threads
  get each other's files.
\<close>

section \<open>Mutexes and actions\<close>

text \<open>\<open>cache_mutex_\<close> of \<open>Sandbox<Process>\<close> and the three mutexes of \<open>struct PBox\<close>.\<close>

datatype box_mutex = CacheMutex | CallbackMutex | FdMutex | ChannelMutex

type_synonym ('m, 'h, 'a) box_thread = "(box_mutex, nat option, ('m, 'h) world, 'a) thread"

text \<open>
  An action of one thread: \<open>h_tls\<close> is what \<open>pthread_getspecific\<close> and \<open>pthread_setspecific\<close> see, so it
  is the running thread's while the action lasts.
\<close>

definition act :: "(('m, 'h) world \<Rightarrow> ('a \<times> ('m, 'h) world) outcome) \<Rightarrow> ('m, 'h, 'a) box_thread" where
  "act f = Atomic (\<lambda>l w. and_then (f (w\<lparr>h_tls := l\<rparr>)) (\<lambda>(a, w'). Returns (h_tls w', w', Finished a)))"

definition ask :: "(('m, 'h) world \<Rightarrow> 'a) \<Rightarrow> ('m, 'h, 'a) box_thread" where
  "ask f = act (\<lambda>w. Returns (f w, w))"

section \<open>Passing a descriptor\<close>

definition sendmsg_fd :: "kernel \<Rightarrow> nat \<Rightarrow> ('m, 'h) world \<Rightarrow> (bool \<times> ('m, 'h) world) outcome" where
  "sendmsg_fd k fd w =
     (case h_fds w fd of
        None \<Rightarrow> Returns (False, w)
      | Some f \<Rightarrow>
          if \<not> k_ok k At_sendmsg then Returns (False, w)
          else if \<not> sb_alive w then (if k_sigpipe_ignored k then Returns (False, w) else Aborts)
          else Returns (True, w\<lparr>sb_sock := sb_sock w @ [f]\<rparr>))"

definition request_recv_fd :: "'m sandbox_env \<Rightarrow> nat \<Rightarrow> ('m, 'h) world \<Rightarrow> (int \<times> ('m, 'h) world) outcome" where
  "request_recv_fd e i w =
     and_then (exchange e i (put_chan i ((sb_chan w i)\<lparr>request_type := PBOX_REQ_RECV_FD\<rparr>) w))
       (\<lambda>w'. Returns (received_fd (sb_chan w' i), w'))"

definition send_fd_on_thread :: "'m sandbox_env \<Rightarrow> kernel \<Rightarrow> nat \<Rightarrow> nat \<Rightarrow> ('m, 'h, int) box_thread" where
  "send_fd_on_thread e k i fd =
     after (act (sendmsg_fd k fd)) (\<lambda>sent. if sent then act (request_recv_fd e i) else Finished (- 1))"

section \<open>Channels\<close>

text \<open>\<open>create_channel_locked\<close>: the shared memory, its descriptor to the sandbox, the worker, the list.\<close>

definition channel_memory :: "kernel \<Rightarrow> ('m, 'h) world \<Rightarrow> ((nat \<times> nat) option \<times> ('m, 'h) world) outcome" where
  "channel_memory k w =
     (if \<not> k_ok k At_memfd_create then Returns (None, w)
      else
        let j = h_next w; fd = k_fd k (h_fds w);
            w1 = w\<lparr>h_next := j + 1, h_fds := (h_fds w)(fd \<mapsto> ChanShm j)\<rparr>
        in if \<not> k_ok k At_ftruncate then Returns (None, close_fd fd w1)
           else if \<not> k_ok k At_mmap then Returns (None, close_fd fd w1)
           else Returns (Some (j, fd), acquire (ChanMap j) (put_chan j zero_channel w1)))"

definition channel_not_sent :: "nat \<Rightarrow> nat \<Rightarrow> ('m, 'h) world \<Rightarrow> (nat option \<times> ('m, 'h) world) outcome" where
  "channel_not_sent j fd w = and_then (release (ChanMap j) w) (\<lambda>w'. Returns (None, close_fd fd w'))"

definition request_worker :: "'m sandbox_env \<Rightarrow> int \<Rightarrow> ('m, 'h) world \<Rightarrow> (unit \<times> ('m, 'h) world) outcome" where
  "request_worker e s w =
     and_then (exchange e 0 (put_chan 0 ((sb_chan w 0)\<lparr>request_type := PBOX_REQ_SPAWN_WORKER, worker_shm_fd := s\<rparr>) w))
       (\<lambda>w'. Returns ((), w'))"

definition channel_ready :: "'m sandbox_env \<Rightarrow> kernel \<Rightarrow> nat \<Rightarrow> nat \<Rightarrow> ('m, 'h) world \<Rightarrow> (nat option \<times> ('m, 'h) world) outcome" where
  "channel_ready e k j fd w =
     (if sandbox_channel_addr (sb_chan w j) = 0 then Blocks
      else if \<not> k_ok k At_malloc_tch then and_then (abandon_channel e j fd w) (\<lambda>w'. Returns (None, w'))
      else
        let tch = \<lparr>tc_channel = j, tc_shm_fd = int fd, idmem_base = 0, idmem_size = 0, idmem_offset = 0\<rparr>;
            w1 = acquire (TchMem j) (w\<lparr>b_tch := (b_tch w)(j := tch)\<rparr>)
        in if length (b_channels w1) \<ge> b_channel_cap w1 then
             (if \<not> k_ok k At_realloc_channels then
                and_then (abandon_channel e j fd w1)
                  (\<lambda>w2. and_then (release (TchMem j) w2) (\<lambda>w3. Returns (None, w3)))
              else
                let w2 = (if b_channel_cap w1 = 0 then acquire ChanVec w1 else w1)
                in Returns (Some j,
                     w2\<lparr>b_channel_cap := (if b_channel_cap w1 \<noteq> 0 then b_channel_cap w1 * 2 else 4),
                        b_channels := b_channels w2 @ [j]\<rparr>))
           else Returns (Some j, w1\<lparr>b_channels := b_channels w1 @ [j]\<rparr>))"

definition create_channel_thread :: "'m sandbox_env \<Rightarrow> kernel \<Rightarrow> ('m, 'h, nat option) box_thread" where
  "create_channel_thread e k =
     after (act (channel_memory k)) (\<lambda>r. case r of
       None \<Rightarrow> Finished None
     | Some (j, fd) \<Rightarrow>
         after (send_fd_on_thread e k 0 fd) (\<lambda>s.
           if s < 0 then act (channel_not_sent j fd)
           else after (act (request_worker e s)) (\<lambda>_. act (channel_ready e k j fd))))"

definition get_or_create_thread :: "'m sandbox_env \<Rightarrow> kernel \<Rightarrow> ('m, 'h, nat option) box_thread" where
  "get_or_create_thread e k =
     after (ask h_tls) (\<lambda>tls. case tls of
       Some i \<Rightarrow> Finished (Some i)
     | None \<Rightarrow>
         Lock ChannelMutex (after (create_channel_thread e k) (\<lambda>c. Unlock ChannelMutex (case c of
           None \<Rightarrow> Finished None
         | Some j \<Rightarrow> act (\<lambda>w. Returns (Some j, w\<lparr>h_tls := Some j\<rparr>))))))"

section \<open>Operations\<close>

definition dlsym_thread :: "'m sandbox_env \<Rightarrow> kernel \<Rightarrow> byte list \<Rightarrow> ('m, 'h, u64) box_thread" where
  "dlsym_thread e k symbol =
     after (get_or_create_thread e k) (\<lambda>c. case c of None \<Rightarrow> Finished 0 | Some i \<Rightarrow> act (dlsym_on e i symbol))"

text \<open>One turn of the loop of \<open>pbox_wait_for_response\<close>, and the loop.\<close>

definition response_turn :: "'m sandbox_env \<Rightarrow> nat \<Rightarrow> ('m, 'h) world \<Rightarrow> (bool \<times> ('m, 'h) world) outcome" where
  "response_turn e i w =
     (let s = ch_state (sb_chan w i) in
      if s = PBOX_STATE_RESPONSE then Returns (True, w)
      else if s = PBOX_STATE_CALLBACK then
        and_then (host_callback i w) (\<lambda>w'. Returns (False, pbox_set_state i PBOX_STATE_REQUEST w'))
      else if s = PBOX_STATE_DEAD then Returns (True, w)
      else let w' = sandbox_run e i w in
           if ch_state (sb_chan w' i) = s then Blocks else Returns (False, w'))"

primrec response_thread :: "nat \<Rightarrow> 'm sandbox_env \<Rightarrow> nat \<Rightarrow> ('m, 'h, unit) box_thread" where
  "response_thread 0 e i = act (\<lambda>w. Blocks)"
| "response_thread (Suc n) e i =
     after (act (response_turn e i)) (\<lambda>ready. if ready then Finished () else response_thread n e i)"

definition post_call ::
  "u64 \<Rightarrow> PBoxType \<Rightarrow> nat \<Rightarrow> PBoxType list \<Rightarrow> byte list list \<Rightarrow> nat \<Rightarrow> ('m, 'h) world \<Rightarrow> (unit \<times> ('m, 'h) world) outcome" where
  "post_call fn rt n ts vs i w =
     and_then (checked (pbox_pack_call fn rt n ts vs (sb_chan w i)))
       (\<lambda>ch. Returns ((), pbox_set_state i PBOX_STATE_REQUEST (put_chan i ch w)))"

definition fetch_result ::
  "PBoxType \<Rightarrow> byte list option \<Rightarrow> nat \<Rightarrow> ('m, 'h) world \<Rightarrow> (byte list option \<times> ('m, 'h) world) outcome" where
  "fetch_result rt ret i w =
     (let w' = pbox_set_state i PBOX_STATE_IDLE w in
      case ret of
        None \<Rightarrow> Returns (None, w')
      | Some r \<Rightarrow>
          and_then (checked (memcpy_to r 0 (result_storage (sb_chan w' i)) (pbox_type_size rt)))
            (\<lambda>r'. Returns (Some r', w')))"

definition call_thread ::
  "'m sandbox_env \<Rightarrow> kernel \<Rightarrow> u64 \<Rightarrow> PBoxType \<Rightarrow> nat \<Rightarrow> PBoxType list \<Rightarrow> byte list list \<Rightarrow> byte list option \<Rightarrow>
     ('m, 'h, byte list option) box_thread" where
  "call_thread e k fn rt n ts vs ret =
     after (get_or_create_thread e k) (\<lambda>c. case c of
       None \<Rightarrow> Finished ret
     | Some i \<Rightarrow>
         after (act (post_call fn rt n ts vs i)) (\<lambda>_.
           after (response_thread (k_turns k) e i) (\<lambda>_. act (fetch_result rt ret i))))"

definition send_fd_thread :: "'m sandbox_env \<Rightarrow> kernel \<Rightarrow> int \<Rightarrow> ('m, 'h, int) box_thread" where
  "send_fd_thread e k fd =
     (if fd < 0 then Finished fd
      else Lock FdMutex (after (ask (\<lambda>w. pbox_lookup_fd (b_fds w) (nat fd))) (\<lambda>cached.
        if cached \<ge> 0 then Unlock FdMutex (Finished cached)
        else after (get_or_create_thread e k) (\<lambda>c. case c of
          None \<Rightarrow> Unlock FdMutex (Finished (- 1))
        | Some i \<Rightarrow>
            after (send_fd_on_thread e k i (nat fd)) (\<lambda>s.
              after (act (\<lambda>w. Returns ((), if s \<ge> 0 then remember_fd k (nat fd) s w else w)))
                (\<lambda>_. Unlock FdMutex (Finished s)))))))"

definition close_thread :: "'m sandbox_env \<Rightarrow> kernel \<Rightarrow> byte list \<Rightarrow> int \<Rightarrow> ('m, 'h, int) box_thread" where
  "close_thread e k result0 s =
     after (ask b_sym_close) (\<lambda>fn.
       if fn = 0 \<or> s < 0 then Finished (- 1)
       else after (call_thread e k fn PBOX_TYPE_SINT32 1 [PBOX_TYPE_SINT32] [int_object s] (Some result0)) (\<lambda>r.
         if c_int (the r) = 0
         then Lock FdMutex (after (act (\<lambda>w. Returns ((), w\<lparr>b_fds := pbox_uncache_fd (b_fds w) s\<rparr>)))
                (\<lambda>_. Unlock FdMutex (Finished (c_int (the r)))))
         else Finished (c_int (the r))))"

definition publish_callback ::
  "u64 \<Rightarrow> 'h dispatch_fn \<Rightarrow> PBoxType \<Rightarrow> int \<Rightarrow> PBoxType list \<Rightarrow> ('m, 'h) world \<Rightarrow> (nat option \<times> ('m, 'h) world) outcome" where
  "publish_callback host_func dispatch rt n ts w =
     and_then (callback_publish host_func dispatch rt n ts (b_reg w)) (\<lambda>p. case p of
       None \<Rightarrow> Returns (None, w) | Some (cid, reg) \<Rightarrow> Returns (Some cid, w\<lparr>b_reg := reg\<rparr>))"

definition request_closure ::
  "'m sandbox_env \<Rightarrow> nat \<Rightarrow> PBoxType \<Rightarrow> int \<Rightarrow> PBoxType list \<Rightarrow> nat \<Rightarrow> ('m, 'h) world \<Rightarrow> (u64 \<times> ('m, 'h) world) outcome" where
  "request_closure e cid rt n ts i w =
     and_then (exchange e i (put_chan i (closure_request cid rt n ts (sb_chan w i)) w))
       (\<lambda>w2. let addr = closure_addr (sb_chan w2 i); r = b_reg w2 in
          Returns (addr, w2\<lparr>b_reg := r\<lparr>callbacks := (callbacks r)[cid :=
            (callbacks r ! cid)\<lparr>cb_sandbox_closure := addr\<rparr>]\<rparr>\<rparr>))"

definition register_callback_thread ::
  "'m sandbox_env \<Rightarrow> kernel \<Rightarrow> u64 \<Rightarrow> 'h dispatch_fn \<Rightarrow> PBoxType \<Rightarrow> int \<Rightarrow> PBoxType list \<Rightarrow> ('m, 'h, u64) box_thread" where
  "register_callback_thread e k host_func dispatch rt n ts =
     Lock CallbackMutex (after (act (publish_callback host_func dispatch rt n ts)) (\<lambda>p. case p of
       None \<Rightarrow> Unlock CallbackMutex (Finished 0)
     | Some cid \<Rightarrow>
         after (get_or_create_thread e k) (\<lambda>c. case c of
           None \<Rightarrow> after (act (\<lambda>w. Returns ((), w\<lparr>b_reg := (b_reg w)\<lparr>callback_count := cid\<rparr>\<rparr>)))
                     (\<lambda>_. Unlock CallbackMutex (Finished 0))
         | Some i \<Rightarrow> after (act (request_closure e cid rt n ts i)) (\<lambda>addr. Unlock CallbackMutex (Finished addr)))))"

definition in_idmem_thread :: "u64 \<Rightarrow> u64 \<Rightarrow> ('m, 'h, bool) box_thread" where
  "in_idmem_thread p n =
     Lock ChannelMutex (after (ask (\<lambda>w. pbox_in_idmem (map (b_tch w) (b_channels w)) p n))
       (\<lambda>b. Unlock ChannelMutex (Finished b)))"

text \<open>\<open>channel_destructor\<close>: the mutex is taken only to remove the channel from the list.\<close>

definition leave_channel :: "'m sandbox_env \<Rightarrow> nat \<Rightarrow> ('m, 'h) world \<Rightarrow> (unit \<times> ('m, 'h) world) outcome" where
  "leave_channel e i w =
     and_then (release_region i (sandbox_run e i (pbox_set_state i PBOX_STATE_EXIT w)))
       (\<lambda>w. and_then (release (ChanMap i) w) (\<lambda>w. Returns ((), close_fd (nat (tc_shm_fd (b_tch w i))) w)))"

definition exit_thread :: "'m sandbox_env \<Rightarrow> ('m, 'h, unit) box_thread" where
  "exit_thread e =
     after (ask h_tls) (\<lambda>tls. case tls of
       None \<Rightarrow> Finished ()
     | Some i \<Rightarrow>
         after (act (leave_channel e i)) (\<lambda>_.
           Lock ChannelMutex (after (act (\<lambda>w. Returns ((), w\<lparr>b_channels := remove_channel i (b_channels w)\<rparr>))) (\<lambda>_.
             Unlock ChannelMutex
               (act (\<lambda>w. and_then (release (TchMem i) w) (\<lambda>w. Returns ((), w\<lparr>h_tls := None\<rparr>))))))))"

text \<open>\<open>lookup\<close> of \<open>Sandbox<Process>\<close> holds its mutex during the whole search.\<close>

definition lookup_thread ::
  "'m sandbox_env \<Rightarrow> kernel \<Rightarrow> (u64 \<Rightarrow> byte list) \<Rightarrow> u64 \<Rightarrow> ('m, 'g app, u64) box_thread" where
  "lookup_thread e k lits name =
     Lock CacheMutex (after (ask (\<lambda>w. symbol_cache (h_app w) name)) (\<lambda>hit. case hit of
       Some s \<Rightarrow> Unlock CacheMutex (Finished s)
     | None \<Rightarrow>
         after (dlsym_thread e k (lits name)) (\<lambda>sym.
           after (act (\<lambda>w. Returns ((), if sym \<noteq> 0 then store_symbol name sym w else w)))
             (\<lambda>_. Unlock CacheMutex (Finished sym)))))"

lemma after_act:
  fixes g :: "'a \<Rightarrow> ('m, 'h, 'b) box_thread"
  shows "after (act f) g = Atomic (\<lambda>l w. and_then (f (w\<lparr>h_tls := l\<rparr>)) (\<lambda>(a, w'). Returns (h_tls w', w', g a)))"
proof -
  have "map_outcome (map_prod id (map_prod id (\<lambda>t. after t g))) (and_then m (\<lambda>(a, w'). Returns (h_tls w', w', Finished a))) =
      and_then m (\<lambda>(a, w'). Returns (h_tls w', w', g a))" for m :: "('a \<times> ('m, 'h) world) outcome"
    by (cases m) auto
  then show ?thesis by (simp add: act_def)
qed

lemma after_ask: "after (ask f) g = Atomic (\<lambda>l w. Returns (l, w\<lparr>h_tls := l\<rparr>, g (f (w\<lparr>h_tls := l\<rparr>))))"
  by (simp add: ask_def after_act)

section \<open>A thread alone\<close>

text \<open>Without other threads, the pieces are the sequential operation.\<close>

definition runs_as :: "('m, 'h, 'a) box_thread \<Rightarrow> (('m, 'h) world \<Rightarrow> ('a \<times> ('m, 'h) world) outcome) \<Rightarrow> bool" where
  "runs_as t f \<longleftrightarrow> (\<forall>w. alone t (h_tls w) w = and_then (f w) (\<lambda>(a, w'). Returns (a, h_tls w', w')))"

named_theorems alone_rules \<open>how the pieces of a thread run alone\<close>

lemma runs_act [alone_rules]: "runs_as (act f) f"
proof -
  have "alone (act f) (h_tls w) w = and_then (f w) (\<lambda>(a, w'). Returns (a, h_tls w', w'))" for w
    by (cases "f w") (auto simp: act_def)
  then show ?thesis by (simp add: runs_as_def)
qed

lemma runs_ask [alone_rules]: "runs_as (ask f) (\<lambda>w. Returns (f w, w))"
  unfolding ask_def by (rule runs_act)

lemma runs_finished [alone_rules]: "runs_as (Finished a) (\<lambda>w. Returns (a, w))"
  by (simp add: runs_as_def)

lemma runs_lock [alone_rules]: "runs_as t f \<Longrightarrow> runs_as (Lock m t) f" "runs_as t f \<Longrightarrow> runs_as (Unlock m t) f"
  by (simp_all add: runs_as_def)

lemma runs_after [alone_rules]:
  assumes "runs_as t f" "\<And>a. runs_as (g a) (h a)"
  shows "runs_as (after t g) (\<lambda>w. and_then (f w) (\<lambda>(a, w'). h a w'))"
proof -
  have "alone (after t g) (h_tls w) w =
      and_then (and_then (f w) (\<lambda>(a, w'). h a w')) (\<lambda>(a, w'). Returns (a, h_tls w', w'))" for w
    using assms by (cases "f w") (auto simp: runs_as_def alone_after)
  then show ?thesis by (simp add: runs_as_def)
qed

lemma runs_if [alone_rules]:
  "runs_as t f \<Longrightarrow> runs_as u g \<Longrightarrow> runs_as (if b then t else u) (\<lambda>w. if b then f w else g w)"
  by simp

lemma runs_option [alone_rules]:
  "runs_as t f \<Longrightarrow> (\<And>x. runs_as (u x) (g x)) \<Longrightarrow>
     runs_as (case c of None \<Rightarrow> t | Some x \<Rightarrow> u x) (\<lambda>w. case c of None \<Rightarrow> f w | Some x \<Rightarrow> g x w)"
  by (cases c) simp_all

lemma runs_pair [alone_rules]:
  "(\<And>x y. runs_as (u x y) (g x y)) \<Longrightarrow> runs_as (case c of (x, y) \<Rightarrow> u x y) (\<lambda>w. case c of (x, y) \<Rightarrow> g x y w)"
  by (cases c) simp

lemma runs_cong: "runs_as t f \<Longrightarrow> (\<And>w. f w = g w) \<Longrightarrow> runs_as t g"
  by (simp add: runs_as_def)

lemma send_fd_on_alone [alone_rules]: "runs_as (send_fd_on_thread e k i fd) (pbox_send_fd_on_channel e k i fd)"
  unfolding send_fd_on_thread_def
  by (rule runs_cong, (rule alone_rules)+)
    (auto simp: sendmsg_fd_def request_recv_fd_def pbox_send_fd_on_channel_def Let_def split: option.splits)

lemma create_alone [alone_rules]: "runs_as (create_channel_thread e k) (create_channel_locked e k)"
  unfolding create_channel_thread_def
  by (rule runs_cong, (rule alone_rules)+)
    (auto simp: create_channel_locked_def channel_memory_def channel_not_sent_def request_worker_def channel_ready_def Let_def
      and_then_assoc split_def intro!: and_then_cong)

lemma get_or_create_alone [alone_rules]: "runs_as (get_or_create_thread e k) (get_or_create_channel e k)"
  unfolding get_or_create_thread_def
  by (rule runs_cong, (rule alone_rules)+) (auto simp: get_or_create_channel_def split_def split: option.splits intro!: and_then_cong)

lemma dlsym_alone [alone_rules]: "runs_as (dlsym_thread e k symbol) (pbox_dlsym e k symbol)"
  unfolding dlsym_thread_def
  by (rule runs_cong, (rule alone_rules)+) (auto simp: pbox_dlsym_def split_def intro!: and_then_cong split: option.splits)

lemma response_alone: "runs_as (response_thread n e i) (\<lambda>w. and_then (pbox_wait_for_response n e i w) (\<lambda>w'. Returns ((), w')))"
proof (induction n)
  case 0
  show ?case unfolding response_thread.simps by (rule runs_cong, rule alone_rules) simp
next
  case (Suc n)
  show ?case unfolding response_thread.simps
    by (rule runs_cong, (rule alone_rules Suc)+)
      (simp add: response_turn_def Let_def and_then_assoc split_def)
qed

lemma call_alone [alone_rules]: "runs_as (call_thread e k fn rt n ts vs ret) (pbox_call e k fn rt n ts vs ret)"
  unfolding call_thread_def
  by (rule runs_cong, (rule alone_rules response_alone)+)
    (auto simp: pbox_call_def post_call_def fetch_result_def and_then_assoc split_def Let_def intro!: and_then_cong split: option.splits)

lemma send_fd_alone [alone_rules]: "runs_as (send_fd_thread e k fd) (pbox_send_fd e k fd)"
  unfolding send_fd_thread_def
  by (rule runs_cong, (rule alone_rules)+)
    (auto simp: pbox_send_fd_def Let_def split_def intro!: and_then_cong split: option.splits)

lemma close_alone [alone_rules]: "runs_as (close_thread e k result0 s) (pbox_close e k result0 s)"
  unfolding close_thread_def
  by (rule runs_cong, (rule alone_rules)+) (auto simp: pbox_close_def Let_def split_def intro!: and_then_cong)

lemma register_callback_alone [alone_rules]:
  "runs_as (register_callback_thread e k host_func dispatch rt n ts) (pbox_register_callback e k host_func dispatch rt n ts)"
  unfolding register_callback_thread_def
  by (rule runs_cong, (rule alone_rules)+)
    (auto simp: pbox_register_callback_def publish_callback_def request_closure_def Let_def split_def and_then_assoc
      intro!: and_then_cong split: option.splits)

lemma exit_alone:
  "runs_as (exit_thread e) (\<lambda>w. case h_tls w of None \<Rightarrow> Returns ((), w)
     | Some i \<Rightarrow> and_then (channel_destructor e i w) (\<lambda>w'. Returns ((), w')))"
  unfolding exit_thread_def
  by (rule runs_cong, (rule alone_rules)+)
    (auto simp: channel_destructor_def leave_channel_def Let_def split_def and_then_assoc intro!: and_then_cong split: option.splits)

lemma lookup_alone: "runs_as (lookup_thread e k lits name) (lookup e k lits name)"
  unfolding lookup_thread_def
  by (rule runs_cong, (rule alone_rules)+)
    (auto simp: lookup_def cached_lookup_def split_def intro!: and_then_cong split: option.splits)

section \<open>What each mutex protects\<close>

text \<open>
  \<open>channel_lock\<close> is the last mutex a thread takes. It protects the list of channels and, as long as
  the sandbox lives, the control channel (when it dies the watcher marks that channel); \<open>fd_lock\<close> the
  descriptor cache, \<open>callback_lock\<close> the registry. For \<open>cache_mutex_\<close> only the order is stated: the
  symbol cache belongs to the application, which the host's callbacks may change.
\<close>

definition box_rank :: "box_mutex \<Rightarrow> nat" where
  "box_rank m = (if m = ChannelMutex then 1 else 0)"

fun box_keeps :: "box_mutex \<Rightarrow> ('m, 'h) world \<Rightarrow> ('m, 'h) world \<Rightarrow> bool" where
  "box_keeps CacheMutex w w' = True"
| "box_keeps CallbackMutex w w' = (b_reg w' = b_reg w)"
| "box_keeps FdMutex w w' = (b_fds w' = b_fds w)"
| "box_keeps ChannelMutex w w' \<longleftrightarrow> b_channels w' = b_channels w \<and> b_channel_cap w' = b_channel_cap w \<and>
     (sb_alive w' \<longrightarrow> sb_alive w \<and> sb_chan w' 0 = sb_chan w 0)"

text \<open>Channel 0 is the control channel; every other channel has a number of its own.\<close>

definition own_channel :: "nat option \<Rightarrow> bool" where
  "own_channel l \<longleftrightarrow> l \<noteq> Some 0"

definition numbered :: "('m, 'h) world \<Rightarrow> bool" where
  "numbered w \<longleftrightarrow> 0 < h_next w"

abbreviation box_follows :: "box_mutex set \<Rightarrow> ('m, 'h, 'a) box_thread \<Rightarrow> box_mutex set \<Rightarrow> ('a \<Rightarrow> bool) \<Rightarrow> bool" where
  "box_follows \<equiv> follows box_rank box_keeps own_channel numbered"

interpretation box_locks: lock_discipline box_rank box_keeps own_channel numbered
proof
  show "box_keeps m w w" for m and w :: "('m, 'h) world" by (cases m) simp_all
  show "box_keeps m w w2" if "box_keeps m w w1" "box_keeps m w1 w2" for m and w w1 w2 :: "('m, 'h) world"
    using that by (cases m) auto
qed

text \<open>What an action that holds the mutexes \<open>H\<close> may do.\<close>

definition allowed :: "box_mutex set \<Rightarrow> ('m, 'h) world \<Rightarrow> ('m, 'h) world \<Rightarrow> bool" where
  "allowed H w w' \<longleftrightarrow> own_channel (h_tls w') \<and> numbered w' \<and> (\<forall>m. m \<notin> H \<longrightarrow> box_keeps m w w')"

text \<open>The conditions on the state in which an action starts.\<close>

definition good :: "('m, 'h) world \<Rightarrow> bool" where
  "good w \<longleftrightarrow> own_channel (h_tls w) \<and> numbered w"

lemma follows_act:
  assumes "\<And>w a w'. good w \<Longrightarrow> f w = Returns (a, w') \<Longrightarrow> allowed H w w' \<and> Q a"
  shows "box_follows H (act f) H Q"
proof -
  have keeps: "box_keeps m (w\<lparr>h_tls := l\<rparr>) w' = box_keeps m w w'" for m l and w w' :: "('m, 'h) world"
    by (cases m) simp_all
  have "own_channel l' \<and> numbered w' \<and> (\<forall>m. m \<notin> H \<longrightarrow> box_keeps m w w') \<and> box_follows H t H Q"
    if "own_channel l" "numbered w"
      "and_then (f (w\<lparr>h_tls := l\<rparr>)) (\<lambda>(a, w'). Returns (h_tls w', w', Finished a)) = Returns (l', w', t)" for l w l' w' t
    using that assms [of "w\<lparr>h_tls := l\<rparr>"]
    by (auto simp: good_def numbered_def allowed_def keeps follows_simps)
  then show ?thesis unfolding act_def by (intro follows.follows_atomic allI impI)
qed

text \<open>A turn of a worker leaves the control channel alone, unless the sandbox dies.\<close>

lemma run_lib_control: "i \<noteq> 0 \<Longrightarrow> sb_alive (run_lib e i r w) \<Longrightarrow> sb_chan (run_lib e i r w) 0 = sb_chan w 0 \<and> sb_alive w"
  by (cases r) (auto simp: run_lib_def or_dies_def sandbox_dies_def respond_def split: option.splits)

lemma sandbox_run_control:
  assumes i: "i \<noteq> 0" and alive: "sb_alive (sandbox_run e i w)"
  shows "sb_chan (sandbox_run e i w) 0 = sb_chan w 0 \<and> sb_alive w"
proof -
  have "sb_chan (dispatch_request e i w) 0 = sb_chan w 0 \<and> sb_alive w" if "sb_alive (dispatch_request e i w)"
    using that i
    by (auto simp: dispatch_request_def Let_def serve_dlsym_def serve_call_def serve_recv_fd_def recv_fd_def respond_def
        serve_spawn_worker_def serve_create_closure_def sandbox_dies_def
        dest!: run_lib_control [OF i] split: if_splits option.splits list.splits)
  then show ?thesis using alive i
    by (auto simp: sandbox_run_def sandbox_dies_def dest!: run_lib_control [OF i] split: if_splits worker.splits option.splits)
qed

lemma allowed_iff:
  "allowed H w w' \<longleftrightarrow> own_channel (h_tls w') \<and> numbered w' \<and> (CallbackMutex \<in> H \<or> b_reg w' = b_reg w) \<and>
     (FdMutex \<in> H \<or> b_fds w' = b_fds w) \<and>
     (ChannelMutex \<in> H \<or> b_channels w' = b_channels w \<and> b_channel_cap w' = b_channel_cap w \<and>
       (sb_alive w' \<longrightarrow> sb_alive w \<and> sb_chan w' 0 = sb_chan w 0))"
proof -
  have all: "(\<forall>m. P m) \<longleftrightarrow> P CacheMutex \<and> P CallbackMutex \<and> P FdMutex \<and> P ChannelMutex" for P
    by (metis box_mutex.exhaust)
  show ?thesis unfolding allowed_def all by auto
qed

text \<open>An action that changes only what the sandbox sees of a channel that is not the control channel.\<close>

lemma keeps_more:
  assumes more: "sandbox.more w' = sandbox.more w"
    and control: "ChannelMutex \<in> H \<or> (sb_alive w' \<longrightarrow> sb_alive w \<and> sb_chan w' 0 = sb_chan w 0)" and w: "good w"
  shows "allowed H w w' \<and> good w'"
proof -
  note f = host_fields [OF more]
  have "box_keeps m w w'" if "m \<notin> H" for m using that control by (cases m) (auto simp: f)
  then show ?thesis using w by (auto simp: allowed_def good_def numbered_def f)
qed

lemma exchange_control:
  assumes "exchange e i w = Returns w'" "i \<noteq> 0" "sb_alive w'"
  shows "sb_alive w \<and> sb_chan w' 0 = sb_chan w 0"
proof -
  let ?r = "sandbox_run e i (pbox_set_state i PBOX_STATE_REQUEST w)"
  from assms(1,2) have "sb_alive w' = sb_alive ?r \<and> sb_chan w' 0 = sb_chan ?r 0"
    by (auto simp: exchange_def pbox_wait_for_state_def pbox_set_state_def Let_def split: if_splits)
  with sandbox_run_control [OF assms(2), of e "pbox_set_state i PBOX_STATE_REQUEST w"] assms(2,3) show ?thesis
    by (simp add: pbox_set_state_def)
qed

lemma exchange_allowed:
  assumes ex: "exchange e i v = Returns w'" and v: "sandbox.more v = sandbox.more w" "sb_alive v = sb_alive w"
    and control: "ChannelMutex \<in> H \<or> i \<noteq> 0 \<and> sb_chan v 0 = sb_chan w 0" and w: "good w"
  shows "allowed H w w' \<and> good w'"
proof (rule keeps_more)
  show "sandbox.more w' = sandbox.more w" using exchange_more [OF ex] v(1) by simp
  show "ChannelMutex \<in> H \<or> (sb_alive w' \<longrightarrow> sb_alive w \<and> sb_chan w' 0 = sb_chan w 0)"
    using control exchange_control [OF ex] v(2) by auto
qed (rule w)

section \<open>The operations keep the discipline\<close>

named_theorems follow_rules \<open>the pieces of a thread keep the lock discipline\<close>

lemma follows_ask:
  "(\<And>w. good w \<Longrightarrow> Q (f w)) \<Longrightarrow> box_follows H (ask f) H Q"
  unfolding ask_def by (rule follows_act) (auto simp: allowed_def good_def intro: box_locks.keeps_refl)

lemma follows_tls: "box_follows H (ask h_tls) H own_channel"
  by (rule follows_ask) (simp add: good_def)

lemma follows_sendmsg: "box_follows H (act (sendmsg_fd k fd)) H (\<lambda>a. True)"
  by (rule follows_act)
    (auto simp: sendmsg_fd_def allowed_iff good_def numbered_def split: option.splits if_splits)

lemma follows_recv:
  fixes e :: "'m sandbox_env"
  assumes "ChannelMutex \<in> H \<or> i \<noteq> 0"
  shows "box_follows H (act (request_recv_fd e i) :: ('m, 'h, int) box_thread) H (\<lambda>a. True)"
proof (rule follows_act)
  fix w :: "('m, 'h) world" and a w'
  assume w: "good w" and "request_recv_fd e i w = Returns (a, w')"
  then have "exchange e i (put_chan i ((sb_chan w i)\<lparr>request_type := PBOX_REQ_RECV_FD\<rparr>) w) = Returns w'"
    by (auto simp: request_recv_fd_def)
  from exchange_allowed [OF this _ _ _ w, of H] assms show "allowed H w w' \<and> True" by auto
qed

lemma follows_send_fd_on:
  "ChannelMutex \<in> H \<or> i \<noteq> 0 \<Longrightarrow> box_follows H (send_fd_on_thread e k i fd) H (\<lambda>a. True)"
  unfolding send_fd_on_thread_def
  by (rule follows_after [OF follows_sendmsg]) (auto intro: follows_recv simp: follows_simps)

lemma follows_worker:
  fixes e :: "'m sandbox_env"
  shows "ChannelMutex \<in> H \<Longrightarrow> box_follows H (act (request_worker e s) :: ('m, 'h, unit) box_thread) H (\<lambda>a. True)"
proof (rule follows_act)
  fix w :: "('m, 'h) world" and a w'
  assume H: "ChannelMutex \<in> H" and w: "good w" and "request_worker e s w = Returns (a, w')"
  then have "exchange e 0 (put_chan 0 ((sb_chan w 0)\<lparr>request_type := PBOX_REQ_SPAWN_WORKER, worker_shm_fd := s\<rparr>) w) = Returns w'"
    by (auto simp: request_worker_def)
  from exchange_allowed [OF this _ _ _ w, of H] H show "allowed H w w' \<and> True" by auto
qed

lemma follows_not_sent: "box_follows H (act (channel_not_sent j fd)) H own_channel"
  by (rule follows_act)
    (auto simp: channel_not_sent_def release_def close_fd_def allowed_iff good_def numbered_def own_channel_def split: if_splits)

lemma abandon_keeps:
  "abandon_channel e j fd w = Returns w' \<Longrightarrow>
     h_next w' = h_next w \<and> h_tls w' = h_tls w \<and> b_reg w' = b_reg w \<and> b_fds w' = b_fds w"
  by (simp add: abandon_channel_host)

lemma follows_ready:
  fixes e :: "'m sandbox_env"
  assumes "ChannelMutex \<in> H" "j \<noteq> 0"
  shows "box_follows H (act (channel_ready e k j fd) :: ('m, 'h, nat option) box_thread) H own_channel"
proof (rule follows_act)
  fix w :: "('m, 'h) world" and a w'
  assume "good w" "channel_ready e k j fd w = Returns (a, w')"
  with assms show "allowed H w w' \<and> own_channel a"
    by (auto simp: channel_ready_def Let_def allowed_iff good_def numbered_def own_channel_def release_def acquire_def
      split: if_splits dest!: abandon_keeps)
qed

lemma follows_create:
  fixes e :: "'m sandbox_env"
  assumes H: "ChannelMutex \<in> H"
  shows "box_follows H (create_channel_thread e k :: ('m, 'h, nat option) box_thread) H own_channel"
proof -
  have mem: "box_follows H (act (channel_memory k) :: ('m, 'h, (nat \<times> nat) option) box_thread) H (\<lambda>r. \<forall>j fd. r = Some (j, fd) \<longrightarrow> j \<noteq> 0)"
    by (rule follows_act)
      (auto simp: channel_memory_def Let_def allowed_iff good_def numbered_def close_fd_def acquire_def H split: if_splits)
  have spawn: "box_follows H (after (act (request_worker e s)) (\<lambda>_. act (channel_ready e k j fd)) :: ('m, 'h, nat option) box_thread) H own_channel"
    if "j \<noteq> 0" for s j fd
    by (rule follows_after [OF follows_worker [OF H]]) (rule follows_ready [OF H that])
  have rest: "box_follows H
      (after (send_fd_on_thread e k 0 fd) (\<lambda>s. if s < 0 then act (channel_not_sent j fd)
         else after (act (request_worker e s)) (\<lambda>_. act (channel_ready e k j fd))) :: ('m, 'h, nat option) box_thread) H own_channel"
    if "j \<noteq> 0" for j fd
    by (rule follows_after [OF follows_send_fd_on]) (use H that in \<open>auto intro: spawn follows_not_sent\<close>)
  show ?thesis
    unfolding create_channel_thread_def
    by (rule follows_after [OF mem]) (auto simp: follows_simps own_channel_def intro!: rest split: option.splits)
qed

lemma follows_get_or_create:
  assumes H: "\<forall>m\<in>H. box_rank m < 1"
  shows "box_follows H (get_or_create_thread e k) H own_channel"
proof -
  have out: "ChannelMutex \<notin> H" using H by (auto simp: box_rank_def)
  have set: "box_follows H (act (\<lambda>w. Returns (Some j, w\<lparr>h_tls := Some j\<rparr>))) H own_channel" if "own_channel (Some j)" for j
    by (rule follows_act) (use that in \<open>auto simp: allowed_iff good_def numbered_def\<close>)
  have "box_follows H (Lock ChannelMutex (after (create_channel_thread e k) (\<lambda>c. Unlock ChannelMutex (case c of
      None \<Rightarrow> Finished None | Some j \<Rightarrow> act (\<lambda>w. Returns (Some j, w\<lparr>h_tls := Some j\<rparr>)))))) H own_channel"
    using H out
    by (auto simp: follows_simps box_rank_def own_channel_def
        intro!: follows_after [OF follows_create] set split: option.splits)
  then show ?thesis
    unfolding get_or_create_thread_def
    by (intro follows_after [OF follows_tls]) (auto simp: follows_simps split: option.splits)
qed

lemma follows_exchange:
  fixes e :: "'m sandbox_env" and f :: "('m, 'h) world \<Rightarrow> ('a \<times> ('m, 'h) world) outcome"
  assumes i: "i \<noteq> 0" and f: "\<And>w a w'. f w = Returns (a, w') \<Longrightarrow> \<exists>c. exchange e i (put_chan i c w) = Returns w'"
  shows "box_follows H (act f) H (\<lambda>a. True)"
proof (rule follows_act)
  fix w a w'
  assume w: "good w" and "f w = Returns (a, w')"
  from f [OF this(2)] obtain c where "exchange e i (put_chan i c w) = Returns w'" by blast
  from exchange_allowed [OF this _ _ _ w, of H] i show "allowed H w w' \<and> True" by auto
qed

lemma follows_dlsym_on: "i \<noteq> 0 \<Longrightarrow> box_follows H (act (dlsym_on e i symbol)) H (\<lambda>a. True)"
  by (rule follows_exchange [of i _ e]) (auto simp: dlsym_on_def)

lemma follows_response_turn:
  fixes e :: "'m sandbox_env"
  assumes i: "i \<noteq> 0"
  shows "box_follows H (act (response_turn e i) :: ('m, 'h, bool) box_thread) H (\<lambda>a. True)"
proof (rule follows_act)
  fix w :: "('m, 'h) world" and a w'
  assume w: "good w" and r: "response_turn e i w = Returns (a, w')"
  have run: "allowed H w (sandbox_run e i w)"
    using keeps_more [of "sandbox_run e i w" w H] sandbox_run_control [OF i, of e w] w by simp
  have "allowed H w (pbox_set_state i PBOX_STATE_REQUEST v)" if "host_callback i w = Returns v" for v
    using that w i
    by (auto simp: host_callback_def allowed_iff good_def numbered_def pbox_set_state_def sandbox_dies_def Let_def split: option.splits if_splits)
  then show "allowed H w w' \<and> True"
    using r w run by (auto simp: response_turn_def Let_def good_def allowed_iff split: if_splits)
qed

lemma follows_response: "i \<noteq> 0 \<Longrightarrow> box_follows H (response_thread n e i) H (\<lambda>a. True)"
proof (induction n)
  case 0
  show ?case unfolding response_thread.simps by (rule follows_act) simp
next
  case (Suc n)
  then show ?case unfolding response_thread.simps
    by (intro follows_after [OF follows_response_turn]) (auto simp: follows_simps)
qed

lemma follows_call:
  assumes H: "\<forall>m\<in>H. box_rank m < 1"
  shows "box_follows H (call_thread e k fn rt n ts vs ret) H (\<lambda>a. True)"
proof -
  have post: "box_follows H (act (post_call fn rt n ts vs i)) H (\<lambda>a. True)" if "i \<noteq> 0" for i
    by (rule follows_act) (use that in \<open>auto simp: post_call_def allowed_iff good_def numbered_def pbox_set_state_def\<close>)
  have fetch: "box_follows H (act (fetch_result rt ret i)) H (\<lambda>a. True)" if "i \<noteq> 0" for i
    by (rule follows_act)
      (use that in \<open>auto simp: fetch_result_def Let_def allowed_iff good_def numbered_def pbox_set_state_def split: option.splits\<close>)
  show ?thesis
    unfolding call_thread_def
    by (rule follows_after [OF follows_get_or_create [OF H]])
      (auto simp: follows_simps own_channel_def intro!: follows_after [OF post] follows_after [OF follows_response] fetch split: option.splits)
qed

lemma follows_dlsym:
  assumes H: "\<forall>m\<in>H. box_rank m < 1"
  shows "box_follows H (dlsym_thread e k symbol) H (\<lambda>a. True)"
  unfolding dlsym_thread_def
  by (rule follows_after [OF follows_get_or_create [OF H]])
    (auto simp: follows_simps own_channel_def intro!: follows_dlsym_on split: option.splits)

text \<open>The actions on the application's symbol cache, the descriptor cache and the registry.\<close>

lemma follows_update:
  assumes "\<And>w. good w \<Longrightarrow> allowed H w (f w)"
  shows "box_follows H (act (\<lambda>w. Returns ((), f w))) H (\<lambda>a. True)"
  by (rule follows_act) (use assms in auto)

lemma remember_fd_host:
  "sb_alive (remember_fd k fd s w) = sb_alive w" "sb_chan (remember_fd k fd s w) = sb_chan w" "h_tls (remember_fd k fd s w) = h_tls w"
  "h_next (remember_fd k fd s w) = h_next w" "b_reg (remember_fd k fd s w) = b_reg w"
  "b_channels (remember_fd k fd s w) = b_channels w" "b_channel_cap (remember_fd k fd s w) = b_channel_cap w"
  by (simp_all add: remember_fd_def Let_def acquire_def)

lemma follows_send_fd: "box_follows {} (send_fd_thread e k fd) {} (\<lambda>a. True)"
proof (cases "fd < 0")
  case True
  then show ?thesis by (simp add: send_fd_thread_def follows_simps)
next
  case False
  have rank: "\<forall>m\<in>{FdMutex}. box_rank m < 1" by (simp add: box_rank_def)
  have rem: "box_follows {FdMutex} (act (\<lambda>w. Returns ((), if s \<ge> 0 then remember_fd k (nat fd) s w else w))) {FdMutex} (\<lambda>a. True)" for s
    by (rule follows_update) (auto simp: allowed_iff good_def numbered_def remember_fd_host)
  have body: "box_follows {FdMutex} (after (get_or_create_thread e k) (\<lambda>c. case c of
          None \<Rightarrow> Unlock FdMutex (Finished (- 1))
        | Some i \<Rightarrow>
            after (send_fd_on_thread e k i (nat fd)) (\<lambda>s.
              after (act (\<lambda>w. Returns ((), if s \<ge> 0 then remember_fd k (nat fd) s w else w)))
                (\<lambda>_. Unlock FdMutex (Finished s))))) {} (\<lambda>a. True)"
    by (rule follows_after [OF follows_get_or_create [OF rank]])
      (auto simp: follows_simps own_channel_def intro!: follows_after [OF follows_send_fd_on] follows_after [OF rem] split: option.splits)
  show ?thesis
    using False body
    by (auto simp: send_fd_thread_def follows_simps intro!: follows_after [OF follows_ask [of "\<lambda>a. True"]])
qed

lemma follows_close: "box_follows {} (close_thread e k result0 s) {} (\<lambda>a. True)"
proof -
  have uncache: "box_follows {FdMutex} (act (\<lambda>w. Returns ((), w\<lparr>b_fds := pbox_uncache_fd (b_fds w) s\<rparr>))) {FdMutex} (\<lambda>a. True)"
    by (rule follows_update) (auto simp: allowed_iff good_def numbered_def)
  show ?thesis
    unfolding close_thread_def
    by (rule follows_after [OF follows_ask [of "\<lambda>a. True"]])
      (auto simp: follows_simps intro!: follows_after [OF follows_call] follows_after [OF uncache])
qed

lemma follows_register_callback: "box_follows {} (register_callback_thread e k host_func dispatch rt n ts) {} (\<lambda>a. True)"
proof -
  let ?H = "{CallbackMutex}"
  have rank: "\<forall>m\<in>?H. box_rank m < 1" by (simp add: box_rank_def)
  have pub: "box_follows ?H (act (publish_callback host_func dispatch rt n ts)) ?H (\<lambda>a. True)"
    by (rule follows_act) (auto simp: publish_callback_def allowed_iff good_def numbered_def split: option.splits)
  have undo: "box_follows ?H (act (\<lambda>w. Returns ((), w\<lparr>b_reg := (b_reg w)\<lparr>callback_count := cid\<rparr>\<rparr>))) ?H (\<lambda>a. True)" for cid
    by (rule follows_update) (auto simp: allowed_iff good_def numbered_def)
  have ask: "box_follows ?H (act (request_closure e cid rt n ts i)) ?H (\<lambda>a. True)" if i: "i \<noteq> 0" for cid i
  proof (rule follows_act)
    fix w a w'
    assume w: "good w" and "request_closure e cid rt n ts i w = Returns (a, w')"
    then obtain v reg where ex: "exchange e i (put_chan i (closure_request cid rt n ts (sb_chan w i)) w) = Returns v"
      and w': "w' = v\<lparr>b_reg := reg\<rparr>"
      by (auto simp: request_closure_def Let_def)
    from exchange_allowed [OF ex _ _ _ w, of ?H] i show "allowed ?H w w' \<and> True"
      by (auto simp: w' allowed_iff numbered_def)
  qed
  show ?thesis
    unfolding register_callback_thread_def
    by (auto simp: follows_simps own_channel_def intro!: follows_after [OF pub] follows_after [OF undo] follows_after [OF ask]
        follows_after [OF follows_get_or_create [OF rank]] split: option.splits)
qed

lemma follows_in_idmem: "box_follows {} (in_idmem_thread p n) {} (\<lambda>a. True)"
  unfolding in_idmem_thread_def
  by (auto simp: follows_simps intro!: follows_after [OF follows_ask [of "\<lambda>a. True"]])

lemma follows_exit: "box_follows {} (exit_thread e) {} (\<lambda>a. True)"
proof -
  have leave: "box_follows {} (act (leave_channel e i)) {} (\<lambda>a. True)" if i: "i \<noteq> 0" for i
  proof (rule follows_act)
    fix w a w'
    assume w: "good w" and r: "leave_channel e i w = Returns (a, w')"
    let ?v = "sandbox_run e i (pbox_set_state i PBOX_STATE_EXIT w)"
    have "allowed {} w ?v"
      using keeps_more [of ?v w "{}"] sandbox_run_control [OF i, of e "pbox_set_state i PBOX_STATE_EXIT w"] i w
      by (simp add: pbox_set_state_def)
    with r show "allowed {} w w' \<and> True"
      by (auto simp: leave_channel_def release_region_def release_def close_fd_def allowed_iff numbered_def split: if_splits)
  qed
  have remove: "box_follows {ChannelMutex} (act (\<lambda>w. Returns ((), w\<lparr>b_channels := remove_channel i (b_channels w)\<rparr>))) {ChannelMutex} (\<lambda>a. True)" for i
    by (rule follows_update) (auto simp: allowed_iff good_def numbered_def)
  have free: "box_follows {} (act (\<lambda>w. and_then (release (TchMem i) w) (\<lambda>w. Returns ((), w\<lparr>h_tls := None\<rparr>)))) {} (\<lambda>a. True)" for i
    by (rule follows_act) (auto simp: release_def allowed_iff good_def numbered_def own_channel_def split: if_splits)
  show ?thesis
    unfolding exit_thread_def
    by (rule follows_after [OF follows_tls])
      (auto simp: follows_simps own_channel_def intro!: follows_after [OF leave] follows_after [OF remove] free split: option.splits)
qed

lemma follows_lookup: "box_follows {} (lookup_thread e k lits name) {} (\<lambda>a. True)"
proof -
  have rank: "\<forall>m\<in>{CacheMutex}. box_rank m < 1" by (simp add: box_rank_def)
  have store: "box_follows {CacheMutex} (act (\<lambda>w. Returns ((), if sym \<noteq> 0 then store_symbol name sym w else w))) {CacheMutex} (\<lambda>a. True)" for sym
    by (rule follows_update) (auto simp: store_symbol_def allowed_iff good_def numbered_def)
  show ?thesis
    unfolding lookup_thread_def
    by (auto simp: follows_simps intro!: follows_after [OF follows_ask [of "\<lambda>a. True"]] follows_after [OF follows_dlsym [OF rank]]
        follows_after [OF store] split: option.splits)
qed

section \<open>Programs of host threads\<close>

datatype 'g box_op =
    OpDlsym kernel "byte list"
  | OpCall kernel u64 PBoxType nat "PBoxType list" "byte list list" "byte list option"
  | OpSendFd kernel int
  | OpClose kernel "byte list" int
  | OpRegister kernel u64 "'g app dispatch_fn" PBoxType int "PBoxType list"
  | OpInIdmem u64 u64
  | OpLookup kernel "u64 \<Rightarrow> byte list" u64
  | OpExit

definition discard :: "('m, 'h, 'a) box_thread \<Rightarrow> ('m, 'h, unit) box_thread" where
  "discard t = after t (\<lambda>a. Finished ())"

fun op_thread :: "'m sandbox_env \<Rightarrow> 'g box_op \<Rightarrow> ('m, 'g app, unit) box_thread" where
  "op_thread e (OpDlsym k s) = discard (dlsym_thread e k s)"
| "op_thread e (OpCall k fn rt n ts vs ret) = discard (call_thread e k fn rt n ts vs ret)"
| "op_thread e (OpSendFd k fd) = discard (send_fd_thread e k fd)"
| "op_thread e (OpClose k r s) = discard (close_thread e k r s)"
| "op_thread e (OpRegister k f d rt n ts) = discard (register_callback_thread e k f d rt n ts)"
| "op_thread e (OpInIdmem p n) = discard (in_idmem_thread p n)"
| "op_thread e (OpLookup k lits name) = discard (lookup_thread e k lits name)"
| "op_thread e OpExit = exit_thread e"

primrec program :: "'m sandbox_env \<Rightarrow> 'g box_op list \<Rightarrow> ('m, 'g app, unit) box_thread" where
  "program e [] = Finished ()"
| "program e (op # ops) = after (op_thread e op) (\<lambda>_. program e ops)"

text \<open>Threads that have not used the box yet.\<close>

definition box_system :: "'m sandbox_env \<Rightarrow> 'g box_op list list \<Rightarrow> ('m, 'g app) world \<Rightarrow>
    (box_mutex, nat option, ('m, 'g app) world, unit) system" where
  "box_system e progs w = start_threads w (map (\<lambda>ops. (None, program e ops)) progs)"

lemma follows_discard: "box_follows H t H' Q \<Longrightarrow> box_follows H (discard t) H' (\<lambda>a. True)"
  unfolding discard_def by (rule follows_after) (simp_all add: follows_simps)

lemma follows_op: "box_follows {} (op_thread e op) {} (\<lambda>a. True)"
  by (cases op) (auto intro!: follows_discard follows_dlsym follows_call follows_send_fd follows_close follows_register_callback
      follows_in_idmem follows_lookup follows_exit)

lemma follows_program: "box_follows {} (program e ops) {} (\<lambda>a. True)"
  by (induction ops) (auto simp: follows_simps intro!: follows_after [OF follows_op])

lemma box_disciplined:
  assumes "numbered w" "thread_steps (box_system e progs w) s"
  shows "disciplined box_rank box_keeps own_channel numbered s"
  using assms
  by (intro box_locks.steps_disciplined [OF assms(2)])
    (auto simp: box_system_def own_channel_def follows_program intro!: box_locks.disciplined_start)

end
