(* ===== verification/Interleaving.thy ===== *)
theory Interleaving
  imports BoxThreads
begin

text \<open>
  What holds of several host threads on one box under every interleaving, and what does not: the
  properties of the threads of \<open>BoxThreads\<close>, through the interpretation of \<open>lock_discipline\<close> there.
\<close>

section \<open>One thread\<close>

text \<open>The sequential meaning of the operations, results dropped.\<close>

definition drop_result :: "('a \<times> ('m, 'h) world) outcome \<Rightarrow> (unit \<times> ('m, 'h) world) outcome" where
  "drop_result m = and_then m (\<lambda>(a, w). Returns ((), w))"

fun run_op :: "'m sandbox_env \<Rightarrow> 'g box_op \<Rightarrow> ('m, 'g app) world \<Rightarrow> (unit \<times> ('m, 'g app) world) outcome" where
  "run_op e (OpDlsym k s) w = drop_result (pbox_dlsym e k s w)"
| "run_op e (OpCall k fn rt n ts vs ret) w = drop_result (pbox_call e k fn rt n ts vs ret w)"
| "run_op e (OpSendFd k fd) w = drop_result (pbox_send_fd e k fd w)"
| "run_op e (OpClose k r s) w = drop_result (pbox_close e k r s w)"
| "run_op e (OpRegister k f d rt n ts) w = drop_result (pbox_register_callback e k f d rt n ts w)"
| "run_op e (OpInIdmem p n) w = Returns ((), w)"
| "run_op e (OpLookup k lits name) w = drop_result (lookup e k lits name w)"
| "run_op e OpExit w =
     (case h_tls w of None \<Rightarrow> Returns ((), w) | Some i \<Rightarrow> and_then (channel_destructor e i w) (\<lambda>w'. Returns ((), w')))"

primrec run_ops :: "'m sandbox_env \<Rightarrow> 'g box_op list \<Rightarrow> ('m, 'g app) world \<Rightarrow> (unit \<times> ('m, 'g app) world) outcome" where
  "run_ops e [] w = Returns ((), w)"
| "run_ops e (op # ops) w = and_then (run_op e op w) (\<lambda>(_, w'). run_ops e ops w')"

lemma runs_discard: "runs_as t f \<Longrightarrow> runs_as (discard t) (\<lambda>w. drop_result (f w))"
  unfolding discard_def drop_result_def by (rule runs_after) (auto intro: alone_rules)

lemma in_idmem_alone: "runs_as (discard (in_idmem_thread p n)) (\<lambda>w. Returns ((), w))"
  unfolding discard_def in_idmem_thread_def by (rule runs_cong, (rule alone_rules)+) simp

lemma op_alone: "runs_as (op_thread e op) (run_op e op)"
proof (cases op)
  case OpExit
  show ?thesis unfolding OpExit op_thread.simps by (rule runs_cong [OF exit_alone]) simp
qed (auto intro!: runs_discard alone_rules lookup_alone in_idmem_alone intro: runs_cong)

lemma program_alone: "runs_as (program e ops) (run_ops e ops)"
proof (induction ops)
  case Nil
  show ?case by (auto intro: runs_cong alone_rules)
next
  case (Cons op ops)
  show ?case by (rule runs_cong, simp, rule runs_after, rule op_alone, rule Cons) simp
qed

text \<open>C11: a host thread that has the box to itself does, call after call, exactly what the sequential
  definitions of the operations say: from any state in which its program returns, the interleaving
  model reaches that state, with every mutex given back.\<close>

theorem single_thread_runs_operations:
  fixes w :: "('m, 'g app) world"
  assumes "own_channel (h_tls w)" "numbered w" "run_ops e ops w = Returns (u, w')"
  shows "thread_steps (start_threads w [(h_tls w, program e ops)])
    \<lparr>sy_world = w', sy_owner = (\<lambda>m. None), sy_threads = [(h_tls w', Finished ())]\<rparr>"
proof -
  have "alone (program e ops) (h_tls w) w = Returns ((), h_tls w', w')"
    using program_alone [of e ops] assms(3) by (simp add: runs_as_def)
  from box_locks.alone_runs [OF follows_program assms(1,2) this] show ?thesis by (simp add: start_threads_def)
qed

theorem single_thread_runs_operations_witness:
  "\<exists>w'. thread_steps
     (start_threads (cxx_world () (fresh_app ())) [(Some 1, program cxx_env [OpDlsym example_kernel [105], OpInIdmem 0 8])])
     \<lparr>sy_world = w', sy_owner = (\<lambda>m. None), sy_threads = [(h_tls w', Finished ())]\<rparr>"
proof -
  let ?w = "cxx_world () (fresh_app ()) :: (unit, unit app) world"
  have tls: "h_tls ?w = Some 1" and ok: "own_channel (h_tls ?w)" "numbered ?w"
    by (simp_all add: cxx_world_def own_channel_def numbered_def)
  obtain a w' where "pbox_dlsym cxx_env example_kernel [105] ?w = Returns (a, w')"
    by (rule dlsym_ready [OF cxx_ready [of "\<lambda>_ _ h. ([], h)"], where s = "[105]"]) (rule that)
  then have "run_ops cxx_env [OpDlsym example_kernel [105], OpInIdmem 0 8] ?w = Returns ((), w')"
    by (simp add: drop_result_def)
  from single_thread_runs_operations [OF ok this] show ?thesis unfolding tls by blast
qed

section \<open>Many threads\<close>

text \<open>C5: host threads that share a box never deadlock on its mutexes and the symbol cache's: in every
  state that any number of threads with any programs can reach, if no thread can go on and none is
  waiting for the sandbox, all of them have finished their programs.\<close>

theorem box_threads_no_deadlock:
  assumes "numbered w" "thread_steps (box_system e progs w) s" "stuck s" "\<forall>i<length (sy_threads s). \<not> waits s i"
  shows "\<forall>i<length (sy_threads s). finished (snd (sy_threads s ! i))"
  using box_locks.no_deadlock [OF box_disciplined [OF assms(1,2)] assms(3,4)] .

definition two_threads :: "(box_mutex, nat option, (unit, unit app) world, unit) system" where
  "two_threads = box_system cxx_env [[OpInIdmem 0 8], [OpInIdmem 16 8]] (cxx_world () (fresh_app ()))"

theorem box_threads_no_deadlock_witness:
  "\<exists>s. thread_steps two_threads s \<and> finished (snd (sy_threads s ! 0)) \<and> finished (snd (sy_threads s ! 1))"
proof -
  have w: "numbered (cxx_world () (fresh_app ()))" by (simp add: cxx_world_def numbered_def)
  have "\<exists>s. run_schedule [0, 0, 0, 1, 1, 1] two_threads = Some s \<and> length (sy_threads s) = 2 \<and> stuck s \<and>
      (\<forall>i<length (sy_threads s). \<not> waits s i)"
    by (simp add: two_threads_def box_system_def start_threads_def step_thread_def discard_def in_idmem_thread_def after_assoc after_ask
        stuck_def waits_def numeral_2_eq_2 All_less_Suc)
  then obtain s where s: "run_schedule [0, 0, 0, 1, 1, 1] two_threads = Some s" "length (sy_threads s) = 2" "stuck s"
    "\<forall>i<length (sy_threads s). \<not> waits s i" by blast
  from box_threads_no_deadlock [OF w run_schedule_steps [OF s(1), unfolded two_threads_def] s(3,4)] s(2)
  have "finished (snd (sy_threads s ! 0))" "finished (snd (sy_threads s ! 1))" by simp_all
  with run_schedule_steps [OF s(1)] show ?thesis by blast
qed

text \<open>C10: what a mutex protects is changed by nobody else while a thread holds it: the list of channels and, as
  long as the sandbox lives, the control channel under \<open>channel_lock\<close>, the descriptor cache under
  \<open>fd_lock\<close>, the callback registry under \<open>callback_lock\<close>, whatever the other threads do in the
  meantime; and they cannot take the mutex away.\<close>

theorem mutexes_protect:
  fixes w :: "('m, 'g app) world"
  assumes "numbered w" "thread_steps (box_system e progs w) s" "sy_owner s m = Some i" "steps_of_others i s s'"
  shows "sy_owner s' m = Some i \<and>
    (m = ChannelMutex \<longrightarrow> b_channels (sy_world s') = b_channels (sy_world s) \<and>
       (sb_alive (sy_world s') \<longrightarrow> sb_chan (sy_world s') 0 = sb_chan (sy_world s) 0)) \<and>
    (m = FdMutex \<longrightarrow> b_fds (sy_world s') = b_fds (sy_world s)) \<and>
    (m = CallbackMutex \<longrightarrow> b_reg (sy_world s') = b_reg (sy_world s))"
  using box_locks.others_keep [OF assms(4) box_disciplined [OF assms(1,2)] assms(3)] by auto

definition reader_and_lookup :: "(box_mutex, nat option, (unit, unit app) world, unit) system" where
  "reader_and_lookup =
     box_system cxx_env [[OpInIdmem 0 8], [OpLookup example_kernel (\<lambda>_. [105, 0]) 64]] (cxx_world () (fresh_app ()))"

theorem mutexes_protect_witness:
  "\<exists>s s'. run_schedule [0] reader_and_lookup = Some s \<and> thread_step 1 s s' \<and> sy_owner s' ChannelMutex = Some 0 \<and>
     sy_owner s' CacheMutex = Some 1 \<and> b_channels (sy_world s') = b_channels (sy_world s)"
proof -
  have w: "numbered (cxx_world () (fresh_app ()))" by (simp add: cxx_world_def numbered_def)
  have "\<exists>s s'. run_schedule [0] reader_and_lookup = Some s \<and> step_thread 1 s = Some s' \<and> sy_owner s ChannelMutex = Some 0 \<and>
      sy_owner s' CacheMutex = Some 1"
    by (simp add: reader_and_lookup_def box_system_def start_threads_def step_thread_def discard_def in_idmem_thread_def
        lookup_thread_def)
  then obtain s s' where s: "run_schedule [0] reader_and_lookup = Some s" "thread_step 1 s s'" "sy_owner s ChannelMutex = Some 0"
    "sy_owner s' CacheMutex = Some 1"
    by (auto simp: thread_step_iff)
  have "steps_of_others 0 s s'" using others_step [OF others_refl _ s(2)] by simp
  from mutexes_protect [OF w run_schedule_steps [OF s(1), unfolded reader_and_lookup_def] s(3) this] s show ?thesis by blast
qed

text \<open>no schedule of any number of host threads goes on for ever: every operation is a bounded number of
  steps, so every interleaving ends.\<close>

theorem box_threads_terminate:
  "\<nexists>run. run 0 = box_system e progs w \<and> (\<forall>n. \<exists>i. thread_step i (run n) (run (Suc n)))"
  using wfp_thread_step unfolding wfp_def wf_iff_no_infinite_down_chain by blast

section \<open>The socket\<close>

text \<open>
  Sending a descriptor is two actions: the message on the socket that all threads share, and the request on the
  thread's own channel to take a message from it. \<open>pbox_send_fd\<close> holds \<open>fd_lock\<close> meanwhile,
  \<open>create_channel_locked\<close> holds \<open>channel_lock\<close>, \<open>pbox_mmap_identity\<close> holds neither.
\<close>

lemma sendmsg_puts:
  "h_fds w fd = Some f \<Longrightarrow> k_ok k At_sendmsg \<Longrightarrow> sb_alive w \<Longrightarrow> sendmsg_fd k fd w = Returns (True, w\<lparr>sb_sock := sb_sock w @ [f]\<rparr>)"
  by (simp add: sendmsg_fd_def)

lemma recv_takes:
  assumes "sb_alive w" "sb_worker w i = AtLoop" "sb_sock w = f # fs" "e_new_fd e (pr_fds (sb_proc w)) = n" "0 \<le> n"
  shows "\<exists>w'. request_recv_fd e i w = Returns (n, w') \<and>
    sb_alive w' \<and> sb_worker w' = sb_worker w \<and> sb_sock w' = fs \<and> sandbox.more w' = sandbox.more w \<and>
    pr_fds (sb_proc w') = (pr_fds (sb_proc w))(n \<mapsto> f) \<and> (\<forall>m. m \<noteq> i \<longrightarrow> sb_chan w' m = sb_chan w m)"
proof -
  let ?v = "pbox_set_state i PBOX_STATE_REQUEST (put_chan i ((sb_chan w i)\<lparr>request_type := PBOX_REQ_RECV_FD\<rparr>) w)"
  have "sandbox_run e i ?v = serve_recv_fd e i ?v"
    using assms(1,2) by (simp add: sandbox_run_def dispatch_request_def pbox_set_state_def)
  then show ?thesis
    using assms
    by (simp add: request_recv_fd_def exchange_def pbox_wait_for_state_def pbox_set_state_def serve_recv_fd_def recv_fd_def respond_def Let_def)
qed

text \<open>
  The same for the request to start a worker on a file of the program: the new thread maps it if it
  can and closes the descriptor; if the mapping cannot be written the process dies, unanswered.
\<close>

definition worker_takes :: "'m sandbox_env \<Rightarrow> open_file \<Rightarrow> bool" where
  "worker_takes e f \<longleftrightarrow> e_spawn_ok e \<and> (e_map_file e f = Mapped \<or> e_map_file e f = Faults \<and> \<not> e_filter_ok e)"

lemma spawn_foreign:
  fixes w :: "('m, 'h) world"
  assumes "sb_alive w" "sb_worker w 0 = AtLoop" "pr_fds (sb_proc w) s = Some (HostFile n)"
  shows "request_worker e s w = Blocks \<and> \<not> worker_takes e (HostFile n) \<or>
    (\<exists>w'. request_worker e s w = Returns ((), w') \<and> sandbox.more w' = sandbox.more w \<and>
      pr_fds (sb_proc w') = (if worker_takes e (HostFile n) then (pr_fds (sb_proc w))(s := None) else pr_fds (sb_proc w)) \<and>
      (\<forall>j. j \<noteq> 0 \<longrightarrow> sb_chan w' j = sb_chan w j))"
proof -
  let ?v = "pbox_set_state 0 PBOX_STATE_REQUEST
    (put_chan 0 ((sb_chan w 0)\<lparr>request_type := PBOX_REQ_SPAWN_WORKER, worker_shm_fd := s\<rparr>) w)"
  have "sandbox_run e 0 ?v = serve_spawn_worker e 0 ?v"
    using assms(1,2) by (simp add: sandbox_run_def dispatch_request_def pbox_set_state_def)
  then show ?thesis
    using assms
    by (cases "e_map_file e (HostFile n)")
      (simp_all add: request_worker_def exchange_def pbox_wait_for_state_def pbox_set_state_def serve_spawn_worker_def
        pbox_spawn_worker_def worker_thread_fn_def worker_takes_def respond_def sandbox_dies_def Let_def)
qed

text \<open>
  The interleaving of \<open>pbox_send_fd\<close> on thread 0 with the first use of the box by thread 1 up to its request
  for a worker, given what each action does: both messages are on the socket before the control channel's request is served.
\<close>

abbreviation with_channel :: "'m sandbox_env \<Rightarrow> byte list \<Rightarrow> nat option \<Rightarrow> ('m, 'h, int) box_thread" where
  "with_channel e name c \<equiv>
     after (Unlock ChannelMutex (case c of None \<Rightarrow> Finished None | Some j \<Rightarrow> act (\<lambda>w. Returns (Some j, w\<lparr>h_tls := Some j\<rparr>))))
       (\<lambda>c. after (case c of None \<Rightarrow> Finished 0 | Some i \<Rightarrow> act (dlsym_on e i name)) (\<lambda>a. Finished (uint a)))"

lemma map_and_then: "map_outcome g (and_then m f) = and_then m (\<lambda>x. map_outcome g (f x))"
  by (cases m) simp_all

lemma race_schedule:
  assumes "\<not> (fa :: int) < 0" "pbox_lookup_fd (b_fds w) (nat fa) < 0"
    and "sendmsg_fd ka (nat fa) (w\<lparr>h_tls := Some i\<rparr>) = Returns (True, w1)"
    and "channel_memory kb (w1\<lparr>h_tls := None\<rparr>) = Returns (Some (j, fd), w2)" "h_tls w2 = None"
    and "sendmsg_fd kb fd w2 = Returns (True, w3)" "h_tls w3 = None"
    and "request_recv_fd e 0 w3 = Returns (x, w4)" "h_tls w4 = None" "0 \<le> x"
    and "request_recv_fd e i (w4\<lparr>h_tls := Some i\<rparr>) = Returns (y, w5)" "h_tls w5 = Some i" "0 \<le> y"
    and "h_tls w1 = Some i"
  shows "thread_steps
      (start_threads w [(Some i, send_fd_thread e ka fa), (None, after (dlsym_thread e kb s) (\<lambda>a. Finished (uint a)))])
      \<lparr>sy_world = remember_fd ka (nat fa) y w5, sy_owner = [ChannelMutex \<mapsto> 1],
       sy_threads = [(Some i, Finished y), (None, after (act (request_worker e x)) (\<lambda>_. after (act (channel_ready e kb j fd)) (with_channel e s)))]\<rparr>"
proof -
  have tls: "w2\<lparr>h_tls := None\<rparr> = w2" "w3\<lparr>h_tls := None\<rparr> = w3" "w5\<lparr>h_tls := Some i\<rparr> = w5"
    using assms(5,7,12) by simp_all
  have signs: "\<not> x < 0" "\<not> 0 \<le> pbox_lookup_fd (b_fds w) (nat fa)" using assms(2,10) by simp_all
  show ?thesis
    by (rule run_schedule_steps [of "[0, 0, 0, 0, 1, 1, 1, 1, 1, 0, 0, 0]"])
      (simp add: start_threads_def step_thread_def send_fd_thread_def dlsym_thread_def get_or_create_thread_def
        create_channel_thread_def send_fd_on_thread_def after_assoc after_act after_ask map_and_then split_def remember_fd_host tls signs assms)
qed

text \<open>C19: the mutexes do not cover the socket: while one thread sends a file with \<open>pbox_send_fd\<close> (under
  \<open>fd_lock\<close>), another that uses the box for the first time sends the memory of its channel (under
  \<open>channel_lock\<close>). In one interleaving each message is taken for the other's: the first call reports
  success with a sandbox descriptor for the second thread's channel. The worker that is started for the
  channel is started on the program's file instead, which it maps and closes if it can, and the
  second thread waits for ever, with \<open>channel_lock\<close> held.\<close>

theorem concurrent_send_takes_channel:
  fixes w :: "('m, 'h) world"
  defines "J \<equiv> h_next w"
  assumes alive: "sb_alive w" and loop: "sb_worker w 0 = AtLoop" "sb_worker w i = AtLoop" and i: "i \<noteq> 0" "i \<noteq> J" "J \<noteq> 0"
    and sock: "sb_sock w = []" and src: "0 \<le> fa" "h_fds w (nat fa) = Some (HostFile n)" "pbox_lookup_fd (b_fds w) (nat fa) < 0"
    and ok: "k_ok ka At_sendmsg" "\<forall>c. k_ok kb c"
    and new: "e_new_fd e (pr_fds (sb_proc w)) = x" "e_new_fd e ((pr_fds (sb_proc w))(x \<mapsto> HostFile n)) = y" "0 \<le> x" "0 \<le> y" "x \<noteq> y"
  shows "\<exists>s. thread_steps
      (start_threads w [(Some i, send_fd_thread e ka fa), (None, after (dlsym_thread e kb name) (\<lambda>a. Finished (uint a)))]) s \<and>
    snd (sy_threads s ! 0) = Finished y \<and> pr_fds (sb_proc (sy_world s)) y = Some (ChanShm J) \<and>
    pr_fds (sb_proc (sy_world s)) x = (if worker_takes e (HostFile n) then None else Some (HostFile n)) \<and> stuck s \<and> waits s 1 \<and> sy_owner s ChannelMutex = Some 1"
proof -
  define fd where "fd = k_fd kb (h_fds w)"
  define w1 where "w1 = w\<lparr>h_tls := Some i, sb_sock := [HostFile n]\<rparr>"
  define w2 where "w2 = acquire (ChanMap J) (put_chan J zero_channel
    (w1\<lparr>h_tls := None, h_next := J + 1, h_fds := (h_fds w)(fd \<mapsto> ChanShm J)\<rparr>))"
  define w3 where "w3 = w2\<lparr>sb_sock := [HostFile n, ChanShm J]\<rparr>"
  have s1: "sendmsg_fd ka (nat fa) (w\<lparr>h_tls := Some i\<rparr>) = Returns (True, w1)"
    using sendmsg_puts [of "w\<lparr>h_tls := Some i\<rparr>" "nat fa" "HostFile n" ka] src ok(1) sock alive by (simp add: w1_def)
  have s2: "channel_memory kb (w1\<lparr>h_tls := None\<rparr>) = Returns (Some (J, fd), w2)"
    using ok(2) by (simp add: channel_memory_def w1_def w2_def J_def fd_def Let_def)
  have s3: "sendmsg_fd kb fd w2 = Returns (True, w3)"
    using ok(2) sendmsg_puts [of w2 fd "ChanShm J" kb] alive by (simp add: w2_def w3_def acquire_def w1_def)
  have f3: "sb_alive w3" "sb_worker w3 = sb_worker w" "sb_sock w3 = [HostFile n, ChanShm J]" "sb_proc w3 = sb_proc w"
    "h_tls w3 = None" "sb_chan w3 J = zero_channel" "h_tls w2 = None" "h_tls w1 = Some i"
    using alive by (simp_all add: w3_def w2_def w1_def acquire_def)
  have "\<exists>w4. request_recv_fd e 0 w3 = Returns (x, w4) \<and> sb_alive w4 \<and> sb_worker w4 = sb_worker w3 \<and>
      sb_sock w4 = [ChanShm J] \<and> sandbox.more w4 = sandbox.more w3 \<and> pr_fds (sb_proc w4) = (pr_fds (sb_proc w3))(x \<mapsto> HostFile n) \<and>
      (\<forall>m. m \<noteq> 0 \<longrightarrow> sb_chan w4 m = sb_chan w3 m)"
    by (rule recv_takes) (simp_all add: f3 loop new)
  then obtain w4 where s4: "request_recv_fd e 0 w3 = Returns (x, w4)" and f4: "sb_alive w4" "sb_worker w4 = sb_worker w"
      "sb_sock w4 = [ChanShm J]" "sandbox.more w4 = sandbox.more w3" "pr_fds (sb_proc w4) = (pr_fds (sb_proc w))(x \<mapsto> HostFile n)"
      "\<forall>m. m \<noteq> 0 \<longrightarrow> sb_chan w4 m = sb_chan w3 m"
    unfolding f3 by blast
  let ?w4 = "w4\<lparr>h_tls := Some i\<rparr>"
  have "\<exists>w5. request_recv_fd e i ?w4 = Returns (y, w5) \<and> sb_alive w5 \<and> sb_worker w5 = sb_worker ?w4 \<and>
      sb_sock w5 = [] \<and> sandbox.more w5 = sandbox.more ?w4 \<and> pr_fds (sb_proc w5) = (pr_fds (sb_proc ?w4))(y \<mapsto> ChanShm J) \<and>
      (\<forall>m. m \<noteq> i \<longrightarrow> sb_chan w5 m = sb_chan ?w4 m)"
    by (rule recv_takes) (simp_all add: f4(1-3,5) loop new)
  then obtain w5 where s5: "request_recv_fd e i ?w4 = Returns (y, w5)" and f5: "sb_alive w5" "sb_worker w5 = sb_worker w"
      "sandbox.more w5 = sandbox.more ?w4" "pr_fds (sb_proc w5) = (pr_fds (sb_proc w))(x \<mapsto> HostFile n, y \<mapsto> ChanShm J)"
      "\<forall>m. m \<noteq> i \<longrightarrow> sb_chan w5 m = sb_chan w4 m"
    using f4(2,5) by auto
  let ?w5 = "remember_fd ka (nat fa) y w5"
  let ?start = "start_threads w [(Some i, send_fd_thread e ka fa), (None, after (dlsym_thread e kb name) (\<lambda>a. Finished (uint a)))]"
  let ?at = "\<lambda>v t. \<lparr>sy_world = v, sy_owner = [ChannelMutex \<mapsto> 1], sy_threads = [(Some i, Finished y), (None, t)]\<rparr>"
  let ?ready = "after (act (channel_ready e kb J fd)) (with_channel e name)"
  have tls: "h_tls w4 = None" "h_tls w5 = Some i"
    using host_fields(5) [OF f4(4)] host_fields(5) [OF f5(3)] f3(5) by simp_all
  have run: "thread_steps ?start (?at ?w5 (after (act (request_worker e x)) (\<lambda>_. ?ready)))"
    by (rule race_schedule [OF _ src(3) s1 s2 f3(7) s3 f3(5) s4 tls(1) new(3) s5 tls(2) new(4) f3(8)]) (use src(1) in simp)
  have w5: "sb_alive ?w5" "sb_worker ?w5 0 = AtLoop" "sb_proc ?w5 = sb_proc w5" "sb_chan ?w5 = sb_chan w5"
    using f5(1,2) loop(1) by (simp_all add: remember_fd_def Let_def acquire_def)
  have "pr_fds (sb_proc (?w5\<lparr>h_tls := None\<rparr>)) x = Some (HostFile n)" using f5(4) new(5) w5(3) by simp
  from spawn_foreign [OF _ _ this, of e] w5 consider
      (dies) "request_worker e x (?w5\<lparr>h_tls := None\<rparr>) = Blocks" "\<not> worker_takes e (HostFile n)"
    | (goes_on) w6 where "request_worker e x (?w5\<lparr>h_tls := None\<rparr>) = Returns ((), w6)" "sandbox.more w6 = sandbox.more (?w5\<lparr>h_tls := None\<rparr>)"
        "pr_fds (sb_proc w6) = (if worker_takes e (HostFile n) then (pr_fds (sb_proc w5))(x := None) else pr_fds (sb_proc w5))"
        "\<forall>m. m \<noteq> 0 \<longrightarrow> sb_chan w6 m = sb_chan w5 m"
    by auto
  then show ?thesis
  proof cases
    case dies
    show ?thesis
      by (rule exI, intro conjI, rule run)
        (use dies f5(4) new(5) w5(3) in \<open>auto simp: stuck_def waits_def step_thread_def after_act less_Suc_eq\<close>)
  next
    case (goes_on w6)
    have t6: "h_tls w6 = None" using host_fields(5) [OF goes_on(2)] by simp
    have "sb_chan w6 J = zero_channel" using goes_on(4) f5(5) f4(6) f3(6) i by simp
    then have block: "channel_ready e kb J fd (w6\<lparr>h_tls := None\<rparr>) = Blocks"
      by (simp add: channel_ready_def zero_channel_def)
    have "thread_step 1 (?at ?w5 (after (act (request_worker e x)) (\<lambda>_. ?ready))) (?at w6 ?ready)"
      using goes_on(1) t6 by (simp add: thread_step_iff step_thread_def after_act)
    with run have "thread_steps ?start (?at w6 ?ready)" by (rule steps_step)
    moreover have "stuck (?at w6 ?ready)" "waits (?at w6 ?ready) 1"
      using block by (auto simp: stuck_def waits_def step_thread_def after_act less_Suc_eq)
    ultimately show ?thesis
      using goes_on(3) f5(4) new(5) by (intro exI [of _ "?at w6 ?ready"]) simp
  qed
qed

theorem concurrent_send_takes_channel_witness:
  "\<exists>s. thread_steps
      (start_threads example_world [(Some 1, send_fd_thread example_env example_kernel 3),
         (None, after (dlsym_thread example_env example_kernel [102]) (\<lambda>a. Finished (uint a)))]) s \<and>
    snd (sy_threads s ! 0) = Finished 4 \<and> pr_fds (sb_proc (sy_world s)) 4 = Some (ChanShm 2) \<and> stuck s \<and>
    sy_owner s ChannelMutex = Some 1"
proof -
  have "sb_alive example_world" "sb_worker example_world 0 = AtLoop" "sb_worker example_world 1 = AtLoop"
    "1 \<noteq> h_next example_world" "h_next example_world \<noteq> 0" "sb_sock example_world = []"
    "h_fds example_world (nat 3) = Some (HostFile 0)" "pbox_lookup_fd (b_fds example_world) (nat 3) < 0"
    "e_new_fd example_env (pr_fds (sb_proc example_world)) = 3"
    "e_new_fd example_env ((pr_fds (sb_proc example_world))(3 \<mapsto> HostFile 0)) = 4" "h_next example_world = 2"
    by (simp_all add: example_world_def example_env_def empty_fd_cache_def pbox_lookup_fd_def)
  moreover have "k_ok example_kernel At_sendmsg" "\<forall>c. k_ok example_kernel c" by (simp_all add: example_kernel_def)
  ultimately show ?thesis
    using concurrent_send_takes_channel [of example_world 1 3 0 example_kernel example_kernel example_env 3 4 "[102]"] by auto
qed

section \<open>A thread that leaves\<close>

text \<open>\<open>channel_destructor\<close> unmaps the thread's arena before it takes \<open>channel_lock\<close> to remove the channel
  from the list. In between, \<open>pbox_in_idmem\<close> on another thread (the check behind \<open>verify\<close>) still accepts
  pointers into the arena, which is no longer mapped.\<close>

theorem leaving_thread_arena_accepted:
  fixes w :: "('m, 'h) world"
  assumes i: "i \<in> set (b_channels w)" and base: "idmem_base (b_tch w i) \<noteq> 0" "pbox_in_idmem [b_tch w i] p n"
    and held: "count (h_held w) (RegionMap (idmem_base (b_tch w i)) (idmem_size (b_tch w i))) = 1" "ChanMap i \<in># h_held w"
  shows "\<exists>s. thread_steps (start_threads w [(Some i, after (exit_thread e) (\<lambda>_. Finished False)), (None, in_idmem_thread p n)]) s \<and>
    snd (sy_threads s ! 1) = Finished True \<and>
    RegionMap (idmem_base (b_tch w i)) (idmem_size (b_tch w i)) \<notin># h_held (sy_world s)"
proof -
  let ?r = "RegionMap (idmem_base (b_tch w i)) (idmem_size (b_tch w i))"
  let ?v = "sandbox_run e i (pbox_set_state i PBOX_STATE_EXIT (w\<lparr>h_tls := Some i\<rparr>))"
  have "sandbox.more ?v = sandbox.more (w\<lparr>h_tls := Some i\<rparr>)" by (simp add: pbox_set_state_def)
  note f = host_fields [OF this, simplified]
  have r: "?r \<in># h_held w" using held(1) by (simp add: count_greater_zero_iff [symmetric])
  define w1 where "w1 = close_fd (nat (tc_shm_fd (b_tch w i))) (?v\<lparr>h_held := h_held w - {#?r#} - {#ChanMap i#}\<rparr>)"
  have leave: "leave_channel e i (w\<lparr>h_tls := Some i\<rparr>) = Returns ((), w1)"
    using base(1) r held(2) by (simp add: leave_channel_def release_region_def release_def close_fd_def f w1_def in_diff_count)
  have w1: "b_channels w1 = b_channels w" "b_tch w1 = b_tch w" "h_held w1 = h_held w - {#?r#} - {#ChanMap i#}"
    by (simp_all add: w1_def close_fd_def f)
  have in_list: "pbox_in_idmem (map (b_tch w) (b_channels w)) p n"
    using i base(2) by (auto simp: pbox_in_idmem_def list_ex_iff Let_def)
  have "?r \<notin># h_held w1" using held(1) by (simp add: w1(3) not_in_iff)
  then have "\<exists>s. run_schedule [0, 0, 1, 1, 1]
      (start_threads w [(Some i, after (exit_thread e) (\<lambda>_. Finished False)), (None, in_idmem_thread p n)]) = Some s \<and>
    snd (sy_threads s ! 1) = Finished True \<and> ?r \<notin># h_held (sy_world s)"
    by (simp add: start_threads_def step_thread_def exit_thread_def in_idmem_thread_def after_assoc after_act after_ask leave w1 in_list)
  then show ?thesis using run_schedule_steps by blast
qed

end
