(* ===== verification/Sections.thy ===== *)
theory Sections
  imports Threads
begin

text \<open>
  Threads whose work is a sequence of critical sections of one mutex. Whatever the interleaving,
  whenever the mutex is free the system stands where some order of whole sections, each run by
  itself, has brought it.
\<close>

section \<open>Critical sections\<close>

text \<open>
  The rest of a section: actions that keep the condition \<open>okl\<close> on the local state, then the unlock.
\<close>

inductive section_rest :: "('l \<Rightarrow> bool) \<Rightarrow> 'x \<Rightarrow> ('x, 'l, 'w, unit) thread \<Rightarrow> bool" for okl m where
  rest_end: "section_rest okl m (Unlock m (Finished ()))"
| rest_atomic: "\<forall>l w l' w' t. okl l \<longrightarrow> f l w = Returns (l', w', t) \<longrightarrow> okl l' \<and> section_rest okl m t \<Longrightarrow>
    section_rest okl m (Atomic f)"

inductive_cases rest_atomicE: "section_rest okl m (Atomic f)"
inductive_cases rest_unlockE: "section_rest okl m (Unlock m' t)"
inductive_cases rest_lockE: "section_rest okl m (Lock m' t)"
inductive_cases rest_finishedE: "section_rest okl m (Finished a)"

definition is_section :: "('l \<Rightarrow> bool) \<Rightarrow> 'x \<Rightarrow> ('x, 'l, 'w, unit) thread \<Rightarrow> bool" where
  "is_section okl m c \<longleftrightarrow> (\<exists>t. c = Lock m t \<and> section_rest okl m t)"

primrec in_sequence :: "('x, 'l, 'w, unit) thread list \<Rightarrow> ('x, 'l, 'w, unit) thread" where
  "in_sequence [] = Finished ()"
| "in_sequence (c # cs) = after c (\<lambda>_. in_sequence cs)"

text \<open>A job is a thread's local state with the sections it has ahead; \<open>serial\<close> runs whole sections, one at a time.\<close>

fun serial :: "nat list \<Rightarrow> 'w \<Rightarrow> ('l \<times> ('x, 'l, 'w, unit) thread list) list \<Rightarrow>
    ('w \<times> ('l \<times> ('x, 'l, 'w, unit) thread list) list) outcome" where
  "serial [] w js = Returns (w, js)"
| "serial (i # is) w js =
     (if i < length js then
        case js ! i of
          (l, []) \<Rightarrow> Blocks
        | (l, c # cs) \<Rightarrow> and_then (alone c l w) (\<lambda>(_, l', w'). serial is w' (js[i := (l', cs)]))
      else Blocks)"

abbreviation job_threads :: "('l \<times> ('x, 'l, 'w, unit) thread list) list \<Rightarrow> ('l \<times> ('x, 'l, 'w, unit) thread) list" where
  "job_threads \<equiv> map (\<lambda>(l, cs). (l, in_sequence cs))"

definition jobs_ok :: "('l \<Rightarrow> bool) \<Rightarrow> 'x \<Rightarrow> ('l \<times> ('x, 'l, 'w, unit) thread list) list \<Rightarrow> bool" where
  "jobs_ok okl m js \<longleftrightarrow> (\<forall>(l, cs)\<in>set js. okl l \<and> (\<forall>c\<in>set cs. is_section okl m c))"

lemma serial_snoc:
  "serial is w js = Returns (w1, js1) \<Longrightarrow> i < length js1 \<Longrightarrow> js1 ! i = (l, c # cs) \<Longrightarrow> alone c l w1 = Returns (u, l', w') \<Longrightarrow>
     serial (is @ [i]) w js = Returns (w', js1[i := (l', cs)])"
  by (induction "is" w js rule: serial.induct) (auto split: if_splits list.splits prod.splits)

lemma jobs_ok_tail: "jobs_ok okl m js \<Longrightarrow> i < length js \<Longrightarrow> js ! i = (l, c # cs) \<Longrightarrow> okl l' \<Longrightarrow> jobs_ok okl m (js[i := (l', cs)])"
  unfolding jobs_ok_def
  by (auto dest!: set_update_subset_insert [THEN subsetD] split: prod.splits) (metis nth_mem case_prodD list.set_intros(2))+

section \<open>Serialisation\<close>

text \<open>
  Some order of sections has been run (\<open>ord\<close>, ending in the world \<open>w1\<close> and the jobs \<open>js1\<close>); either the mutex
  is free and this is the state, or its owner is inside its next section, with a rest that
  leads where the whole section leads from \<open>w1\<close>.
\<close>

definition serial_state ::
  "('l \<Rightarrow> bool) \<Rightarrow> 'x \<Rightarrow> 'w \<Rightarrow> ('l \<times> ('x, 'l, 'w, unit) thread list) list \<Rightarrow> ('x, 'l, 'w, unit) system \<Rightarrow> bool" where
  "serial_state okl m w js s \<longleftrightarrow> (\<exists>ord w1 js1. serial ord w js = Returns (w1, js1) \<and> jobs_ok okl m js1 \<and>
     (sy_owner s m = None \<and> sy_world s = w1 \<and> sy_threads s = job_threads js1 \<or>
      (\<exists>i l0 c cs l t. sy_owner s m = Some i \<and> i < length js1 \<and> js1 ! i = (l0, c # cs) \<and> okl l \<and> section_rest okl m t \<and>
         alone t l (sy_world s) = alone c l0 w1 \<and>
         sy_threads s = (job_threads js1)[i := (l, after t (\<lambda>_. in_sequence cs))])))"

lemma job_head:
  assumes "jobs_ok okl m js" "i < length js" "js ! i = (l, c # cs)"
  shows "okl l \<and> (\<exists>t. c = Lock m t \<and> section_rest okl m t)"
  using assms nth_mem [OF assms(2)] unfolding jobs_ok_def is_section_def by fastforce

lemma free_step:
  assumes "thread_step i s s'" "sy_owner s m = None" "sy_threads s = job_threads js" "jobs_ok okl m js"
  obtains l c cs t where "i < length js" "js ! i = (l, c # cs)" "c = Lock m t" "section_rest okl m t" "okl l"
    "sy_world s' = sy_world s" "sy_owner s' m = Some i"
    "sy_threads s' = (job_threads js)[i := (l, after t (\<lambda>_. in_sequence cs))]"
proof -
  from step_part [OF assms(1)] assms(3) have i: "i < length js" by simp
  obtain l cs where j: "js ! i = (l, cs)" by (cases "js ! i")
  show thesis
  proof (cases cs)
    case Nil
    with assms(1,3) i j show ?thesis by (auto simp: thread_step_iff step_thread_def)
  next
    case (Cons c cs')
    with job_head [OF assms(4) i] j obtain t where "okl l" "c = Lock m t" "section_rest okl m t" by auto
    with that [OF i] j Cons assms(1-3) i show ?thesis
      by (auto simp: thread_step_iff step_thread_def split: if_splits)
  qed
qed

lemma others_wait:
  assumes "sy_owner s m = Some j" "sy_threads s = (job_threads js)[j := p]" "jobs_ok okl m js" "i \<noteq> j"
  shows "\<not> thread_step i s s'"
proof
  assume st: "thread_step i s s'"
  from step_part [OF st] assms(2) have i: "i < length js" by simp
  obtain l cs where j: "js ! i = (l, cs)" by (cases "js ! i")
  with st assms job_head [OF assms(3) i] i show False
    by (cases cs) (auto simp: thread_step_iff step_thread_def)
qed

lemma step_serial:
  assumes st: "thread_step i s s'" and ok: "serial_state okl m w js s"
  shows "serial_state okl m w js s'"
proof -
  from ok obtain ord w1 js1 where ser: "serial ord w js = Returns (w1, js1)" and jok: "jobs_ok okl m js1"
    and cases: "sy_owner s m = None \<and> sy_world s = w1 \<and> sy_threads s = job_threads js1 \<or>
      (\<exists>i l0 c cs l t. sy_owner s m = Some i \<and> i < length js1 \<and> js1 ! i = (l0, c # cs) \<and> okl l \<and> section_rest okl m t \<and>
         alone t l (sy_world s) = alone c l0 w1 \<and>
         sy_threads s = (job_threads js1)[i := (l, after t (\<lambda>_. in_sequence cs))])"
    unfolding serial_state_def by blast
  from cases show ?thesis
  proof (elim disjE exE conjE)
    assume free: "sy_owner s m = None" "sy_world s = w1" "sy_threads s = job_threads js1"
    from free_step [OF st free(1,3) jok] obtain l c cs t where *: "i < length js1" "js1 ! i = (l, c # cs)" "c = Lock m t"
      "section_rest okl m t" "okl l" "sy_world s' = sy_world s" "sy_owner s' m = Some i"
      "sy_threads s' = (job_threads js1)[i := (l, after t (\<lambda>_. in_sequence cs))]" by metis
    then have "alone t l (sy_world s') = alone c l w1" using free(2) by simp
    with * ser jok show ?thesis unfolding serial_state_def by blast
  next
    fix j l0 c cs l t
    assume own: "sy_owner s m = Some j" and j: "j < length js1" "js1 ! j = (l0, c # cs)" and l: "okl l"
      and rest: "section_rest okl m t" and al: "alone t l (sy_world s) = alone c l0 w1"
      and ts: "sy_threads s = (job_threads js1)[j := (l, after t (\<lambda>_. in_sequence cs))]"
    from others_wait [OF own ts jok] st have ij: "i = j" by blast
    from rest show ?thesis
    proof cases
      case rest_end
      with st own j ts ij have s': "sy_owner s' m = None" "sy_world s' = sy_world s"
        "sy_threads s' = (job_threads js1)[j := (l, in_sequence cs)]"
        by (auto simp: thread_step_iff step_thread_def split: if_splits)
      have "serial (ord @ [j]) w js = Returns (sy_world s', js1[j := (l, cs)])"
        using serial_snoc [OF ser j] al rest_end s'(2) by simp
      moreover have "sy_threads s' = job_threads (js1[j := (l, cs)])" by (simp add: s'(3) map_update)
      ultimately show ?thesis
        unfolding serial_state_def using s'(1) jobs_ok_tail [OF jok j l] by blast
    next
      case (rest_atomic f)
      from st own j ts ij rest_atomic(1) obtain l' w' t' where f: "f l (sy_world s) = Returns (l', w', t')"
        and s': "sy_owner s' = sy_owner s" "sy_world s' = w'"
          "sy_threads s' = (job_threads js1)[j := (l', after t' (\<lambda>_. in_sequence cs))]"
        by (auto simp: thread_step_iff step_thread_def split: outcome.splits)
      from rest_atomic(2) f l have "okl l'" "section_rest okl m t'" by auto
      moreover have "alone t' l' (sy_world s') = alone c l0 w1" using al f s'(2) rest_atomic(1) by (simp add: alone_Atomic)
      ultimately show ?thesis
        unfolding serial_state_def using ser jok own s' j by metis
    qed
  qed
qed

lemma sections_serialise:
  assumes "thread_steps (start_threads w (job_threads js)) s" "jobs_ok okl m js"
  shows "serial_state okl m w js s"
proof -
  have "serial_state okl m w js (start_threads w (job_threads js))"
    unfolding serial_state_def
    by (rule exI [of _ "[]"], rule exI [of _ w], rule exI [of _ js]) (simp add: assms(2) start_threads_def)
  with assms(1) show ?thesis
    by (induction "start_threads w (job_threads js)" s rule: thread_steps.induct) (auto intro: step_serial)
qed

text \<open>When the mutex is free, the state is that of a serial run.\<close>

lemma serial_when_free:
  assumes "thread_steps (start_threads w (job_threads js)) s" "jobs_ok okl m js" "sy_owner s m = None"
  obtains ord js1 where "serial ord w js = Returns (sy_world s, js1)" "sy_threads s = job_threads js1"
  using sections_serialise [OF assms(1,2)] assms(3) unfolding serial_state_def by auto

text \<open>When every section returns, a run stops only when all sections have been run.\<close>

lemma serial_complete:
  assumes run: "thread_steps (start_threads w (job_threads js)) s" and jok: "jobs_ok okl m js" and st: "stuck s"
    and total: "\<And>ord w1 js1 i l c cs. serial ord w js = Returns (w1, js1) \<Longrightarrow> i < length js1 \<Longrightarrow> js1 ! i = (l, c # cs) \<Longrightarrow>
      \<exists>r. alone c l w1 = Returns r"
  shows "\<exists>ord js1. serial ord w js = Returns (sy_world s, js1) \<and> sy_threads s = job_threads js1 \<and> (\<forall>(l, cs)\<in>set js1. cs = [])"
proof -
  from sections_serialise [OF run jok] obtain ord w1 js1 where ser: "serial ord w js = Returns (w1, js1)" and ok1: "jobs_ok okl m js1"
    and cases: "sy_owner s m = None \<and> sy_world s = w1 \<and> sy_threads s = job_threads js1 \<or>
      (\<exists>i l0 c cs l t. sy_owner s m = Some i \<and> i < length js1 \<and> js1 ! i = (l0, c # cs) \<and> okl l \<and> section_rest okl m t \<and>
         alone t l (sy_world s) = alone c l0 w1 \<and>
         sy_threads s = (job_threads js1)[i := (l, after t (\<lambda>_. in_sequence cs))])"
    unfolding serial_state_def by blast
  from cases show ?thesis
  proof (elim disjE exE conjE)
    assume free: "sy_owner s m = None" "sy_world s = w1" "sy_threads s = job_threads js1"
    have "cs = []" if "i < length js1" "js1 ! i = (l, cs)" for i l cs
    proof (rule ccontr)
      assume "cs \<noteq> []"
      with that obtain c cs' where j: "js1 ! i = (l, c # cs')" by (cases cs) auto
      from job_head [OF ok1 that(1) j] obtain t where "c = Lock m t" by blast
      with j that(1) free st show False by (auto simp: stuck_def step_thread_def)
    qed
    then have "\<forall>(l, cs)\<in>set js1. cs = []" by (auto simp: in_set_conv_nth)
    with ser free show ?thesis by blast
  next
    fix i l0 c cs l t
    assume own: "sy_owner s m = Some i" and i: "i < length js1" "js1 ! i = (l0, c # cs)" and rest: "section_rest okl m t"
      and al: "alone t l (sy_world s) = alone c l0 w1" and ts: "sy_threads s = (job_threads js1)[i := (l, after t (\<lambda>_. in_sequence cs))]"
    obtain r where r: "alone t l (sy_world s) = Returns r" using total [OF ser i] al by auto
    from rest have "step_thread i s \<noteq> None"
      by cases (use r own i ts in \<open>auto simp: step_thread_def alone_Atomic\<close>)
    with st i(1) ts show ?thesis by (auto simp: stuck_def)
  qed
qed

end
