(* ===== verification/SerialSends.thy ===== *)
theory SerialSends
  imports Sections Interleaving
begin

text \<open>
  Threads that already have their channels and send descriptors: \<open>pbox_send_fd\<close> is then one critical
  section of \<open>fd_lock\<close>, so the calls are serialised, every run can be finished, and each descriptor
  arrives. (\<open>Interleaving\<close> shows what the first use of the box by another thread does to this.)
\<close>

section \<open>A send is a section\<close>

type_synonym send_job = "nat \<times> (kernel \<times> nat) list"

definition send_section :: "'m sandbox_env \<Rightarrow> kernel \<times> nat \<Rightarrow> ('m, 'h, unit) box_thread" where
  "send_section e s = discard (send_fd_thread e (fst s) (int (snd s)))"

text \<open>The thread with channel \<open>i\<close> that sends the descriptors of a list one after the other.\<close>

definition send_jobs :: "'m sandbox_env \<Rightarrow> send_job list \<Rightarrow> (nat option \<times> ('m, 'h, unit) box_thread list) list" where
  "send_jobs e js = map (\<lambda>(i, fds). (Some i, map (send_section e) fds)) js"

definition has_channel :: "nat option \<Rightarrow> bool" where
  "has_channel l \<longleftrightarrow> l \<noteq> None"

lemma rest_act:
  assumes "\<And>w a w'. has_channel (h_tls w) \<Longrightarrow> f w = Returns (a, w') \<Longrightarrow> has_channel (h_tls w') \<and> section_rest has_channel m (g a)"
  shows "section_rest has_channel m (after (act f) g)"
  unfolding after_act
proof (intro section_rest.rest_atomic allI impI)
  fix l w l' w' t
  assume "has_channel l" "and_then (f (w\<lparr>h_tls := l\<rparr>)) (\<lambda>(a, w'). Returns (h_tls w', w', g a)) = Returns (l', w', t)"
  with assms [of "w\<lparr>h_tls := l\<rparr>"] show "has_channel l' \<and> section_rest has_channel m t" by auto
qed

lemma recv_tls: "request_recv_fd e i w = Returns (a, w') \<Longrightarrow> h_tls w' = h_tls w"
  using exchange_more [THEN host_fields(5)] by (fastforce simp: request_recv_fd_def)

lemma sendmsg_tls: "sendmsg_fd k fd w = Returns (a, w') \<Longrightarrow> h_tls w' = h_tls w"
  by (auto simp: sendmsg_fd_def split: option.splits if_splits)

lemma rest_ask:
  "(\<And>w. has_channel (h_tls w) \<Longrightarrow> section_rest has_channel m (g (f w))) \<Longrightarrow> section_rest has_channel m (after (ask f) g)"
  unfolding ask_def by (rule rest_act) auto

text \<open>A thread with a channel does not create one, so it takes no other mutex.\<close>

lemma rest_get_or_create:
  "(\<And>i. section_rest has_channel m (g (Some i))) \<Longrightarrow> section_rest has_channel m (after (get_or_create_thread e k) g)"
  unfolding get_or_create_thread_def after_assoc by (rule rest_ask) (auto simp: has_channel_def split: option.splits)

lemma rest_send_fd_on:
  assumes "\<And>x. section_rest has_channel m (g x)"
  shows "section_rest has_channel m (after (send_fd_on_thread e k i fd) g)"
proof -
  have "section_rest has_channel m (after (act (request_recv_fd e i)) g)"
    by (rule rest_act) (auto simp: assms dest: recv_tls)
  then show ?thesis
    unfolding send_fd_on_thread_def after_assoc by (intro rest_act) (auto simp: assms dest: sendmsg_tls)
qed

lemma send_section_ok: "is_section has_channel FdMutex (send_section e s)"
proof -
  obtain k fd where s: "s = (k, fd)" by (cases s)
  have cache: "section_rest has_channel FdMutex (after (act (\<lambda>w. Returns ((), if x \<ge> 0 then remember_fd k (nat (int fd)) x w else w)))
      (\<lambda>_. Unlock FdMutex (Finished ())))" for x
    by (rule rest_act) (auto simp: remember_fd_host intro: section_rest.rest_end)
  have rest: "section_rest has_channel FdMutex (after (ask (\<lambda>w. pbox_lookup_fd (b_fds w) (nat (int fd)))) (\<lambda>cached. after
      (if cached \<ge> 0 then Unlock FdMutex (Finished cached)
       else after (get_or_create_thread e k) (\<lambda>c. case c of
          None \<Rightarrow> Unlock FdMutex (Finished (- 1))
        | Some i \<Rightarrow> after (send_fd_on_thread e k i (nat (int fd))) (\<lambda>x.
            after (act (\<lambda>w. Returns ((), if x \<ge> 0 then remember_fd k (nat (int fd)) x w else w))) (\<lambda>_. Unlock FdMutex (Finished x)))))
      (\<lambda>_. Finished ())))"
    by (intro rest_ask) (simp add: section_rest.rest_end after_assoc rest_get_or_create rest_send_fd_on cache)
  then show ?thesis
    unfolding s send_section_def fst_conv snd_conv discard_def is_section_def send_fd_thread_def
    by (simp add: after_assoc)
qed

lemma jobs_sections: "jobs_ok has_channel FdMutex (send_jobs e js)"
  by (auto simp: jobs_ok_def send_jobs_def send_section_ok has_channel_def)

text \<open>What a section does by itself: the call, on the thread's channel.\<close>

lemma alone_section:
  "alone (send_section e (k, fd)) l w =
     and_then (pbox_send_fd e k (int fd) (w\<lparr>h_tls := l\<rparr>)) (\<lambda>(x, w'). Returns ((), h_tls w', w'))"
proof -
  have "alone (send_fd_thread e k (int fd)) l w = alone (send_fd_thread e k (int fd)) l (w\<lparr>h_tls := l\<rparr>)"
    by (simp add: send_fd_thread_def after_ask alone_Atomic)
  also have "\<dots> = and_then (pbox_send_fd e k (int fd) (w\<lparr>h_tls := l\<rparr>)) (\<lambda>(x, w'). Returns (x, h_tls w', w'))"
    using spec [OF send_fd_alone [of e k "int fd", unfolded runs_as_def], of "w\<lparr>h_tls := l\<rparr>"] by simp
  finally show ?thesis by (simp add: send_section_def discard_def alone_after and_then_assoc split_def)
qed

section \<open>One send\<close>

text \<open>
  The socket is empty between two calls, and every entry of the cache names, in the sandbox, the file
  that the host's descriptor names.
\<close>

definition sends_ready :: "('m, 'h) world \<Rightarrow> bool" where
  "sends_ready w \<longleftrightarrow> sb_alive w \<and> sb_sock w = [] \<and> fd_cache_wf (b_fds w) \<and> finite (dom (pr_fds (sb_proc w))) \<and>
     (\<forall>h s. fd_map (b_fds w) h = Some s \<longrightarrow> h_fds w h \<noteq> None \<and> pr_fds (sb_proc w) s = h_fds w h)"

text \<open>The sandbox's kernel gives out free, non-negative numbers.\<close>

definition fresh_fds :: "'m sandbox_env \<Rightarrow> bool" where
  "fresh_fds e \<longleftrightarrow> (\<forall>fds. finite (dom fds) \<longrightarrow> 0 \<le> e_new_fd e fds \<and> fds (e_new_fd e fds) = None)"

lemma send_on_channel:
  "h_fds w fd = Some f \<Longrightarrow> k_ok k At_sendmsg \<Longrightarrow> sb_alive w \<Longrightarrow>
     pbox_send_fd_on_channel e k i fd w = request_recv_fd e i (w\<lparr>sb_sock := sb_sock w @ [f]\<rparr>)"
  by (simp add: pbox_send_fd_on_channel_def request_recv_fd_def)

lemma remember_maps:
  assumes "fd_cache_wf (b_fds w)" "fd_map (b_fds w) fd = None" "0 \<le> s" "k_ok k At_realloc_fds"
  shows "fd_cache_wf (b_fds (remember_fd k fd s w))" "fd_map (b_fds (remember_fd k fd s w)) = (fd_map (b_fds w))(fd \<mapsto> s)"
    "sb_sock (remember_fd k fd s w) = sb_sock w" "sb_proc (remember_fd k fd s w) = sb_proc w"
    "sb_worker (remember_fd k fd s w) = sb_worker w" "h_fds (remember_fd k fd s w) = h_fds w"
  using fds.wf_add [OF assms(1-3)] fds.look_add [OF assms(1-3), of True] assms(4)
  by (auto simp: remember_fd_def Let_def acquire_def)

lemma send_once:
  assumes ready: "sends_ready w" and tls: "h_tls w = Some i" "sb_worker w i = AtLoop" and src: "h_fds w fd = Some f"
    and ok: "k_ok k At_sendmsg" "k_ok k At_realloc_fds" and fresh: "fresh_fds e"
  shows "\<exists>s w'. pbox_send_fd e k (int fd) w = Returns (s, w') \<and> sends_ready w' \<and> h_fds w' = h_fds w \<and> h_tls w' = Some i \<and>
    sb_worker w' = sb_worker w \<and> fd_map (b_fds w') fd = Some s \<and> fd_map (b_fds w) \<subseteq>\<^sub>m fd_map (b_fds w')"
proof (cases "fd_map (b_fds w) fd")
  case (Some s)
  then have "pbox_send_fd e k (int fd) w = Returns (s, w)"
    by (auto simp: pbox_send_fd_def fd_map_def split: if_splits)
  with Some assms show ?thesis by auto
next
  case None
  let ?n = "e_new_fd e (pr_fds (sb_proc w))" and ?v = "w\<lparr>sb_sock := [f]\<rparr>"
  from ready have r: "sb_alive w" "sb_sock w = []" "fd_cache_wf (b_fds w)" "finite (dom (pr_fds (sb_proc w)))"
    and names: "\<And>h s. fd_map (b_fds w) h = Some s \<Longrightarrow> h_fds w h \<noteq> None \<and> pr_fds (sb_proc w) s = h_fds w h"
    by (simp_all add: sends_ready_def)
  have n: "0 \<le> ?n" "pr_fds (sb_proc w) ?n = None" using fresh r(4) by (simp_all add: fresh_fds_def)
  have "\<exists>w'. request_recv_fd e i ?v = Returns (?n, w') \<and> sb_alive w' \<and> sb_worker w' = sb_worker ?v \<and> sb_sock w' = [] \<and>
      sandbox.more w' = sandbox.more ?v \<and> pr_fds (sb_proc w') = (pr_fds (sb_proc ?v))(?n \<mapsto> f) \<and>
      (\<forall>m. m \<noteq> i \<longrightarrow> sb_chan w' m = sb_chan ?v m)"
    by (rule recv_takes) (use r tls n in simp_all)
  then obtain v where v: "request_recv_fd e i ?v = Returns (?n, v)" "sb_alive v" "sb_worker v = sb_worker w" "sb_sock v = []"
    "pr_fds (sb_proc v) = (pr_fds (sb_proc w))(?n \<mapsto> f)" and more: "sandbox.more v = sandbox.more ?v" by auto
  note h = host_fields [OF more, simplified]
  let ?w' = "remember_fd k fd ?n v"
  have "pbox_lookup_fd (b_fds w) fd < 0" using None by (auto simp: fd_map_def split: if_splits)
  then have "pbox_send_fd e k (int fd) w = Returns (?n, ?w')"
    using send_on_channel [OF src ok(1) r(1), of e i] v(1) n(1) tls(1) r(2)
    by (simp add: pbox_send_fd_def get_or_create_channel_def)
  moreover have "fd_cache_wf (b_fds v)" "fd_map (b_fds v) fd = None" using r(3) None by (simp_all add: h)
  note rm = remember_maps [OF this n(1) ok(2)]
  have "sends_ready ?w'"
    using v(2,4,5) rm src names n(2) r(4) by (fastforce simp: sends_ready_def remember_fd_host h)
  moreover have "fd_map (b_fds w) \<subseteq>\<^sub>m fd_map (b_fds ?w')" using None by (auto simp: rm(2) h map_le_def)
  ultimately show ?thesis using rm v(3) tls(1) by (simp add: remember_fd_host h)
qed

section \<open>Many sends\<close>

definition sendable :: "('m, 'h) world \<Rightarrow> send_job list \<Rightarrow> bool" where
  "sendable w js \<longleftrightarrow> (\<forall>(i, fds)\<in>set js. sb_worker w i = AtLoop \<and>
     (\<forall>(k, fd)\<in>set fds. k_ok k At_sendmsg \<and> k_ok k At_realloc_fds \<and> h_fds w fd \<noteq> None))"

definition sent :: "('m, 'h) world \<Rightarrow> kernel \<times> nat \<Rightarrow> bool" where
  "sent w s \<longleftrightarrow> fd_map (b_fds w) (snd s) \<noteq> None"

text \<open>\<open>rest\<close> is what is left of the jobs \<open>js\<close> when the sends before it are done.\<close>

definition progress :: "('m, 'h) world \<Rightarrow> send_job list \<Rightarrow> send_job list \<Rightarrow> bool" where
  "progress w js rest \<longleftrightarrow> length rest = length js \<and>
     (\<forall>i<length js. fst (rest ! i) = fst (js ! i) \<and>
        (\<exists>before. snd (js ! i) = before @ snd (rest ! i) \<and> (\<forall>s\<in>set before. sent w s)))"

lemma sent_mono: "sent w s \<Longrightarrow> fd_map (b_fds w) \<subseteq>\<^sub>m fd_map (b_fds w') \<Longrightarrow> sent w' s"
  by (auto simp: sent_def map_le_def dom_def)

lemma progress_step:
  fixes w w' :: "('m, 'h) world"
  assumes "progress w js rest" "i < length rest" "rest ! i = (c, s # ss)" "sent w' s" "fd_map (b_fds w) \<subseteq>\<^sub>m fd_map (b_fds w')"
  shows "progress w' js (rest[i := (c, ss)])"
  unfolding progress_def
proof (intro conjI allI impI)
  show "length (rest[i := (c, ss)]) = length js" using assms(1) by (simp add: progress_def)
  fix n assume n: "n < length js"
  from assms(1) n obtain before where b: "snd (js ! n) = before @ snd (rest ! n)" "\<forall>s\<in>set before. sent w s"
    and f: "fst (rest ! n) = fst (js ! n)" by (auto simp: progress_def)
  show "fst (rest[i := (c, ss)] ! n) = fst (js ! n)" using f assms(2,3) by (cases "n = i") auto
  show "\<exists>before. snd (js ! n) = before @ snd (rest[i := (c, ss)] ! n) \<and> (\<forall>s\<in>set before. sent w' s)"
  proof (cases "n = i")
    case True
    have "snd (js ! n) = (before @ [s]) @ snd (rest[i := (c, ss)] ! n)" "\<forall>s\<in>set (before @ [s]). sent w' s"
      using b assms(2-5) True by (auto intro: sent_mono)
    then show ?thesis by blast
  next
    case False
    then show ?thesis using b assms(5) by (auto intro: sent_mono)
  qed
qed

lemma sendable_tail:
  fixes w w' :: "('m, 'h) world"
  assumes "sendable w js" "i < length js" "js ! i = (c, s # ss)" "h_fds w' = h_fds w" "sb_worker w' = sb_worker w"
  shows "sendable w' (js[i := (c, ss)])"
  unfolding sendable_def
proof (intro ballI)
  fix p assume "p \<in> set (js[i := (c, ss)])"
  then have "p = (c, ss) \<or> p \<in> set js" using set_update_subset_insert [of js i "(c, ss)"] by blast
  moreover have "(c, s # ss) \<in> set js" using assms(2,3) by (metis nth_mem)
  ultimately have "\<exists>fds. (fst p, fds) \<in> set js \<and> set (snd p) \<subseteq> set fds"
    by (elim disjE) (auto intro: exI [of _ "s # ss"] exI [of _ "snd p"])
  then obtain fds where "(fst p, fds) \<in> set js" "set (snd p) \<subseteq> set fds" by blast
  with assms(1,4,5) show "case p of (i, fds) \<Rightarrow> sb_worker w' i = AtLoop \<and>
      (\<forall>(k, fd)\<in>set fds. k_ok k At_sendmsg \<and> k_ok k At_realloc_fds \<and> h_fds w' fd \<noteq> None)"
    by (cases p) (fastforce simp: sendable_def)
qed

lemma serial_sends:
  fixes w :: "('m, 'h) world"
  assumes "serial ord w (send_jobs e rest) = Returns (w1, js1)" "sends_ready w" "sendable w rest" "progress w js rest" "fresh_fds e"
  shows "\<exists>rest1. js1 = send_jobs e rest1 \<and> sends_ready w1 \<and> sendable w1 rest1 \<and> progress w1 js rest1 \<and> h_fds w1 = h_fds w"
  using assms
proof (induction ord arbitrary: w rest)
  case Nil
  then show ?case by auto
next
  case (Cons i ord)
  obtain c fds where c: "rest ! i = (c, fds)" by (cases "rest ! i")
  from Cons.prems(1) have i: "i < length rest" by (auto simp: send_jobs_def split: if_splits)
  show ?case
  proof (cases fds)
    case Nil
    with Cons.prems(1) i c show ?thesis by (simp add: send_jobs_def)
  next
    case fds: (Cons s ss)
    obtain k fd where s: "s = (k, fd)" by (cases s)
    let ?w = "w\<lparr>h_tls := Some c\<rparr>"
    from Cons.prems(3) nth_mem [OF i] c fds s obtain f where able: "sb_worker ?w c = AtLoop" "k_ok k At_sendmsg" "k_ok k At_realloc_fds"
      "h_fds ?w fd = Some f" by (fastforce simp: sendable_def)
    have "sends_ready ?w" using Cons.prems(2) by (simp add: sends_ready_def)
    from send_once [OF this _ able(1,4,2,3) Cons.prems(5)] obtain x w' where
      call: "pbox_send_fd e k (int fd) ?w = Returns (x, w')" and w': "sends_ready w'" "h_fds w' = h_fds w" "h_tls w' = Some c"
        "sb_worker w' = sb_worker w" "fd_map (b_fds w') fd = Some x" "fd_map (b_fds w) \<subseteq>\<^sub>m fd_map (b_fds w')" by auto
    let ?rest = "rest[i := (c, ss)]"
    have jobs: "(send_jobs e rest)[i := (Some c, map (send_section e) ss)] = send_jobs e ?rest"
      by (simp add: send_jobs_def map_update)
    have "serial ord w' (send_jobs e ?rest) = Returns (w1, js1)"
      using Cons.prems(1) i c fds call w'(3)
      by (simp add: send_jobs_def s alone_section jobs [unfolded send_jobs_def, symmetric])
    moreover have "sendable w' ?rest"
      using sendable_tail [OF Cons.prems(3) i] c fds w'(2,4) by simp
    moreover have "progress w' js ?rest"
      using progress_step [OF Cons.prems(4) i] c fds w'(5,6) s by (simp add: sent_def)
    ultimately show ?thesis using Cons.IH [of w' ?rest] w'(1,2) Cons.prems(5) by auto
  qed
qed

text \<open>Each call returns, in every state that a serial run can reach.\<close>

lemma sends_total:
  fixes w :: "('m, 'h) world"
  assumes "sends_ready w" "sendable w js" "fresh_fds e"
    and "serial ord w (send_jobs e js) = Returns (w1, js1)" "i < length js1" "js1 ! i = (l, c # cs)"
  shows "\<exists>r. alone c l w1 = Returns r"
proof -
  have "progress w js js" by (simp add: progress_def)
  from serial_sends [OF assms(4,1,2) this assms(3)] obtain rest where rest: "js1 = send_jobs e rest" "sends_ready w1" "sendable w1 rest"
    by blast
  obtain ch fds where r: "rest ! i = (ch, fds)" by (cases "rest ! i")
  with rest(1) assms(5,6) obtain k fd ss where s: "fds = (k, fd) # ss" "l = Some ch" "c = send_section e (k, fd)"
    by (auto simp: send_jobs_def)
  let ?w = "w1\<lparr>h_tls := Some ch\<rparr>"
  have "(ch, (k, fd) # ss) \<in> set rest" using rest(1) assms(5) r s(1) by (metis length_map nth_mem send_jobs_def)
  with rest(3) obtain f where "sb_worker ?w ch = AtLoop" "k_ok k At_sendmsg" "k_ok k At_realloc_fds" "h_fds ?w fd = Some f"
    by (fastforce simp: sendable_def)
  moreover have "sends_ready ?w" using rest(2) by (simp add: sends_ready_def)
  ultimately obtain x w' where "pbox_send_fd e k (int fd) ?w = Returns (x, w')"
    using send_once [of ?w ch fd f k e] assms(3) by auto
  then show ?thesis by (simp add: s alone_section)
qed

text \<open>C18: threads that have their channels send their descriptors correctly under every interleaving: a run can always
  be continued until all calls have returned, and then the sandbox has, for every descriptor sent, a
  descriptor of the same file, under the number that the cache gives for it.\<close>

theorem concurrent_sends_delivered:
  fixes w :: "('m, 'h) world"
  assumes "sends_ready w" "sendable w js" "fresh_fds e"
    and "thread_steps (start_threads w (job_threads (send_jobs e js))) s" "stuck s"
  shows "(\<forall>i<length (sy_threads s). finished (snd (sy_threads s ! i))) \<and>
    (\<forall>(i, fds)\<in>set js. \<forall>(k, fd)\<in>set fds. \<exists>n. fd_map (b_fds (sy_world s)) fd = Some n \<and>
       pr_fds (sb_proc (sy_world s)) n = h_fds w fd \<and> h_fds w fd \<noteq> None)"
proof -
  have "\<exists>ord js1. serial ord w (send_jobs e js) = Returns (sy_world s, js1) \<and> sy_threads s = job_threads js1 \<and>
      (\<forall>(l, cs)\<in>set js1. cs = [])"
    by (rule serial_complete [OF assms(4) jobs_sections assms(5)]) (rule sends_total [OF assms(1-3)])
  then obtain ord js1 where ser: "serial ord w (send_jobs e js) = Returns (sy_world s, js1)" and ts: "sy_threads s = job_threads js1"
    and nil: "\<forall>(l, cs)\<in>set js1. cs = []"
    by blast
  have "progress w js js" by (simp add: progress_def)
  from serial_sends [OF ser assms(1,2) this assms(3)] obtain rest where rest: "js1 = send_jobs e rest" "sends_ready (sy_world s)"
    "progress (sy_world s) js rest" "h_fds (sy_world s) = h_fds w" by blast
  have "finished (snd (sy_threads s ! i))" if "i < length (sy_threads s)" for i
  proof -
    obtain l cs where "js1 ! i = (l, cs)" by (cases "js1 ! i")
    moreover from this have "cs = []" using nil that ts nth_mem [of i js1] by fastforce
    ultimately show ?thesis using that ts by (simp add: finished_def)
  qed
  moreover have "sent (sy_world s) x" if j: "(i, fds) \<in> set js" "x \<in> set fds" for i fds x
  proof -
    from j obtain n where n: "n < length js" "js ! n = (i, fds)" by (auto simp: in_set_conv_nth)
    have "snd (rest ! n) = []"
      using nil n(1) rest(1,3) by (auto simp: send_jobs_def progress_def prod_eq_iff dest!: bspec [OF _ nth_mem [of n rest]] split: prod.splits)
    with rest(3) n j(2) show ?thesis by (fastforce simp: progress_def)
  qed
  ultimately show ?thesis
    using rest(2,4) by (fastforce simp: sent_def sends_ready_def)
qed

definition fresh_env :: "unit sandbox_env" where
  "fresh_env = example_env\<lparr>e_new_fd := (\<lambda>fds. int (LEAST n. fds (int n) = None))\<rparr>"

lemma fresh_env_ok: "fresh_fds fresh_env"
proof -
  have "fds (int (LEAST n. fds (int n) = None)) = None" if "finite (dom fds)" for fds :: "int \<Rightarrow> open_file option"
  proof -
    have "\<not> range int \<subseteq> dom fds" using that finite_subset [of "range int"] by (auto simp: finite_image_iff inj_on_def)
    then have "\<exists>n. fds (int n) = None" by auto
    then show ?thesis by (rule LeastI_ex)
  qed
  then show ?thesis by (simp add: fresh_fds_def fresh_env_def)
qed

definition two_senders :: "(unit, nat) world" where
  "two_senders = example_world\<lparr>sb_worker := (\<lambda>_. AtLoop)\<rparr>"

theorem concurrent_sends_delivered_witness:
  "\<exists>s. thread_steps (start_threads two_senders
       (job_threads (send_jobs fresh_env [(1, [(example_kernel, 3), (example_kernel, 4)]), (2, [(example_kernel, 4)])]))) s \<and>
     (\<exists>n. fd_map (b_fds (sy_world s)) 4 = Some n \<and> pr_fds (sb_proc (sy_world s)) n = Some (HostFile 1))"
proof -
  let ?js = "[(1, [(example_kernel, 3), (example_kernel, 4)]), (2, [(example_kernel, 4)])]"
  have ready: "sends_ready two_senders"
    by (simp add: sends_ready_def two_senders_def example_world_def)
  have able: "sendable two_senders ?js"
    by (simp add: sendable_def two_senders_def example_world_def example_kernel_def)
  have src: "h_fds two_senders 4 = Some (HostFile 1)" by (simp add: two_senders_def example_world_def)
  obtain s where s: "thread_steps (start_threads two_senders (job_threads (send_jobs fresh_env ?js))) s" "stuck s"
    using runs_to_stuck by blast
  from concurrent_sends_delivered [OF ready able fresh_env_ok s] src s(1) show ?thesis by auto
qed

end
