(* ===== verification/Backends.thy ===== *)
theory Backends
  imports Lfi Passthrough
begin

text \<open>
  The three backends behind one interface. The public promise of \<open>Sandbox<Backend>\<close> (\<open>README.md\<close>,
  \<open>include/sbox/sbox.hh\<close>) is that a program can change its backend and keep its calls. A host program
  is a tree of typed calls, each of which may depend on the results before it; a library is a function
  on the words that the calling convention delivers, with a state of its own. The process backend sends
  the arguments through a channel, the LFI backend writes them into the registers of a context and
  the passthrough backend calls the function: the program computes the same result with each of them.
\<close>

section \<open>Programs of calls\<close>

datatype 'r client =
    Answer 'r
  | CallLib u64 "(cxx_type \<times> byte list) list" "byte list option \<Rightarrow> 'r client"

primrec run_client ::
  "(u64 \<Rightarrow> (cxx_type \<times> byte list) list \<Rightarrow> 'w \<Rightarrow> (byte list option \<times> 'w) outcome) \<Rightarrow> 'r client \<Rightarrow> 'w \<Rightarrow> ('r \<times> 'w) outcome" where
  "run_client call (Answer r) w = Returns (r, w)"
| "run_client call (CallLib n xs c) w = and_then (call n xs w) (\<lambda>(b, w1). run_client call (c b) w1)"

text \<open>
  What an implementation of calls promises: in a ready state, a call that the specification answers
  returns its answer, given enough turns of the wait, and leaves a ready state over the specified
  state of the library.
\<close>

locale call_backend =
  fixes call :: "nat \<Rightarrow> u64 \<Rightarrow> (cxx_type \<times> byte list) list \<Rightarrow> 'w \<Rightarrow> (byte list option \<times> 'w) outcome"
    and spec :: "u64 \<Rightarrow> (cxx_type \<times> byte list) list \<Rightarrow> 'm \<Rightarrow> (byte list option \<times> 'm) outcome"
    and ready :: "'w \<Rightarrow> bool"
    and library_state :: "'w \<Rightarrow> 'm"
  assumes call_spec: "ready w \<Longrightarrow> spec n xs (library_state w) = Returns (r, m) \<Longrightarrow>
    \<exists>w1 turns. ready w1 \<and> library_state w1 = m \<and> (\<forall>k\<ge>turns. call k n xs w = Returns (r, w1))"
begin

lemma run_client_spec:
  "ready w \<Longrightarrow> run_client spec c (library_state w) = Returns (r, m) \<Longrightarrow>
   \<exists>w1 turns. ready w1 \<and> library_state w1 = m \<and> (\<forall>k\<ge>turns. run_client (call k) c w = Returns (r, w1))"
proof (induction c arbitrary: w)
  case (CallLib n xs c)
  then obtain b m1 where step: "spec n xs (library_state w) = Returns (b, m1)" and rest: "run_client spec (c b) m1 = Returns (r, m)"
    by auto
  obtain w1 t1 where w1: "ready w1" "library_state w1 = m1" "\<And>k. t1 \<le> k \<Longrightarrow> call k n xs w = Returns (b, w1)"
    using call_spec [OF CallLib.prems(1) step] by blast
  obtain w2 t2 where w2: "ready w2" "library_state w2 = m" "\<And>k. t2 \<le> k \<Longrightarrow> run_client (call k) (c b) w1 = Returns (r, w2)"
    using CallLib.IH [OF _ w1(1), of "c b"] rest w1(2) by blast
  show ?case using w1(3) w2 by (intro exI [of _ w2] exI [of _ "max t1 t2"]) simp
qed auto

end

section \<open>The library\<close>

text \<open>
  The library in one model for all backends: the function behind a name gets one word for each
  argument and answers the two return registers. \<open>sig\<close> are the signatures the program declares. A call
  that does not compile, or whose signature the program does not know, is \<open>Aborts\<close>.
\<close>

type_synonym 'm library = "u64 \<Rightarrow> u64 list \<Rightarrow> 'm \<Rightarrow> DyfnCallResult \<times> 'm"

type_synonym signatures = "u64 \<Rightarrow> (cxx_type \<times> cxx_type list) option"

definition returned :: "cxx_type \<Rightarrow> DyfnCallResult \<Rightarrow> byte list option" where
  "returned ret r = (if ret = CVoid then None else Some (call_result (pbox_type_v ret) r))"

definition library_call ::
  "bool \<Rightarrow> (cxx_type \<Rightarrow> cxx_type \<Rightarrow> byte list \<Rightarrow> byte list) \<Rightarrow> signatures \<Rightarrow> 'm library \<Rightarrow> u64 \<Rightarrow> (cxx_type \<times> byte list) list \<Rightarrow>
     'm \<Rightarrow> (byte list option \<times> 'm) outcome" where
  "library_call ch fp sig F n xs m =
     (case sig n of
        None \<Rightarrow> Aborts
      | Some (ret, params) \<Rightarrow>
          if call_impl_ok ret params \<and> typed_call_ok params (map fst xs) \<and> list_all (\<lambda>(t, v). has_type t v) xs then
            and_then (checked (convert_args ch fp params xs)) (\<lambda>vs.
              let (r, m1) = F n (map (poke64 0) vs) m in Returns (returned ret r, m1))
          else Aborts)"

lemma library_call_cases:
  assumes "library_call ch fp sig F n xs m = Returns (r, m1)" "fp_typed fp"
  obtains ret params vs res where "sig n = Some (ret, params)" "call_impl_ok ret params" "list_all (\<lambda>(t, v). has_type t v) xs"
    "convert_args ch fp params xs = Some vs" "list_all2 has_type params vs" "F n (map (poke64 0) vs) m = (res, m1)" "r = returned ret res"
    "typed_call_ok params (map fst xs)"
proof -
  obtain ret params where s: "sig n = Some (ret, params)" and ok: "call_impl_ok ret params" "list_all (\<lambda>(t, v). has_type t v) xs"
      "typed_call_ok params (map fst xs)"
    using assms(1) by (auto simp: library_call_def split: option.splits if_splits)
  then obtain vs where vs: "convert_args ch fp params xs = Some vs"
    using assms(1) by (auto simp: library_call_def checked_def split: option.splits)
  have "list_all2 has_type params vs" using convert_args_typed [OF assms(2) ok(2) vs] by simp
  then show thesis
    using assms(1) s ok vs that by (auto simp: library_call_def split: prod.splits)
qed

text \<open>The words at the locations of the calling convention.\<close>

abbreviation param_types :: "cxx_type list \<Rightarrow> DyfnType list" where
  "param_types params \<equiv> map ffi_type params"

definition words_at :: "arch \<Rightarrow> cxx_type list \<Rightarrow> (arg_loc \<Rightarrow> u64) \<Rightarrow> u64 list" where
  "words_at a params val = map (\<lambda>i. val (abi_loc a (param_types params) i)) [0..<length params]"

lemma portable_params: "call_impl_ok ret params \<Longrightarrow> list_all portable_type params"
  by (simp add: call_impl_ok_def portable_type_def list_all_length)

lemma typed_args_sizes:
  assumes "call_impl_ok ret params" "list_all2 has_type params vs"
  shows "args_ok (int (length params)) (param_types params) vs"
    and "\<And>i. i < length params \<Longrightarrow> dyfn_type_size (ffi_type (params ! i)) = length (vs ! i)"
proof -
  have sz: "dyfn_type_size (ffi_type (params ! i)) = length (vs ! i)" if "i < length params" for i
    using portable_type_facts(1) [of "params ! i" "vs ! i"] portable_params [OF assms(1)] assms(2) that
    by (simp add: list_all_length list_all2_conv_all_nth)
  then show "\<And>i. i < length params \<Longrightarrow> dyfn_type_size (ffi_type (params ! i)) = length (vs ! i)" .
  show "args_ok (int (length params)) (param_types params) vs"
    using assms sz by (simp add: args_ok_def call_impl_ok_def list_all2_lengthD)
qed

text \<open>The frame that \<open>dyfn_prep_call\<close> builds carries the arguments' words.\<close>

lemma words_at_frame:
  assumes ok: "call_impl_ok ret params" "list_all2 has_type params vs"
    and call: "dyfn_prep_call a f rt (int (length params)) (param_types params) vs = Some call"
  shows "words_at a params (call_loc call) = map (poke64 0) vs" "func call = f"
proof -
  have len: "length vs = length params" using ok(2) by (simp add: list_all2_lengthD)
  let ?xs = "zip (param_types params) vs"
  have inv: "prep_inv a f (dyfn_classify rt) ?xs call" using dyfn_prep_call_inv [OF call] len by simp
  show "func call = f" using inv by (simp add: prep_inv_def Let_def)
  have "map fst ?xs = param_types params" using len by simp
  then have "call_loc call (abi_loc a (param_types params) i) = poke64 0 (vs ! i)" if "i < length params" for i
    using prep_inv_value [OF inv, of i] typed_args_sizes(2) [OF ok that] that len by simp
  then show "words_at a params (call_loc call) = map (poke64 0) vs"
    using len by (intro nth_equalityI) (simp_all add: words_at_def)
qed

section \<open>The process backend\<close>

text \<open>What an uninitialised result variable may hold, and what is required of the compiler.\<close>

definition compiler_ok :: "(cxx_type \<Rightarrow> cxx_type \<Rightarrow> byte list \<Rightarrow> byte list) \<Rightarrow> (cxx_type \<Rightarrow> byte list) \<Rightarrow> bool" where
  "compiler_ok fp junk \<longleftrightarrow> fp_typed fp \<and> (\<forall>t. cxx_size t \<noteq> None \<longrightarrow> has_type t (junk t))"

text \<open>The library is loaded in the sandbox process; the client's calls are those of \<open>Sandbox<Process>\<close>.\<close>

definition process_library :: "'m sandbox_env \<Rightarrow> (u64 \<Rightarrow> byte list) \<Rightarrow> signatures \<Rightarrow> 'm library \<Rightarrow> bool" where
  "process_library e lits sig F \<longleftrightarrow>
     (\<forall>n ret params. sig n = Some (ret, params) \<longrightarrow> symbol_address e lits n \<noteq> 0 \<and>
       (\<forall>call p. func call = symbol_address e lits n \<longrightarrow>
          (let (r, m) = F n (words_at (e_arch e) params (call_loc call)) (pr_mem p) in
           e_lib e call p = LibReturns r (p\<lparr>pr_mem := m\<rparr>))))"

definition process_call ::
  "'m sandbox_env \<Rightarrow> kernel \<Rightarrow> bool \<Rightarrow> (cxx_type \<Rightarrow> cxx_type \<Rightarrow> byte list \<Rightarrow> byte list) \<Rightarrow> (cxx_type \<Rightarrow> byte list) \<Rightarrow>
     (u64 \<Rightarrow> byte list) \<Rightarrow> u64 \<Rightarrow> signatures \<Rightarrow> nat \<Rightarrow> u64 \<Rightarrow> (cxx_type \<times> byte list) list \<Rightarrow> ('m, 'g app) world \<Rightarrow>
     (byte list option \<times> ('m, 'g app) world) outcome" where
  "process_call e k ch fp junk lits this sig turns n xs w =
     (case sig n of
        None \<Rightarrow> Aborts
      | Some (ret, params) \<Rightarrow> sandbox_typed_call e (k\<lparr>k_turns := turns\<rparr>) ch fp lits this n ret params xs (junk ret) w)"

definition process_ready where
  "process_ready e fp junk lits sig F fn i w \<longleftrightarrow>
     compiler_ok fp junk \<and> process_library e lits sig F \<and> call_ready fn i w \<and> cache_coherent e lits w"

lemma call_impl_result:
  assumes "call_impl_ok ret params" "compiler_ok fp junk"
  shows "ret = CVoid \<or> has_type ret (junk ret)"
  using assms pbox_type_matches(2) [of ret] by (auto simp: call_impl_ok_def compiler_ok_def)

lemma process_call_spec:
  fixes w :: "('m, 'g app) world"
  assumes ready: "process_ready e fp junk lits sig F fn i w"
    and spec: "library_call ch fp sig F n xs (pr_mem (sb_proc w)) = Returns (r, m)"
  shows "\<exists>w1 turns. process_ready e fp junk lits sig F fn i w1 \<and> pr_mem (sb_proc w1) = m \<and>
    (\<forall>k'\<ge>turns. process_call e k ch fp junk lits this sig k' n xs w = Returns (r, w1))"
proof -
  have rd: "compiler_ok fp junk" "process_library e lits sig F" "call_ready fn i w" "cache_coherent e lits w" "fp_typed fp"
    using ready by (simp_all add: process_ready_def compiler_ok_def)
  obtain ret params vs res where c: "sig n = Some (ret, params)" "call_impl_ok ret params" "list_all (\<lambda>(t, v). has_type t v) xs"
    "convert_args ch fp params xs = Some vs" "list_all2 has_type params vs" "F n (map (poke64 0) vs) (pr_mem (sb_proc w)) = (res, m)"
    "r = returned ret res" "typed_call_ok params (map fst xs)"
    by (rule library_call_cases [OF spec rd(5)])
  let ?f = "symbol_address e lits n" and ?p0 = "(sb_proc w)\<lparr>pr_window := mem_storage (sb_chan w i)\<rparr>"
  obtain frame where frame: "dyfn_prep_call (e_arch e) ?f (ffi_type ret) (int (length params)) (param_types params) vs = Some frame"
    using dyfn_prep_call_total [OF typed_args_sizes(1) [OF c(2,5)]] by blast
  note wf = words_at_frame [OF c(2,5) frame]
  have lib: "?f \<noteq> 0" "e_lib e frame ?p0 = LibReturns res (?p0\<lparr>pr_mem := m\<rparr>)"
    using rd(2) c(1,6) wf by (auto simp: process_library_def split: prod.splits)
  let ?h = "calling_app this n ?f (h_app w)"
  have dir: "direct_call (e_arch e) (e_junk e) fn (b_reg w) (sb_table w i) (e_lib e frame ?p0) ?h = Some (res, ?p0\<lparr>pr_mem := m\<rparr>, ?h)"
    by (simp add: lib(2))
  have cf: "call_frame e ?f (pbox_type_v ret) (length params) (map pbox_type_v params) vs = Some frame"
    using frame by (simp add: call_frame_def comp_def)
  have win: "length (pr_window (?p0\<lparr>pr_mem := m\<rparr>)) = PBOX_MEM_STORAGE"
    using rd(3) by (simp add: call_ready_def channel_wf_def)
  obtain ch' turns where ch': "channel_wf ch'" and
    call: "\<And>k :: kernel. turns \<le> k_turns k \<Longrightarrow> sandbox_call e k ch fp lits this n ret params xs (junk ret) w =
       Returns (if ret = CVoid then None else Some (call_result (pbox_type_v ret) res), after_call i ch' (?p0\<lparr>pr_mem := m\<rparr>) ?h w)"
    by (rule sandbox_call_direct [OF rd(3,4) refl lib(1) c(2,3) rd(5) c(4) cf dir win call_impl_result [OF c(2) rd(1)]]) blast
  let ?w1 = "after_call i ch' (?p0\<lparr>pr_mem := m\<rparr>) ?h w"
  have "cache_coherent e lits ?w1" using rd(4) lib(1) by (simp add: cache_coherent_def calling_app_def)
  moreover have "call_ready fn i ?w1" using rd(3) ch' by (simp add: call_ready_def)
  ultimately have "process_ready e fp junk lits sig F fn i ?w1" using rd by (simp add: process_ready_def)
  moreover have "process_call e k ch fp junk lits this sig t n xs w = Returns (r, ?w1)" if "turns \<le> t" for t
    using call [of "k\<lparr>k_turns := t\<rparr>"] that c(1,7,8) by (simp add: process_call_def sandbox_typed_call_def returned_def)
  ultimately show ?thesis by (intro exI [of _ ?w1] exI [of _ turns]) simp
qed

interpretation process_backend: call_backend "process_call e k ch fp junk lits this sig" "library_call ch fp sig F"
  "process_ready e fp junk lits sig F fn i :: ('m, 'g app) world \<Rightarrow> bool" "\<lambda>w. pr_mem (sb_proc w)"
  for e :: "'m sandbox_env" and k ch fp junk lits this sig F i and fn :: "u64 \<Rightarrow> byte list list \<Rightarrow> 'g app \<Rightarrow> byte list \<times> 'g app"
  by unfold_locales (rule process_call_spec)

section \<open>The passthrough backend\<close>

definition passthrough_library :: "'m pt_env \<Rightarrow> pt_sandbox \<Rightarrow> (u64 \<Rightarrow> byte list) \<Rightarrow> signatures \<Rightarrow> 'm library \<Rightarrow> bool" where
  "passthrough_library e sb lits sig F \<longleftrightarrow>
     (\<forall>n ret params. sig n = Some (ret, params) \<longrightarrow> pe_dlsym e (pt_handle sb) (lits n) \<noteq> 0 \<and>
       (\<forall>vs w. list_all2 has_type params vs \<longrightarrow>
          (let (r, m) = F n (map (poke64 0) vs) (pw_user w) in
           \<exists>w1. pe_code e (pe_dlsym e (pt_handle sb) (lits n)) vs w = Returns (returned ret r, w1) \<and>
             pw_user w1 = m \<and> pw_cache w1 = pw_cache w)))"

definition passthrough_call ::
  "'m pt_env \<Rightarrow> pt_sandbox \<Rightarrow> bool \<Rightarrow> (cxx_type \<Rightarrow> cxx_type \<Rightarrow> byte list \<Rightarrow> byte list) \<Rightarrow> (u64 \<Rightarrow> byte list) \<Rightarrow> signatures \<Rightarrow>
     u64 \<Rightarrow> (cxx_type \<times> byte list) list \<Rightarrow> 'm pt_world \<Rightarrow> (byte list option \<times> 'm pt_world) outcome" where
  "passthrough_call e sb ch fp lits sig n xs w =
     (case sig n of None \<Rightarrow> Aborts | Some (ret, params) \<Rightarrow> pt_typed_call e sb ch fp lits n params xs w)"

definition passthrough_ready where
  "passthrough_ready e sb fp lits sig F w \<longleftrightarrow> fp_typed fp \<and> passthrough_library e sb lits sig F \<and> pt_coherent e sb lits w"

lemma passthrough_call_spec:
  assumes ready: "passthrough_ready e sb fp lits sig F w"
    and spec: "library_call ch fp sig F n xs (pw_user w) = Returns (r, m)"
  shows "\<exists>w1. passthrough_ready e sb fp lits sig F w1 \<and> pw_user w1 = m \<and> passthrough_call e sb ch fp lits sig n xs w = Returns (r, w1)"
proof -
  have rd: "passthrough_library e sb lits sig F" "pt_coherent e sb lits w" "fp_typed fp"
    using ready by (simp_all add: passthrough_ready_def)
  obtain ret params vs res where c: "sig n = Some (ret, params)" "convert_args ch fp params xs = Some vs" "list_all2 has_type params vs"
    "F n (map (poke64 0) vs) (pw_user w) = (res, m)" "r = returned ret res"
    "typed_call_ok params (map fst xs)"
    by (rule library_call_cases [OF spec rd(3)])
  let ?f = "pe_dlsym e (pt_handle sb) (lits n)"
  let ?w0 = "w\<lparr>pw_cache := (pw_cache w)(n \<mapsto> ?f), pw_tls := pt_this sb\<rparr>"
  have f: "?f \<noteq> 0" using rd(1) c(1) by (auto simp: passthrough_library_def)
  obtain w1 where w1: "pe_code e ?f vs ?w0 = Returns (r, w1)" "pw_user w1 = m" "pw_cache w1 = (pw_cache w)(n \<mapsto> ?f)"
    using rd(1) [unfolded passthrough_library_def, rule_format, OF c(1), THEN conjunct2, rule_format, OF c(3), of ?w0] c(4,5) by auto
  have "pt_coherent e sb lits w1" using rd(2) f w1(3) by (simp add: pt_coherent_def)
  moreover have "passthrough_call e sb ch fp lits sig n xs w = Returns (r, w1)"
    using pt_call_function [OF rd(2) f c(2)] w1(1) c(1,6) by (simp add: passthrough_call_def pt_typed_call_def)
  ultimately show ?thesis using rd w1(2) by (intro exI [of _ w1]) (simp add: passthrough_ready_def)
qed

interpretation passthrough_backend: call_backend "\<lambda>turns. passthrough_call e sb ch fp lits sig" "library_call ch fp sig F"
  "passthrough_ready e sb fp lits sig F :: 'm pt_world \<Rightarrow> bool" pw_user
  for e :: "'m pt_env" and sb ch fp lits sig F
  by unfold_locales (drule (1) passthrough_call_spec, blast)

section \<open>The LFI backend\<close>

text \<open>The code in the sandbox may do what it likes with its registers and its memory; the host's tables are out of its reach.\<close>

definition lfi_library :: "'m lfi_env \<Rightarrow> u64 \<Rightarrow> (u64 \<Rightarrow> byte list) \<Rightarrow> signatures \<Rightarrow> 'm library \<Rightarrow> bool" where
  "lfi_library e k lits sig F \<longleftrightarrow>
     (\<forall>n ret params. sig n = Some (ret, params) \<longrightarrow> le_proc_sym e (lits n) \<noteq> 0 \<and>
       (\<forall>w. fst (snd (l_invoke w)) = le_proc_sym e (lits n) \<longrightarrow>
          (let (r, m) = F n (words_at (le_arch e) params (lfi_loc (le_arch e) (l_ctx_regs w k) (l_mem w))) (l_user w) in
           \<exists>w1. le_trampoline e w = Returns w1 \<and> l_user w1 = m \<and> l_entries w1 = l_entries w \<and> l_symbols w1 = l_symbols w \<and>
             get_int_return (le_arch e) (l_ctx_regs w1 k) = int_val r \<and> get_float_return (l_ctx_regs w1 k) = float_val r)))"

definition lfi_backend_call ::
  "'m lfi_env \<Rightarrow> lfi_sandbox \<Rightarrow> bool \<Rightarrow> (cxx_type \<Rightarrow> cxx_type \<Rightarrow> byte list \<Rightarrow> byte list) \<Rightarrow> (cxx_type \<Rightarrow> byte list) \<Rightarrow>
     (u64 \<Rightarrow> byte list) \<Rightarrow> signatures \<Rightarrow> u64 \<Rightarrow> (cxx_type \<times> byte list) list \<Rightarrow> 'm lfi_world \<Rightarrow>
     (byte list option \<times> 'm lfi_world) outcome" where
  "lfi_backend_call e sb ch fp junk lits sig n xs w =
     (case sig n of None \<Rightarrow> Aborts | Some (ret, params) \<Rightarrow> lfi_typed_call e sb ch fp (lits n) ret params xs (junk ret) w)"

definition lfi_backend_ready where
  "lfi_backend_ready e sb k fp junk lits sig F w \<longleftrightarrow>
     compiler_ok fp junk \<and> lfi_library e k lits sig F \<and> lfi_ready sb k w \<and> 47 \<le> unat (lfi_sp e k w) \<and>
     (\<forall>s f. l_symbols w s = Some f \<longrightarrow> f = le_proc_sym e s \<and> f \<noteq> 0)"

lemma returns_after_set_sp [simp]:
  "get_int_return a (set_sp a sp regs) = get_int_return a regs" "get_float_return (set_sp a sp regs) = get_float_return regs"
  by (cases a; simp add: get_int_return_def get_float_return_def set_sp_def)+

text \<open>Both backends cut the result out of the same register.\<close>

lemma lfi_return_portable:
  assumes "portable_type ret" "has_type ret junk" "get_int_return a regs = int_val r" "get_float_return regs = float_val r"
  shows "lfi_return a ret junk regs = Some (call_result (pbox_type_v ret) r)"
proof -
  have p: "pbox_type ret \<noteq> None" "ret \<noteq> CVoid" using assms(1) by (simp_all add: portable_type_def)
  have sz: "length junk = pbox_type_size (pbox_type_v ret)" using pbox_type_matches(2) [OF p] assms(2) by (simp add: has_type_def)
  have fl: "is_floating (remove_cv ret) = is_float_type (ffi_type ret)"
    using p by (cases ret) (auto simp: is_floating_def is_float_type_iff pbox_type_v_def dyfn_of_code_def)
  have ptr: "is_pointer ret \<Longrightarrow> length junk = 8" using pointer_size [of ret] assms(2) by (simp add: has_type_def)
  have "length junk \<le> 8" using sz pbox_type_size_le_8 by simp
  then show ?thesis
    using ptr sz fl assms(3,4) by (auto simp: lfi_return_def call_result_def memcpy_to_def blit_def)
qed

lemma lfi_lookup_known:
  assumes "\<forall>s f. l_symbols w s = Some f \<longrightarrow> f = le_proc_sym e s \<and> f \<noteq> 0" "le_proc_sym e s \<noteq> 0"
  obtains w1 where "lfi_lookup e s w = Returns (le_proc_sym e s, w1)" "w1 = w\<lparr>l_symbols := (l_symbols w)(s \<mapsto> le_proc_sym e s)\<rparr>"
proof (cases "l_symbols w s")
  case (Some f)
  with assms(1) have f: "f = le_proc_sym e s" by simp
  with Some have "(l_symbols w)(s \<mapsto> le_proc_sym e s) = l_symbols w" by auto
  with Some f that [of w] show thesis by (simp add: lfi_lookup_def cached_lookup_def)
qed (use assms(2) that in \<open>simp add: lfi_lookup_def cached_lookup_def\<close>)

lemma lfi_call_spec:
  fixes w :: "'m lfi_world"
  assumes ready: "lfi_backend_ready e sb k fp junk lits sig F w"
    and spec: "library_call ch fp sig F n xs (l_user w) = Returns (r, m)"
  shows "\<exists>w1. lfi_backend_ready e sb k fp junk lits sig F w1 \<and> l_user w1 = m \<and>
    lfi_backend_call e sb ch fp junk lits sig n xs w = Returns (r, w1)"
proof -
  have rd: "compiler_ok fp junk" "lfi_library e k lits sig F" "lfi_ready sb k w" "47 \<le> unat (lfi_sp e k w)"
    "\<forall>s f. l_symbols w s = Some f \<longrightarrow> f = le_proc_sym e s \<and> f \<noteq> 0" "fp_typed fp"
    using ready by (simp_all add: lfi_backend_ready_def compiler_ok_def)
  obtain ret params vs res where c: "sig n = Some (ret, params)" "call_impl_ok ret params" "list_all (\<lambda>(t, v). has_type t v) xs"
    "convert_args ch fp params xs = Some vs" "list_all2 has_type params vs" "F n (map (poke64 0) vs) (l_user w) = (res, m)"
    "r = returned ret res" "typed_call_ok params (map fst xs)"
    by (rule library_call_cases [OF spec rd(6)])
  let ?f = "le_proc_sym e (lits n)" and ?a = "le_arch e"
  have f: "?f \<noteq> 0" using rd(2) c(1) by (auto simp: lfi_library_def)
  obtain w1 where look: "lfi_lookup e (lits n) w = Returns (?f, w1)" and w1: "w1 = w\<lparr>l_symbols := (l_symbols w)(lits n \<mapsto> ?f)\<rparr>"
    by (rule lfi_lookup_known [OF rd(5) f])
  have r1: "lfi_ready sb k w1" "47 \<le> unat (lfi_sp e k w1)" "lfi_sp e k w1 = lfi_sp e k w" "l_user w1 = l_user w"
    using rd(3,4) lfi_ready_cong [of w1 w sb k] by (simp_all add: w1)
  have max: "length params \<le> max_args" using c(2) by (simp add: call_impl_ok_def)
  obtain i regs2 m2 call where
    enter: "lfi_enter e sb ?f params vs w1 = Returns (k, lfi_sp e k w1,
        set_regs k regs2 (w1\<lparr>l_tls := ls_this sb, l_invoke := (i, ?f, ls_box sb), l_mem := m2\<rparr>))" and
    call: "dyfn_prep_call ?a ?f (ffi_type ret) (int (length params)) (param_types params) vs = Some call" and
    agrees: "frame_agrees ?a (param_types params) call regs2 m2"
    by (rule lfi_enter_frame [OF r1(1) portable_params [OF c(2)] c(5) max r1(2), where fn = ?f and f = ?f and rt = "ffi_type ret"])
  let ?w2 = "set_regs k regs2 (w1\<lparr>l_tls := ls_this sb, l_invoke := (i, ?f, ls_box sb), l_mem := m2\<rparr>)"
  have "words_at ?a params (lfi_loc ?a regs2 m2) = words_at ?a params (call_loc call)"
    using agrees by (simp add: words_at_def frame_agrees_def del: lfi_loc.simps)
  then have words: "words_at ?a params (lfi_loc ?a (l_ctx_regs ?w2 k) (l_mem ?w2)) = map (poke64 0) vs"
    using words_at_frame(1) [OF c(2,5) call] by simp
  have w2: "fst (snd (l_invoke ?w2)) = ?f" "l_user ?w2 = l_user w" "l_entries ?w2 = l_entries w" "l_symbols ?w2 = (l_symbols w)(lits n \<mapsto> ?f)"
    by (simp_all add: set_regs_def w1)
  obtain w3 where run: "le_trampoline e ?w2 = Returns w3" and w3: "l_user w3 = m" "l_entries w3 = l_entries w"
    "l_symbols w3 = (l_symbols w)(lits n \<mapsto> ?f)" "get_int_return ?a (l_ctx_regs w3 k) = int_val res" "get_float_return (l_ctx_regs w3 k) = float_val res"
    using rd(2) [unfolded lfi_library_def, rule_format, OF c(1), THEN conjunct2, rule_format, OF w2(1)]
    unfolding words w2(2-4) c(6) Let_def prod.case by blast
  let ?w4 = "set_regs k (set_sp ?a (lfi_sp e k w) (l_ctx_regs w3 k)) w3"
  have res: "checked (lfi_return ?a ret (junk ret) (set_sp ?a (lfi_sp e k w) (l_ctx_regs w3 k))) = Returns (call_result (pbox_type_v ret) res)"
    if "ret \<noteq> CVoid"
    using lfi_return_portable [of ret "junk ret"] call_impl_result [OF c(2) rd(1)] c(2) w3(4,5) that
    by (simp add: portable_type_def call_impl_ok_def)
  have "lfi_call_ptr e sb ?f ret params vs (junk ret) w1 = Returns (returned ret res, ?w4)"
    using res by (simp add: lfi_call_ptr_def enter r1(3) run Let_def returned_def)
  then have "lfi_backend_call e sb ch fp junk lits sig n xs w = Returns (r, ?w4)"
    using c(1,4,7,8) look by (simp add: lfi_backend_call_def lfi_typed_call_def lfi_call_def)
  moreover have "lfi_backend_ready e sb k fp junk lits sig F ?w4"
    using rd f w3 lfi_ready_cong [of ?w4 w sb k] by (simp add: lfi_backend_ready_def) (simp add: set_regs_def)
  moreover have "l_user ?w4 = m" using w3(1) by (simp add: set_regs_def)
  ultimately show ?thesis by blast
qed

interpretation lfi_backend: call_backend "\<lambda>turns. lfi_backend_call e sb ch fp junk lits sig" "library_call ch fp sig F"
  "lfi_backend_ready e sb k fp junk lits sig F :: 'm lfi_world \<Rightarrow> bool" l_user
  for e :: "'m lfi_env" and sb ch k fp junk lits sig F
  by unfold_locales (drule (1) lfi_call_spec, blast)

section \<open>Properties\<close>

text \<open>An example: the library's one function adds its call count to its argument; it is called twice.\<close>

definition counter :: "u64 library" where
  "counter n ws m = (\<lparr>int_val = ws ! 0 + m, float_val = 0\<rparr>, m + 1)"

definition counter_sig :: signatures where
  "counter_sig = (\<lambda>_. Some (CUChar, [CUChar]))"

definition counter_client :: "byte list option client" where
  "counter_client = CallLib 64 [(CUChar, [5])] (\<lambda>b. CallLib 64 [(CUChar, the b)] Answer)"

definition zeroed :: "cxx_type \<Rightarrow> byte list" where
  "zeroed t = replicate (the (cxx_size t)) 0"

definition counter_env :: "u64 sandbox_env" where
  "counter_env = \<lparr>e_arch = X86_64, e_stubs = (\<lambda>i. 0x5000 + word_of_nat (16 * i)),
     e_lib = (\<lambda>call p. LibReturns \<lparr>int_val = int_regs call ! 0 + pr_mem p, float_val = 0\<rparr> (p\<lparr>pr_mem := pr_mem p + 1\<rparr>)),
     e_dlsym = (\<lambda>s. 0x2000), e_new_fd = (\<lambda>fds. - 1), e_spawn_ok = True, e_map_file = (\<lambda>f. Mapped), e_filter_ok = True, e_chan_addr = (\<lambda>i. 0x7F0000000000),
     e_junk = \<lparr>cr_int_val = 0, cr_float_val = 0, cr_ret_class = DYFN_CLASS_INT\<rparr>\<rparr>"

definition counter_lfi :: "u64 lfi_env" where
  "counter_lfi = \<lparr>le_arch = X86_64, le_tid = 1, le_main_ctx = 1, le_clone = (\<lambda>b w. (0, w)),
     le_trampoline = (\<lambda>w. Returns (set_regs 1 \<lparr>gprs = (gprs (l_ctx_regs w 1))(RAX := gprs (l_ctx_regs w 1) RDI + l_user w), fprs = (\<lambda>_. 0)\<rparr>
       (w\<lparr>l_user := l_user w + 1\<rparr>))),
     le_proc_sym = (\<lambda>n. 0x2000), le_malloc = (\<lambda>b i n w. (0, w)), le_calloc = (\<lambda>b i c n w. (0, w)),
     le_realloc = (\<lambda>b i p n w. (0, w)), le_free = (\<lambda>b i p w. w), le_bufvalid = (\<lambda>b p n. False), le_register_cb = (\<lambda>b f. 0),
     le_mapat = (\<lambda>b a n p f d off w. (0, w)), le_mapany = (\<lambda>b n p f d off w. (0, w)), le_munmap = (\<lambda>b a n w. (0, w)),
     le_flags = \<lparr>LFI_PROT_READ = 1, LFI_PROT_WRITE = 2, LFI_PROT_EXEC = 4, LFI_MAP_SHARED = 1, LFI_MAP_PRIVATE = 2,
       LFI_MAP_FIXED = 4, LFI_MAP_ANONYMOUS = 8\<rparr>\<rparr>"

definition counter_lfi_world :: "u64 lfi_world" where
  "counter_lfi_world = \<lparr>l_mem = (\<lambda>_. 0), l_ctx_regs = (\<lambda>_. \<lparr>gprs = (\<lambda>_. 0x10000), fprs = (\<lambda>_. 0)\<rparr>), l_entries = [(5, 1)],
     l_symbols = Map.empty, l_idmem = [], l_vars = (\<lambda>v. []), l_tls = 0, l_invoke = (0, 0, 0), l_user = 0\<rparr>"

definition counter_pt :: "u64 pt_env" where
  "counter_pt = \<lparr>pe_dlopen = (\<lambda>p w. (1, w)), pe_dlclose = (\<lambda>h w. w), pe_dlsym = (\<lambda>h n. 0x2000),
     pe_code = (\<lambda>f vs w. Returns (Some (take 1 (to_bytes (poke64 0 (vs ! 0) + pw_user w))), w\<lparr>pw_user := pw_user w + 1\<rparr>)),
     pe_malloc = (\<lambda>n w. (0, w)), pe_calloc = (\<lambda>c n w. (0, w)), pe_realloc = (\<lambda>p n w. (0, w)), pe_free = (\<lambda>p w. w),
     pe_mmap = (\<lambda>a n p f d off w. (0, w)), pe_munmap = (\<lambda>a n w. (0, w)), pe_close = (\<lambda>fd w. (0, w))\<rparr>"

definition counter_pt_world :: "u64 pt_world" where
  "counter_pt_world = \<lparr>pw_mem = (\<lambda>_. 0), pw_tls = 0, pw_cache = Map.empty, pw_arena = None, pw_user = 0\<rparr>"

lemma counter_compiler: "compiler_ok no_fp zeroed"
  by (auto simp: compiler_ok_def no_fp_typed has_type_def zeroed_def)

lemma counter_words: "words_at X86_64 [CUChar] val = [val (IntReg 0)]"
  by (simp add: words_at_def abi_loc_def is_float_type_iff pbox_type_v_def dyfn_of_code_def)

lemma counter_process:
  "process_ready counter_env no_fp zeroed (\<lambda>_. [105]) counter_sig counter (\<lambda>_ _ h. ([], h)) 1 (cxx_world 0 (fresh_app ()))"
proof -
  have "process_library counter_env (\<lambda>_. [105]) counter_sig counter"
    by (simp add: process_library_def counter_sig_def counter_words counter_def) (simp add: counter_env_def counter_words)
  moreover have "symbol_cache (h_app (cxx_world (0 :: u64) (fresh_app ()))) = Map.empty" by (simp add: cxx_world_def fresh_app_def)
  ultimately show ?thesis by (simp add: process_ready_def counter_compiler cache_coherent_def del: One_nat_def)
qed

lemma counter_lfi_ready: "lfi_backend_ready counter_lfi lfi_example_sandbox 1 no_fp zeroed (\<lambda>_. [105]) counter_sig counter counter_lfi_world"
proof -
  have "lfi_library counter_lfi 1 (\<lambda>_. [105]) counter_sig counter"
    by (simp add: lfi_library_def counter_sig_def counter_words counter_def counter_lfi_def get_int_return_def get_float_return_def)
       (simp add: set_regs_def)
  then show ?thesis
    by (simp add: lfi_backend_ready_def counter_compiler counter_lfi_world_def lfi_ready_def lfi_example_sandbox_def get_sp_def
        counter_lfi_def)
qed

lemma counter_pt_ready: "passthrough_ready counter_pt (pt_static 16) no_fp (\<lambda>_. [105]) counter_sig counter counter_pt_world"
proof -
  have "passthrough_library counter_pt (pt_static 16) (\<lambda>_. [105]) counter_sig counter"
    by (auto simp: passthrough_library_def counter_sig_def counter_def counter_pt_def returned_def call_result_def
        pbox_type_v_def is_float_type_iff dyfn_of_code_def list_all2_Cons1)
  then show ?thesis
    by (simp add: passthrough_ready_def no_fp_typed pt_coherent_def counter_pt_world_def)
qed

lemma counter_result: "run_client (library_call True no_fp counter_sig counter) counter_client 0 = Returns (Some [6], 2)"
proof -
  have conv: "convert_call_arg True no_fp CUChar CUChar [5] = Some [5]"
    by (simp add: convert_call_arg_def is_sbox_ptr_def is_sbox_safe_ptr_def is_pointer_def static_cast_def is_integral_def
        integral_cast_def integer_value_def is_signed_def)
  have "nat_le (Suc 7) x = word_of_nat x # nat_le 7 (x div 256)" for x by (rule nat_le.simps)
  then have eight: "nat_le 8 x = word_of_nat x # nat_le 7 (x div 256)" for x by simp
  have zero: "nat_le n 0 = replicate n 0" "le_nat (replicate n 0) = 0" for n by (induction n) simp_all
  have five: "poke64 0 [5] = 5" "take 1 (to_bytes (5 :: u64)) = [5]" "take 1 (to_bytes (6 :: u64)) = [6]"
    by (simp_all add: poke64_def blit_def of_bytes_def to_bytes_def eight zero del: nat_le.simps)
  have "library_call True no_fp counter_sig counter 64 [(CUChar, [5])] m = Returns (Some (take 1 (to_bytes (5 + m))), m + 1)" for m
    by (simp add: library_call_def counter_sig_def counter_def call_impl_ok_def typed_call_ok_def check_sbox_ptr_arg_def
        is_pointer_def has_type_def conv five(1)
        returned_def call_result_def pbox_type_v_def is_float_type_iff dyfn_of_code_def)
  from this [of 0] this [of 1] show ?thesis using five by (simp add: counter_client_def)
qed

text \<open>Calling a handle that \<open>fn(name)\<close> has just returned is calling by name, when the name is known.\<close>

lemma handle_calls:
  "lookup e k lits n w = Returns (f, w1) \<Longrightarrow> f \<noteq> 0 \<Longrightarrow>
     and_then (sandbox_fn e k lits this n w) (\<lambda>(fh, w1). fn_handle_call e k ch fp fh ret params xs junk w1) =
     sandbox_call e k ch fp lits this n ret params xs junk w"
  "and_then (lfi_fn le lsb s v) (\<lambda>(fh, v1). lfi_handle_call le lsb ch fp fh ret params xs junk v1) =
     lfi_call le lsb ch fp s ret params xs junk v"
  "pt_lookup pe psb lits n u = Returns (f, u1) \<Longrightarrow> f \<noteq> 0 \<Longrightarrow>
     and_then (pt_fn pe psb lits n u) (\<lambda>(fh, u1). pt_handle_call pe psb ch fp fh params xs u1) = pt_call pe psb ch fp lits n params xs u"
  by (simp_all add: sandbox_fn_def fn_handle_call_def sandbox_call_def pt_fn_def pt_handle_call_def pt_call_def)
     (cases "lfi_lookup le s v"; auto simp: lfi_fn_def lfi_handle_call_def lfi_call_def)

text \<open>C3: a program can change its backend. For every library that keeps its state to itself and every
  program of typed calls, each call depending in any way on the results before it, whose calls
  compile: the process backend (given enough turns of its waits), the LFI backend and the
  passthrough backend compute the same result and leave the library in the same state, namely those of
  the program that calls the library directly.\<close>

theorem backends_agree:
  fixes w :: "('m, 'g app) world"
  assumes "process_ready e fp junk lits sig F fn i w" "lfi_backend_ready le lsb q fp junk lits sig F v"
    and "passthrough_ready pe psb fp lits sig F u"
    and "pr_mem (sb_proc w) = m" "l_user v = m" "pw_user u = m"
    and "run_client (library_call ch fp sig F) c m = Returns (r, m1)"
  shows "(\<exists>w1 turns. pr_mem (sb_proc w1) = m1 \<and>
      (\<forall>t\<ge>turns. run_client (process_call e k ch fp junk lits this sig t) c w = Returns (r, w1))) \<and>
    (\<exists>v1. l_user v1 = m1 \<and> run_client (lfi_backend_call le lsb ch fp junk lits sig) c v = Returns (r, v1)) \<and>
    (\<exists>u1. pw_user u1 = m1 \<and> run_client (passthrough_call pe psb ch fp lits sig) c u = Returns (r, u1))"
  using process_backend.run_client_spec [OF assms(1), of ch c r m1 k this] lfi_backend.run_client_spec [OF assms(2), of ch c r m1]
    passthrough_backend.run_client_spec [OF assms(3), of ch c r m1] assms(4-7)
  by (metis order_refl)

theorem backends_agree_witness:
  "\<exists>w1 turns v1 u1.
     (\<forall>t\<ge>turns. run_client (process_call counter_env example_kernel True no_fp zeroed (\<lambda>_. [105]) 16 counter_sig t) counter_client
        (cxx_world 0 (fresh_app ())) = Returns (Some [6], w1)) \<and>
     run_client (lfi_backend_call counter_lfi lfi_example_sandbox True no_fp zeroed (\<lambda>_. [105]) counter_sig) counter_client
        counter_lfi_world = Returns (Some [6], v1) \<and>
     run_client (passthrough_call counter_pt (pt_static 16) True no_fp (\<lambda>_. [105]) counter_sig) counter_client
        counter_pt_world = Returns (Some [6], u1)"
proof -
  have "pr_mem (sb_proc (cxx_world (0 :: u64) (fresh_app ()))) = 0" "l_user counter_lfi_world = 0" "pw_user counter_pt_world = 0"
    by (simp_all add: cxx_world_def counter_lfi_world_def counter_pt_world_def)
  from backends_agree [OF counter_process counter_lfi_ready counter_pt_ready this counter_result, of example_kernel 16]
  show ?thesis by blast
qed

end
