(* ===== verification/Spec2Isabelle.thy ===== *)
theory Spec2Isabelle
  imports Prelude FfiTypes Dyfn Channel Callbacks Sandbox Host Calls Lifecycle FdCache Idmem ProcMaps Seccomp Memory Copying Ownership Protocol CxxTypes ProcessBox ContextParams CallContext LfiCalls Lfi LfiEngine Passthrough Threads BoxThreads Interleaving Sections SerialSends Backends
begin

text \<open>
  A verification of SBox, a library that runs a C library in a sandbox and lets a C++ program call it.

  \<^bold>\<open>The program.\<close> The process backend runs the library in a child process. Each host thread shares one
  \<open>struct PBoxChannel\<close> with one thread of the sandbox; a request is a set of fields in it and a change
  of its futex word. \<open>src/pbox/pbox.c\<close> is the host's side, \<open>src/pbox/pbox_sandbox.c\<close> the sandbox's,
  \<open>src/dyfn\<close> makes calls and callback stubs from run-time type codes, \<open>pbox_seccomp.c\<close> confines the
  sandbox, \<open>pbox_procmaps.c\<close> finds addresses free in both processes. The C++ classes
  \<open>Sandbox<Backend>\<close> give the library a typed interface over three backends: the process backend
  (\<open>include/sbox/process.hh\<close>), LFI, which shares the address space with the library
  (\<open>include/sbox/lfi.hh\<close>, \<open>src/sbox_lfi.cc\<close>), and passthrough, which does not isolate it
  (\<open>include/sbox/passthrough.hh\<close>). A call converts its arguments to the parameter types, looks the
  function up in a cache and hands the objects to the backend; a \<open>CallContext\<close> gives pointer parameters
  blocks that the sandbox can reach and copies the results back.

  \<^bold>\<open>The theories.\<close>
  \<^item> \<open>Prelude\<close>: byte objects, words, rounding, \<open>outcome\<close> (a result, a failed assertion, waiting for ever).
  \<^item> \<open>FfiTypes\<close>, \<open>Dyfn\<close>: type codes; \<open>dyfn_prep_call\<close> against the calling convention \<open>abi_loc\<close>; closure slots.
  \<^item> \<open>Channel\<close>: \<open>struct PBoxChannel\<close>, packing and unpacking of a call, the result.
  \<^item> \<open>Callbacks\<close>: closure dispatcher, callback registry, \<open>pbox_dispatch_callback\<close>, typed dispatcher.
  \<^item> \<open>Sandbox\<close>: the dispatch loop; library code is a resumption that may call back or die.
  \<^item> \<open>Host\<close>: \<open>struct PBox\<close> as the record \<open>world\<close>, waits, channels, symbols, calls, descriptors.
  \<^item> \<open>Calls\<close>: a call through the box computes what \<open>direct_call\<close> specifies.
  \<^item> \<open>Protocol\<close>: the futex handshake with both threads interleaved at every access.
  \<^item> \<open>FdCache\<close>: the descriptor cache refines a finite map.
  \<^item> \<open>Idmem\<close>: both arenas implement the interface \<open>bump_arena\<close>.
  \<^item> \<open>Memory\<close>, \<open>Copying\<close>: the memory operations; the chunked copies are a \<open>memcpy\<close>.
  \<^item> \<open>Lifecycle\<close>, \<open>Ownership\<close>: creation, thread exit, destruction; nothing is leaked.
  \<^item> \<open>ProcMaps\<close>, \<open>Seccomp\<close>: the address search; the filter programs under an interpreter.
  \<^item> \<open>CxxTypes\<close>: C++ types, the check of typed calls, conversions, the map to type codes.
  \<^item> \<open>ProcessBox\<close>: \<open>Sandbox<Process>\<close>; a typed call is a direct call of the library function.
  \<^item> \<open>ContextParams\<close>, \<open>CallContext\<close>: call contexts; the process backend's take their blocks from the
    thread's arena.
  \<^item> \<open>LfiCalls\<close>, \<open>Lfi\<close>: \<open>Sandbox<LFI>\<close>; marshalling agrees with \<open>dyfn_prep_call\<close>, contexts on the stack.
  \<^item> \<open>LfiEngine\<close>: the engine manager and the creation of LFI sandboxes; nothing is leaked.
  \<^item> \<open>Passthrough\<close>: \<open>Sandbox<Passthrough>\<close>.
  \<^item> \<open>Threads\<close>: host threads as resumptions with mutexes, their interleavings, deadlock and protection.
  \<^item> \<open>BoxThreads\<close>: the operations of the box cut where another thread can come in between.
  \<^item> \<open>Interleaving\<close>: what any number of host threads can and cannot do to each other.
  \<^item> \<open>Sections\<close>, \<open>SerialSends\<close>: critical sections of one mutex are serialised; concurrent \<open>pbox_send_fd\<close>.
  \<^item> \<open>Backends\<close>: a program of typed calls computes the same with each of the three backends.

  \<^bold>\<open>Interfaces.\<close> \<open>fd_table\<close> (the descriptor cache), \<open>bump_arena\<close> (both arenas),
  \<open>symbol_source\<close> (the symbol search of the process and the
  passthrough backend under one cache), \<open>param_blocks\<close> (the blocks of process and LFI contexts),
  \<open>lock_discipline\<close> (a lock order and what each mutex protects), \<open>call_backend\<close> (typed calls against
  the library they reach, for all three backends).

  \<^bold>\<open>Bounds.\<close> \<open>k_turns\<close> bounds the iterations of a response wait; the theorems on calls give a number of
  turns that is enough, and \<open>Protocol\<close> proves that the interleaved loops end. An LFI call needs 47
  bytes of stack for its at most four stack arguments and their alignment, a context parameter its
  size and 15 bytes; the code checks neither.

  \<^bold>\<open>Not modelled.\<close> The assembly stubs (their contract is the pair of records \<open>DyfnCallArgs\<close> and
  \<open>DyfnClosureSavedRegs\<close>), the LFI runtime, the dynamic linker, the C library of the host, the kernels
  and the library code (parameters), floating-point conversions (a parameter), tests, examples and
  build files. The contents of files other than channels are not modelled, so a worker that is started on
  one of them only waits; what \<open>mmap\<close> of such a file does, whether \<open>close_range\<close> works, and whether the host
  program ignores \<open>SIGPIPE\<close> are parameters. Of the mutexes, those of \<open>struct PBox\<close> and \<open>cache_mutex_\<close> of \<open>Sandbox<Process>\<close> are
  modelled; the LFI and passthrough classes are modelled as one thread uses them.
\<close>

end
